(* ===== verification/Prelude.thy ===== *)
theory Prelude
  imports Main "HOL-Library.AList"
begin

text \<open>
  Shared vocabulary of the development: the names of the basic Go types, the collections of
  rewrite rules that carry the component proofs, two's complement wrap-around of Go's
  64-bit integers, and generic lemmas on lists and association lists.

  A Go \<open>string\<close> or \<open>[]byte\<close> is a list of \<^typ>\<open>char\<close>: a \<^typ>\<open>char\<close> of HOL is one byte.
  A Go map is an association list with distinct keys (written with \<open>AList.update\<close>, read
  with \<^const>\<open>map_of\<close>): the code ranges over maps only where the order does not matter,
  or sorts the keys.  A nil map is the empty list, since the code only ranges over it or
  takes its length before it is made.
\<close>

section \<open>Collections and type names\<close>

named_theorems merge_simps \<open>defining equations of CanMerge, Merge, Type and BytesLen\<close>
named_theorems buffer_simps \<open>defining equations of the pending buffer's operations\<close>
named_theorems atoms_simps \<open>what a segment carries, per channel\<close>

type_synonym bytes = string

abbreviation nl :: char where "nl \<equiv> CHR 0x0A"
abbreviation cr :: char where "cr \<equiv> CHR 0x0D"

section \<open>Go's signed 64-bit integers\<close>

definition wrap64 :: "int \<Rightarrow> int" where
  "wrap64 x = signed_take_bit 63 x"

abbreviation int64_range :: "int \<Rightarrow> bool" where
  "int64_range x \<equiv> - (2 ^ 63) \<le> x \<and> x < 2 ^ 63"

lemma wrap64_id [simp]: "int64_range x \<Longrightarrow> wrap64 x = x"
  unfolding wrap64_def by (rule signed_take_bit_int_eq_self) auto

lemma wrap64_range: "int64_range (wrap64 x)"
  using signed_take_bit_int_greater_eq_minus_exp [of 63 x] signed_take_bit_int_less_exp [of 63 x]
  by (simp add: wrap64_def)

section \<open>Lists\<close>

lemma last_butlast_split: "xs \<noteq> [] \<Longrightarrow> xs = butlast xs @ [last xs]"
  by simp

lemma butlast_append_last:
  "xs \<noteq> [] \<Longrightarrow> concat (map f (butlast xs)) @ f (last xs) = concat (map f xs)"
  by (induction xs) auto

lemma sum_list_butlast_last:
  "xs \<noteq> [] \<Longrightarrow> sum_list (map f (butlast xs)) + f (last xs) = sum_list (map (f :: _ \<Rightarrow> int) xs)"
  by (induction xs) auto

lemma remdups_adj_append_dup:
  "xs \<noteq> [] \<Longrightarrow> last xs = y \<Longrightarrow> remdups_adj (xs @ y # ys) = remdups_adj (xs @ ys)"
proof (induction xs)
  case Nil
  then show ?case by simp
next
  case (Cons x xs)
  show ?case
  proof (cases xs)
    case Nil
    with Cons.prems show ?thesis by simp
  next
    case (Cons z zs)
    with Cons.prems have "last xs = y" by simp
    with Cons.IH Cons have "remdups_adj (xs @ y # ys) = remdups_adj (xs @ ys)" by simp
    with Cons show ?thesis by (auto simp: remdups_adj_Cons split: list.splits)
  qed
qed

lemma concat_map_filter_append:
  "concat (map f (xs @ ys)) = concat (map f xs) @ concat (map f ys)"
  by simp

section \<open>Association lists\<close>

lemma map_of_update_same [simp]: "map_of (AList.update k v m) k = Some v"
  by (simp add: update_conv')

lemma map_of_update_other [simp]: "k' \<noteq> k \<Longrightarrow> map_of (AList.update k v m) k' = map_of m k'"
  by (simp add: update_conv')

definition put_all :: "('k \<times> 'v) list \<Rightarrow> ('k \<times> 'v) list \<Rightarrow> ('k \<times> 'v) list" where
  "put_all m kvs = fold (\<lambda>(k, v). AList.update k v) kvs m"

lemma put_all_Nil [simp]: "put_all m [] = m"
  by (simp add: put_all_def)

lemma put_all_Cons [simp]: "put_all m ((k, v) # kvs) = put_all (AList.update k v m) kvs"
  by (simp add: put_all_def)

lemma map_of_put_all:
  "distinct (map fst kvs) \<Longrightarrow> map_of (put_all m kvs) = map_of m ++ map_of kvs"
proof (induction kvs arbitrary: m)
  case Nil
  then show ?case by simp
next
  case (Cons kv kvs)
  obtain k v where kv: "kv = (k, v)" by (cases kv)
  from Cons.prems kv have "k \<notin> fst ` set kvs" by simp
  then have "map_of kvs k = None" by (simp add: map_of_eq_None_iff)
  with Cons kv show ?case by (auto simp: update_conv' map_add_def fun_eq_iff split: option.splits)
qed

lemma distinct_put_all:
  "distinct (map fst m) \<Longrightarrow> distinct (map fst (put_all m kvs))"
  by (induction kvs arbitrary: m) (auto simp: distinct_update)

lemma map_of_distinct_sum:
  assumes "distinct (map fst m)" and "map_of m k = Some v"
  shows "sum_list (map (\<lambda>(k', v'). f v') (AList.update k w m))
       = sum_list (map (\<lambda>(k', v'). (f :: _ \<Rightarrow> int) v') m) - f v + f w"
  using assms by (induction m) (auto split: if_splits)

lemma map_of_none_sum:
  "map_of m k = None \<Longrightarrow>
   sum_list (map (\<lambda>(k', v'). (f :: _ \<Rightarrow> int) v') (AList.update k w m))
   = sum_list (map (\<lambda>(k', v'). f v') m) + f w"
  by (induction m) (auto split: if_splits)

end
