(* ===== verification/Go_Utf8.thy ===== *)
theory Go_Utf8
  imports Prelude
begin

text \<open>
  The part of Go's \<open>unicode/utf8\<close> the program relies on, through \<open>encoding/json\<close> and
  \<open>bytes.TrimSpace\<close>: \<open>DecodeRune\<close> (an invalid byte decodes to U+FFFD with width 1) and
  \<open>EncodeRune\<close>, on lists of bytes.  The lemmas show that encoding inverts decoding on
  every sequence the decoder accepts.
\<close>

section \<open>Bytes as numbers\<close>

abbreviation byte :: "char \<Rightarrow> nat" where "byte c \<equiv> of_char c"
abbreviation chr :: "nat \<Rightarrow> char" where "chr n \<equiv> char_of n"

lemma byte_less [simp]: "byte c < 256"
  by (rule nat_of_char_less_256)

lemma byte_chr: "n < 256 \<Longrightarrow> byte (chr n) = n"
  by simp

lemma chr_byte_eq: "n = byte c \<Longrightarrow> chr n = c"
  by simp

definition in_range :: "nat \<Rightarrow> nat \<Rightarrow> char \<Rightarrow> bool" where
  "in_range lo hi c \<longleftrightarrow> lo \<le> byte c \<and> byte c \<le> hi"

abbreviation cont :: "char \<Rightarrow> bool" where "cont \<equiv> in_range 128 191"

text \<open>Appending the six payload bits of a continuation byte: \<open>r << 6 | b & 0x3F\<close>.\<close>

definition six :: "nat \<Rightarrow> nat \<Rightarrow> nat" where
  "six r b = r * 64 + b"

lemma six_div_mod:
  assumes "b < 64"
  shows "six a b div 64 = a" and "six a b mod 64 = b"
  using assms by (simp_all add: six_def)

definition rune_error :: nat where "rune_error = 65533"

section \<open>DecodeRune and EncodeRune\<close>

text \<open>The bounds of the second byte, by first byte (\<open>utf8.acceptRanges\<close>).\<close>

definition second3 :: "nat \<Rightarrow> char \<Rightarrow> bool" where
  "second3 b0 c = (if b0 = 224 then in_range 160 191 c
                   else if b0 = 237 then in_range 128 159 c else cont c)"

definition second4 :: "nat \<Rightarrow> char \<Rightarrow> bool" where
  "second4 b0 c = (if b0 = 240 then in_range 144 191 c
                   else if b0 = 244 then in_range 128 143 c else cont c)"

fun decode_rune :: "bytes \<Rightarrow> nat \<times> nat" where
  "decode_rune [] = (rune_error, 0)"
| "decode_rune (c # cs) =
     (let b0 = byte c in
      if b0 < 128 then (b0, 1)
      else if b0 < 194 then (rune_error, 1)
      else if b0 < 224 then
        (case cs of c1 # _ \<Rightarrow>
           if cont c1 then (six (b0 - 192) (byte c1 - 128), 2) else (rune_error, 1)
         | _ \<Rightarrow> (rune_error, 1))
      else if b0 < 240 then
        (case cs of c1 # c2 # _ \<Rightarrow>
           if second3 b0 c1 \<and> cont c2
           then (six (six (b0 - 224) (byte c1 - 128)) (byte c2 - 128), 3)
           else (rune_error, 1)
         | _ \<Rightarrow> (rune_error, 1))
      else if b0 < 245 then
        (case cs of c1 # c2 # c3 # _ \<Rightarrow>
           if second4 b0 c1 \<and> cont c2 \<and> cont c3
           then (six (six (six (b0 - 240) (byte c1 - 128)) (byte c2 - 128)) (byte c3 - 128), 4)
           else (rune_error, 1)
         | _ \<Rightarrow> (rune_error, 1))
      else (rune_error, 1))"

definition encode_rune :: "nat \<Rightarrow> bytes" where
  "encode_rune r =
     (if r < 128 then [chr r]
      else if r < 2048 then [chr (192 + r div 64), chr (128 + r mod 64)]
      else if (55296 \<le> r \<and> r < 57344) \<or> 1114111 < r then [chr 239, chr 191, chr 189]
      else if r < 65536 then
        [chr (224 + r div 4096), chr (128 + r div 64 mod 64), chr (128 + r mod 64)]
      else [chr (240 + r div 262144), chr (128 + r div 4096 mod 64),
            chr (128 + r div 64 mod 64), chr (128 + r mod 64)])"

text \<open>A rune that decoding accepted: anything but width 0, or width 1 outside ASCII.\<close>

definition good_rune :: "bytes \<Rightarrow> bool" where
  "good_rune s = (case s of [] \<Rightarrow> False | c # _ \<Rightarrow> byte c < 128 \<or> 1 < snd (decode_rune s))"

section \<open>Laws\<close>

lemma decode_rune_width: "s \<noteq> [] \<Longrightarrow> 1 \<le> snd (decode_rune s) \<and> snd (decode_rune s) \<le> length s"
  by (cases s) (auto simp: Let_def split: list.splits if_splits)

lemma decode_rune_ascii: "byte c < 128 \<Longrightarrow> decode_rune (c # cs) = (byte c, 1)"
  by simp

lemma contD: "cont c \<Longrightarrow> 128 \<le> byte c \<and> byte c - 128 < 64"
  by (auto simp: in_range_def)

lemma div_4096: "(r::nat) div 4096 = r div 64 div 64"
  by (simp add: div_mult2_eq [symmetric])

lemma div_262144: "(r::nat) div 262144 = r div 64 div 64 div 64"
  by (simp add: div_mult2_eq [symmetric])

text \<open>Encoding the bits of a rune, grouped by six: the three multi-byte widths.\<close>

lemma encode_2:
  assumes "2 \<le> a" "a < 32" "b < 64"
  shows "encode_rune (six a b) = [chr (192 + a), chr (128 + b)]"
proof -
  have "128 \<le> six a b" "six a b < 2048" using assms by (simp_all add: six_def)
  then show ?thesis using assms(3) by (simp add: encode_rune_def six_div_mod)
qed

lemma encode_3:
  assumes "2048 \<le> six (six a b) d" "six (six a b) d < 65536"
    and "\<not> (55296 \<le> six (six a b) d \<and> six (six a b) d < 57344)" "b < 64" "d < 64"
  shows "encode_rune (six (six a b) d) = [chr (224 + a), chr (128 + b), chr (128 + d)]"
  unfolding encode_rune_def div_4096 using assms by (auto simp: six_div_mod)

lemma encode_4:
  assumes "65536 \<le> six (six (six a b) d) e" "six (six (six a b) d) e \<le> 1114111"
    and "b < 64" "d < 64" "e < 64"
  shows "encode_rune (six (six (six a b) d) e)
       = [chr (240 + a), chr (128 + b), chr (128 + d), chr (128 + e)]"
  unfolding encode_rune_def div_4096 div_262144 using assms by (auto simp: six_div_mod)

text \<open>Encoding what was decoded gives the bytes back.\<close>

lemma encode_decode_1: "byte c < 128 \<Longrightarrow> encode_rune (byte c) = [c]"
  by (simp add: encode_rune_def)

lemma encode_decode_2:
  assumes "\<not> byte c < 194" "byte c < 224" "cont c1"
  shows "encode_rune (six (byte c - 192) (byte c1 - 128)) = [c, c1]"
  using encode_2 [of "byte c - 192" "byte c1 - 128"] assms contD [OF assms(3)] by simp

lemma encode_decode_3:
  assumes c: "\<not> byte c < 224" "byte c < 240" and s: "second3 (byte c) c1" "cont c2"
  shows "encode_rune (six (six (byte c - 224) (byte c1 - 128)) (byte c2 - 128)) = [c, c1, c2]"
proof -
  define a b d where abd: "a = byte c - 224" "b = byte c1 - 128" "d = byte c2 - 128"
  have bd: "b < 64" "d < 64" "128 \<le> byte c1" "128 \<le> byte c2"
    using s by (auto simp: abd second3_def in_range_def split: if_splits)
  have lo: "1 \<le> a \<or> 32 \<le> b" and sur: "a \<noteq> 13 \<or> b < 32" and hi: "a < 16"
    using c s by (auto simp: abd second3_def in_range_def split: if_splits)
  have "\<not> (55296 \<le> six (six a b) d \<and> six (six a b) d < 57344)"
  proof (cases "a = 13")
    case False
    then have "a \<le> 12 \<or> 14 \<le> a" by linarith
    with bd show ?thesis by (auto simp: six_def)
  qed (use sur bd in \<open>auto simp: six_def\<close>)
  moreover have "2048 \<le> six (six a b) d" using lo by (auto simp: six_def)
  moreover have "six (six a b) d < 65536" using hi bd by (simp add: six_def)
  ultimately have "encode_rune (six (six a b) d) = [chr (224 + a), chr (128 + b), chr (128 + d)]"
    using bd by (intro encode_3)
  then show ?thesis using c bd by (simp add: abd)
qed

lemma encode_decode_4:
  assumes c: "\<not> byte c < 240" "byte c < 245" and s: "second4 (byte c) c1" "cont c2" "cont c3"
  shows "encode_rune (six (six (six (byte c - 240) (byte c1 - 128)) (byte c2 - 128)) (byte c3 - 128))
       = [c, c1, c2, c3]"
proof -
  define a b d e
    where abd: "a = byte c - 240" "b = byte c1 - 128" "d = byte c2 - 128" "e = byte c3 - 128"
  have bd: "b < 64" "d < 64" "e < 64" "128 \<le> byte c1" "128 \<le> byte c2" "128 \<le> byte c3"
    using s by (auto simp: abd second4_def in_range_def split: if_splits)
  have lo: "1 \<le> a \<or> 16 \<le> b" and hi: "a \<le> 3 \<or> a = 4 \<and> b < 16"
    using c s by (auto simp: abd second4_def in_range_def split: if_splits)
  have "65536 \<le> six (six (six a b) d) e" using lo by (auto simp: six_def)
  moreover have "six (six (six a b) d) e \<le> 1114111" using hi bd by (auto simp: six_def)
  ultimately have "encode_rune (six (six (six a b) d) e)
           = [chr (240 + a), chr (128 + b), chr (128 + d), chr (128 + e)]"
    using bd by (intro encode_4)
  then show ?thesis using c bd by (simp add: abd)
qed

lemma encode_decode:
  assumes "good_rune s"
  shows "encode_rune (fst (decode_rune s)) = take (snd (decode_rune s)) s"
proof (cases s)
  case Nil
  with assms show ?thesis by (simp add: good_rune_def)
next
  case (Cons c cs)
  show ?thesis
  proof (cases "byte c < 128")
    case True
    with Cons show ?thesis by (simp add: encode_decode_1)
  next
    case False
    then consider "byte c < 194" | "\<not> byte c < 194" "byte c < 224"
      | "\<not> byte c < 224" "byte c < 240" | "\<not> byte c < 240" "byte c < 245" | "\<not> byte c < 245"
      by linarith
    then show ?thesis
    proof cases
      case 2
      with assms Cons show ?thesis
        by (cases cs) (auto simp: Let_def good_rune_def encode_decode_2 split: if_splits)
    next
      case 3
      with assms Cons show ?thesis
        by (cases cs; cases "tl cs") (auto simp: Let_def good_rune_def encode_decode_3 split: if_splits)
    next
      case 4
      with assms Cons show ?thesis
        by (cases cs; cases "tl cs"; cases "tl (tl cs)")
          (auto simp: Let_def good_rune_def encode_decode_4 split: if_splits)
    qed (use assms Cons False in \<open>auto simp: good_rune_def\<close>)
  qed
qed

text \<open>Cutting a text short cuts its first rune short or leaves it.\<close>

lemma decode_rune_take:
  assumes "0 < k"
  shows "decode_rune (take k s) = decode_rune s \<or> fst (decode_rune (take k s)) = rune_error"
proof (cases s)
  case (Cons c cs)
  obtain j where k: "k = Suc j"
    using assms by (cases k) auto
  have cs: "cs = [] \<or> (\<exists>x. cs = [x]) \<or> (\<exists>x y. cs = [x, y]) \<or> (\<exists>x y z zs. cs = x # y # z # zs)"
    by (metis neq_Nil_conv)
  have j: "j = 0 \<or> j = Suc 0 \<or> j = Suc (Suc 0) \<or> (\<exists>i. j = Suc (Suc (Suc i)))"
    by (metis not0_implies_Suc)
  show ?thesis
    unfolding Cons k using cs j by (elim disjE exE) (simp_all add: Let_def)
qed simp

end
