(* ===== verification/Go_Bytes.thy ===== *)
theory Go_Bytes
  imports Go_Utf8
begin

text \<open>
  The functions of Go's \<open>bytes\<close> and \<open>strings\<close> packages that the program calls: prefix and
  suffix tests, \<open>IndexByte\<close>, \<open>Split\<close> on one byte, \<open>Join\<close>, \<open>TrimSpace\<close> (which trims the
  Unicode white space, so it decodes runes at both ends) and decimal numbers.
\<close>

section \<open>Prefixes, suffixes, search\<close>

definition has_prefix :: "bytes \<Rightarrow> bytes \<Rightarrow> bool" where
  "has_prefix s p \<longleftrightarrow> take (length p) s = p"

definition has_suffix :: "bytes \<Rightarrow> bytes \<Rightarrow> bool" where
  "has_suffix s p \<longleftrightarrow> length p \<le> length s \<and> drop (length s - length p) s = p"

lemma has_prefix_append [simp]: "has_prefix (p @ s) p"
  by (simp add: has_prefix_def)

lemma has_prefixE: "has_prefix s p \<Longrightarrow> \<exists>t. s = p @ t"
  unfolding has_prefix_def by (metis append_take_drop_id)

lemma has_suffix_append [simp]: "has_suffix (s @ p) p"
  by (simp add: has_suffix_def)

fun index_byte :: "bytes \<Rightarrow> char \<Rightarrow> nat option" where
  "index_byte [] c = None"
| "index_byte (x # xs) c = (if x = c then Some 0 else map_option Suc (index_byte xs c))"

lemma index_byte_None: "index_byte s c = None \<longleftrightarrow> c \<notin> set s"
  by (induction s) auto

lemma index_byte_append [simp]: "c \<notin> set s \<Longrightarrow> index_byte (s @ c # t) c = Some (length s)"
  by (induction s) auto

lemma index_byte_Some:
  "index_byte s c = Some i \<Longrightarrow> s = take i s @ c # drop (Suc i) s \<and> c \<notin> set (take i s) \<and> i < length s"
  by (induction s arbitrary: i) (auto split: if_splits)

section \<open>Splitting and joining\<close>

fun split_on :: "char \<Rightarrow> bytes \<Rightarrow> bytes list" where
  "split_on c [] = [[]]"
| "split_on c (x # xs) =
     (if x = c then [] # split_on c xs
      else (case split_on c xs of [] \<Rightarrow> [[x]] | p # ps \<Rightarrow> (x # p) # ps))"

fun join :: "bytes \<Rightarrow> bytes list \<Rightarrow> bytes" where
  "join sep [] = []"
| "join sep [p] = p"
| "join sep (p # ps) = p @ sep @ join sep ps"

lemma split_on_nonempty [simp]: "split_on c s \<noteq> []"
  by (induction s) (auto split: list.splits)

lemma join_Cons: "ps \<noteq> [] \<Longrightarrow> join sep (p # ps) = p @ sep @ join sep ps"
  by (cases ps) auto

lemma join_split_on: "join [c] (split_on c s) = s"
proof (induction s)
  case Nil
  then show ?case by simp
next
  case (Cons x xs)
  show ?case
  proof (cases "x = c")
    case True
    with Cons show ?thesis by (simp add: join_Cons)
  next
    case False
    obtain p ps where pp: "split_on c xs = p # ps" by (cases "split_on c xs") auto
    with Cons have "join [c] (p # ps) = xs" by simp
    then have "join [c] ((x # p) # ps) = x # xs" by (cases ps) auto
    with False pp show ?thesis by simp
  qed
qed

lemma split_on_no_sep: "p \<in> set (split_on c s) \<Longrightarrow> c \<notin> set p"
  by (induction s arbitrary: p) (auto split: list.splits if_splits)

lemma split_on_fresh: "c \<notin> set s \<Longrightarrow> split_on c s = [s]"
  by (induction s) auto

lemma split_on_append: "c \<notin> set s \<Longrightarrow> split_on c (s @ c # t) = s # split_on c t"
  by (induction s) auto

lemma set_split_on: "p \<in> set (split_on c s) \<Longrightarrow> set p \<subseteq> set s"
proof (induction s arbitrary: p)
  case (Cons x xs)
  then show ?case by (cases "split_on c xs") (fastforce split: if_splits)+
qed simp

section \<open>TrimSpace\<close>

definition ascii_space :: "char \<Rightarrow> bool" where
  "ascii_space c \<longleftrightarrow> byte c = 32 \<or> (9 \<le> byte c \<and> byte c \<le> 13)"

definition space_rune :: "nat \<Rightarrow> bool" where
  "space_rune r \<longleftrightarrow> r = 32 \<or> (9 \<le> r \<and> r \<le> 13) \<or> r = 133 \<or> r = 160 \<or> r = 5760
     \<or> (8192 \<le> r \<and> r \<le> 8202) \<or> r = 8232 \<or> r = 8233 \<or> r = 8239 \<or> r = 8287 \<or> r = 12288"

text \<open>
  The width of the white-space rune at the front, 0 for none; and at the back, where
  \<open>DecodeLastRune\<close> finds the start of the last rune at most three bytes before the last byte.
\<close>

definition front_space :: "bytes \<Rightarrow> nat" where
  "front_space s = (case s of [] \<Rightarrow> 0
     | c # _ \<Rightarrow> if byte c < 128 then (if ascii_space c then 1 else 0)
               else (let (r, n) = decode_rune s in if space_rune r then n else 0))"

definition back_space :: "bytes \<Rightarrow> nat" where
  "back_space s =
     (if s = [] then 0
      else if byte (last s) < 128 then (if ascii_space (last s) then 1 else 0)
      else (let ends_at = (\<lambda>k. k \<le> length s \<and> snd (decode_rune (drop (length s - k) s)) = k
                              \<and> space_rune (fst (decode_rune (drop (length s - k) s))))
            in if ends_at 2 then 2 else if ends_at 3 then 3 else 0))"

lemma front_space_le: "front_space s \<le> length s"
  using decode_rune_width [of s] by (auto simp: front_space_def Let_def split: list.splits prod.splits)

lemma back_space_le: "back_space s \<le> length s"
  by (auto simp: back_space_def Let_def neq_Nil_conv)

function trim_left :: "bytes \<Rightarrow> bytes" where
  "trim_left s = (if front_space s = 0 then s else trim_left (drop (front_space s) s))"
  by pat_completeness auto
termination
proof (relation "measure length")
  fix s assume "front_space s \<noteq> 0"
  then show "(drop (front_space s) s, s) \<in> measure length"
    using front_space_le [of s] by simp
qed simp

function trim_right :: "bytes \<Rightarrow> bytes" where
  "trim_right s = (if back_space s = 0 then s else trim_right (take (length s - back_space s) s))"
  by pat_completeness auto
termination
proof (relation "measure length")
  fix s assume "back_space s \<noteq> 0"
  then show "(take (length s - back_space s) s, s) \<in> measure length"
    using back_space_le [of s] by simp
qed simp

declare trim_left.simps [simp del] trim_right.simps [simp del]

definition trim_space :: "bytes \<Rightarrow> bytes" where
  "trim_space s = trim_right (trim_left s)"

text \<open>Data that begins and ends with a non-space ASCII byte is left alone.\<close>

lemma trim_left_id:
  assumes "s \<noteq> []" "byte (hd s) < 128" "\<not> ascii_space (hd s)"
  shows "trim_left s = s"
  by (subst trim_left.simps) (use assms in \<open>auto simp: front_space_def split: list.splits\<close>)

lemma trim_right_id:
  assumes "s \<noteq> []" "byte (last s) < 128" "\<not> ascii_space (last s)"
  shows "trim_right s = s"
  by (subst trim_right.simps) (use assms in \<open>auto simp: back_space_def\<close>)

lemma trim_space_id:
  assumes "s \<noteq> []" "byte (hd s) < 128" "\<not> ascii_space (hd s)"
    and "byte (last s) < 128" "\<not> ascii_space (last s)"
  shows "trim_space s = s"
  using assms by (simp add: trim_space_def trim_left_id trim_right_id)

lemma trim_space_Nil [simp]: "trim_space [] = []"
  by (simp add: trim_space_def trim_left.simps trim_right.simps front_space_def back_space_def)

section \<open>Decimal numbers\<close>

definition digit_char :: "nat \<Rightarrow> char" where "digit_char d = chr (48 + d)"
definition is_digit :: "char \<Rightarrow> bool" where "is_digit c \<longleftrightarrow> 48 \<le> byte c \<and> byte c \<le> 57"
definition digit_val :: "char \<Rightarrow> nat" where "digit_val c = byte c - 48"

fun nat_digits :: "nat \<Rightarrow> bytes" where
  "nat_digits n = (if n < 10 then [digit_char n] else nat_digits (n div 10) @ [digit_char (n mod 10)])"

declare nat_digits.simps [simp del]

definition digits_val :: "bytes \<Rightarrow> nat" where
  "digits_val s = foldl (\<lambda>acc c. acc * 10 + digit_val c) 0 s"

definition int_digits :: "int \<Rightarrow> bytes" where
  "int_digits i = (if i < 0 then CHR ''-'' # nat_digits (nat (- i)) else nat_digits (nat i))"

lemma digit_char_val: "d < 10 \<Longrightarrow> is_digit (digit_char d) \<and> digit_val (digit_char d) = d"
  by (simp add: digit_char_def is_digit_def digit_val_def)

lemma digits_val_snoc: "digits_val (s @ [c]) = digits_val s * 10 + digit_val c"
  by (simp add: digits_val_def)

lemma nat_digits_ok: "list_all is_digit (nat_digits n) \<and> digits_val (nat_digits n) = n \<and> nat_digits n \<noteq> []"
proof (induction n rule: nat_digits.induct)
  case (1 n)
  show ?case
  proof (cases "n < 10")
    case True
    then show ?thesis
      by (subst (1 2 3) nat_digits.simps) (auto simp: digits_val_def digit_char_val)
  next
    case False
    with 1 have "list_all is_digit (nat_digits (n div 10))" "digits_val (nat_digits (n div 10)) = n div 10"
      by auto
    moreover have "n mod 10 < 10" by simp
    ultimately show ?thesis
      using False digit_char_val [of "n mod 10"]
      by (subst (1 2 3) nat_digits.simps) (auto simp: digits_val_snoc)
  qed
qed

lemma nat_digits_hd: "0 < n \<Longrightarrow> hd (nat_digits n) \<noteq> CHR ''0''"
proof (induction n rule: nat_digits.induct)
  case (1 n)
  show ?case
  proof (cases "n < 10")
    case True
    then have "hd (nat_digits n) = digit_char n" by (subst nat_digits.simps) simp
    moreover have "byte (digit_char n) = 48 + n" using True by (simp add: digit_char_def)
    ultimately show ?thesis using \<open>0 < n\<close> by auto
  next
    case False
    then have "hd (nat_digits n) = hd (nat_digits (n div 10))"
      using nat_digits_ok [of "n div 10"] by (subst nat_digits.simps) simp
    with 1 False show ?thesis by simp
  qed
qed

text \<open>Trimming twice is trimming once, also on bytes that are no UTF-8.\<close>

lemma front_space_take: "front_space s = 0 \<Longrightarrow> front_space (take k s) = 0"
proof (cases s)
  case (Cons c cs)
  assume "front_space s = 0"
  moreover have "\<not> space_rune rune_error"
    by (simp add: space_rune_def rune_error_def)
  moreover have "take k s = [] \<or> (\<exists>j. take k s = c # take j cs \<and> 0 < k)"
    unfolding Cons by (cases k) auto
  ultimately show ?thesis
    using decode_rune_take [of k s] unfolding Cons front_space_def
    by (auto simp: Let_def split: prod.splits if_splits)
qed simp

lemma trim_left_front: "front_space (trim_left s) = 0"
  by (induction s rule: trim_left.induct) (metis trim_left.simps)

lemma trim_right_prefix: "\<exists>k. trim_right s = take k s"
proof (induction s rule: trim_right.induct)
  case (1 s)
  show ?case
  proof (cases "back_space s = 0")
    case True
    then show ?thesis
      by (intro exI [of _ "length s"]) (simp add: trim_right.simps [of s])
  next
    case False
    with 1 trim_right.simps [of s] show ?thesis
      by (metis take_take)
  qed
qed

lemma trim_right_back: "back_space (trim_right s) = 0"
  by (induction s rule: trim_right.induct) (metis trim_right.simps)

lemma trim_space_idem: "trim_space (trim_space s) = trim_space s"
proof -
  obtain k where "trim_space s = take k (trim_left s)"
    using trim_right_prefix by (auto simp: trim_space_def)
  then have "front_space (trim_space s) = 0" "back_space (trim_space s) = 0"
    using front_space_take [OF trim_left_front] trim_right_back by (simp, metis trim_space_def)
  then show ?thesis
    by (simp add: trim_space_def [of "trim_space s"] trim_left.simps [of "trim_space s"] trim_right.simps [of "trim_space s"])
qed

end
