(* ===== verification/Go_Float.thy ===== *)
theory Go_Float
  imports Go_Bytes
begin

text \<open>
  Go's \<open>float64\<close>, exactly: a finite value is a sign, a significand below \<open>2^53\<close> and an exponent
  of two; the operations the program uses (conversion from int64, division, \<open>ParseFloat\<close>,
  comparison, conversion to int64, the shortest decimal) round correctly to nearest, ties to even.
\<close>

datatype float64 = F64 bool nat int | FInf bool | FNaN

fun bit_len :: "nat \<Rightarrow> nat" where
  "bit_len n = (if n = 0 then 0 else Suc (bit_len (n div 2)))"

declare bit_len.simps [simp del]

definition scale_num :: "nat \<Rightarrow> int \<Rightarrow> nat" where
  "scale_num n e = (if 0 \<le> e then n * 2 ^ nat e else n)"

text \<open>The floor of the binary logarithm of \<open>num / den\<close>.\<close>

definition flog2 :: "nat \<Rightarrow> nat \<Rightarrow> int" where
  "flog2 num den =
     (let k = int (bit_len num) - int (bit_len den)
      in if scale_num num (- k) < scale_num den k then k - 1 else k)"

definition round_div :: "nat \<Rightarrow> nat \<Rightarrow> nat" where
  "round_div n d =
     (let q = n div d; r = n mod d
      in if d < 2 * r \<or> (2 * r = d \<and> odd q) then q + 1 else q)"

text \<open>The float64 nearest to \<open>num / den\<close> (\<open>0 < den\<close>), with the given sign.\<close>

definition round_ratio :: "bool \<Rightarrow> nat \<Rightarrow> nat \<Rightarrow> float64" where
  "round_ratio neg num den =
     (if num = 0 then F64 neg 0 0
      else let e = max (-1074) (flog2 num den - 52);
               q = round_div (scale_num num (- e)) (scale_num den e);
               (m, e') = (if q = 2 ^ 53 then (2 ^ 52, e + 1) else (q, e))
           in if m = 0 then F64 neg 0 0 else if 971 < e' then FInf neg else F64 neg m e')"

definition f64_zero :: float64 where "f64_zero = F64 False 0 0"
definition f64_one :: float64 where "f64_one = F64 False (2 ^ 52) (-52)"

definition f64_of_int :: "int \<Rightarrow> float64" where
  "f64_of_int i = round_ratio (i < 0) (nat \<bar>i\<bar>) 1"

text \<open>Numerator and denominator of the magnitude of a finite value.\<close>

definition f64_num :: "nat \<Rightarrow> int \<Rightarrow> nat" where "f64_num m e = scale_num m e"
definition f64_den :: "int \<Rightarrow> nat" where "f64_den e = scale_num 1 (- e)"

text \<open>Division of finite values by a value that is not zero, which is all the program does.\<close>

fun f64_div :: "float64 \<Rightarrow> float64 \<Rightarrow> float64" where
  "f64_div (F64 s m e) (F64 t n f) =
     (if n = 0 then (if m = 0 then FNaN else FInf (s \<noteq> t))
      else round_ratio (s \<noteq> t) (f64_num m e * f64_den f) (f64_den e * f64_num n f))"
| "f64_div (F64 s m e) (FInf t) = F64 (s \<noteq> t) 0 0"
| "f64_div (FInf s) (F64 t n f) = FInf (s \<noteq> t)"
| "f64_div _ _ = FNaN"

definition signed_num :: "bool \<Rightarrow> nat \<Rightarrow> int \<Rightarrow> int \<Rightarrow> int" where
  "signed_num s m e f = (if s then -1 else 1) * int (f64_num m e * f64_den f)"

fun f64_less :: "float64 \<Rightarrow> float64 \<Rightarrow> bool" where
  "f64_less (F64 s m e) (F64 t n f) \<longleftrightarrow> signed_num s m e f < signed_num t n f e"
| "f64_less (F64 _ _ _) (FInf t) \<longleftrightarrow> \<not> t"
| "f64_less (FInf s) (F64 _ _ _) \<longleftrightarrow> s"
| "f64_less (FInf s) (FInf t) \<longleftrightarrow> s \<and> \<not> t"
| "f64_less _ _ \<longleftrightarrow> False"

fun f64_eq :: "float64 \<Rightarrow> float64 \<Rightarrow> bool" where
  "f64_eq (F64 s m e) (F64 t n f) \<longleftrightarrow> signed_num s m e f = signed_num t n f e"
| "f64_eq (FInf s) (FInf t) \<longleftrightarrow> s = t"
| "f64_eq _ _ \<longleftrightarrow> False"

definition f64_le :: "float64 \<Rightarrow> float64 \<Rightarrow> bool" where
  "f64_le x y \<longleftrightarrow> f64_less x y \<or> f64_eq x y"

text \<open>
  \<open>int64(f)\<close> truncates towards zero; for a value outside the range of int64 the language
  leaves the result to the implementation, and amd64 gives the smallest int64.
\<close>

fun int64_of_f64 :: "float64 \<Rightarrow> int" where
  "int64_of_f64 (F64 s m e) =
     (let t = int (f64_num m e div f64_den e); v = (if s then - t else t)
      in if int64_range v then v else - (2 ^ 63))"
| "int64_of_f64 _ = - (2 ^ 63)"

section \<open>Decimal notation\<close>

text \<open>A decimal literal \<open>digits \<times> 10^exp\<close>, correctly rounded.\<close>

definition f64_of_decimal :: "bool \<Rightarrow> nat \<Rightarrow> int \<Rightarrow> float64" where
  "f64_of_decimal neg digits exp =
     (if 0 \<le> exp then round_ratio neg (digits * 10 ^ nat exp) 1
      else round_ratio neg digits (10 ^ nat (- exp)))"

text \<open>
  The shortest decimal that rounds to the value (\<open>strconv\<close> with precision -1): the least number of
  digits for which rounding down or up gives a decimal that parses back, the nearer of the two when
  both do.  The exact value of a finite float64 has fewer than 800 decimal digits, so the search with
  fuel 800 ends.  \<open>dec_exp\<close> is the exponent \<open>p\<close> with \<open>10^p \<le> num/den < 10^(p+1)\<close>.
\<close>

fun dec_up :: "nat \<Rightarrow> nat \<Rightarrow> nat \<Rightarrow> int \<Rightarrow> int" where
  "dec_up 0 num den p = p"
| "dec_up (Suc k) num den p = (if 10 * den \<le> num then dec_up k num (10 * den) (p + 1) else p)"

fun dec_down :: "nat \<Rightarrow> nat \<Rightarrow> nat \<Rightarrow> int \<Rightarrow> int" where
  "dec_down 0 num den p = p"
| "dec_down (Suc k) num den p = (if num < den then dec_down k (10 * num) den (p - 1) else p)"

definition dec_exp :: "nat \<Rightarrow> nat \<Rightarrow> int" where
  "dec_exp num den = (if den \<le> num then dec_up 400 num den 0 else dec_down 400 num den 0)"

definition dec_scale :: "nat \<Rightarrow> int \<Rightarrow> nat" where
  "dec_scale n k = (if 0 \<le> k then n * 10 ^ nat k else n)"

text \<open>Tries \<open>k\<close> digits, then more: (digits, exponent of the last digit).\<close>

fun shortest :: "nat \<Rightarrow> nat \<Rightarrow> float64 \<Rightarrow> nat \<Rightarrow> nat \<Rightarrow> int \<Rightarrow> nat \<times> int" where
  "shortest 0 k x num den p = (0, 0)"
| "shortest (Suc fuel) k x num den p =
     (let e = p - int k + 1;
          n = dec_scale num (- e); d = dec_scale den e;
          lo = n div d; hi = lo + 1;
          ok_lo = (f64_of_decimal False lo e = x); ok_hi = (f64_of_decimal False hi e = x);
          near = round_div n d
      in if ok_lo \<and> ok_hi then (near, e)
         else if ok_lo then (lo, e)
         else if ok_hi then (hi, e)
         else shortest fuel (k + 1) x num den p)"

fun strip_zeros :: "nat \<Rightarrow> nat \<Rightarrow> int \<Rightarrow> nat \<times> int" where
  "strip_zeros 0 d e = (d, e)"
| "strip_zeros (Suc k) d e = (if d \<noteq> 0 \<and> d mod 10 = 0 then strip_zeros k (d div 10) (e + 1) else (d, e))"

text \<open>Format \<open>f\<close> of \<open>d \<times> 10^e\<close>, and format \<open>e\<close> as \<open>encoding/json\<close> cleans it up (\<open>e-9\<close>, not \<open>e-09\<close>).\<close>

definition fmt_f :: "nat \<Rightarrow> int \<Rightarrow> bytes" where
  "fmt_f d e =
     (let ds = nat_digits d
      in if 0 \<le> e then ds @ replicate (nat e) (CHR ''0'')
         else let f = nat (- e)
              in if f < length ds
                 then take (length ds - f) ds @ CHR ''.'' # drop (length ds - f) ds
                 else ''0.'' @ replicate (f - length ds) (CHR ''0'') @ ds)"

definition fmt_e :: "nat \<Rightarrow> int \<Rightarrow> bytes" where
  "fmt_e d e =
     (let ds = nat_digits d; x = e + int (length ds) - 1;
          xs = nat_digits (nat \<bar>x\<bar>)
      in hd ds # (if length ds = 1 then [] else CHR ''.'' # tl ds)
         @ (if x < 0 then ''e-'' else ''e+'')
         @ (if length xs = 1 \<and> 0 \<le> x then CHR ''0'' # xs else xs))"

text \<open>\<open>encoding/json\<close>'s number format: \<open>f\<close>, or \<open>e\<close> below \<open>1e-6\<close> and from \<open>1e21\<close> on.\<close>

fun json_float :: "float64 \<Rightarrow> bytes" where
  "json_float (F64 s m e) =
     (if m = 0 then (if s then ''-0'' else ''0'')
      else let num = f64_num m e; den = f64_den e; p = dec_exp num den;
               (d0, e0) = shortest 800 1 (F64 False m e) num den p;
               (d, e') = strip_zeros 800 d0 e0
           in (if s then ''-'' else '''')
              @ (if f64_less (F64 False m e) (f64_of_decimal False 1 (-6))
                    \<or> f64_le (f64_of_decimal False 1 21) (F64 False m e)
                 then fmt_e d e' else fmt_f d e'))"
| "json_float _ = ''''"

end
