(* ===== verification/Go_Value.thy ===== *)
theory Go_Value
  imports Go_Float
begin

text \<open>
  The dynamic values of type \<open>interface{}\<close> that flow through the program: what
  \<open>json.Unmarshal\<close> stores in an \<open>interface{}\<close> (numbers are \<open>float64\<close>) and what the serializer
  hands to \<open>json.Marshal\<close> (Go integers too).  A \<open>map[string]interface{}\<close> is an association list
  with distinct keys.
\<close>

datatype goval =
    GNil
  | GBool bool
  | GFloat float64
  | GInt int
  | GStr bytes
  | GArr "goval list"
  | GObj "(bytes \<times> goval) list"

type_synonym gomap = "(bytes \<times> goval) list"

end
