(* ===== verification/Json_Text.thy ===== *)
theory Json_Text
  imports Go_Value
begin

text \<open>
  The reading half of Go's \<open>encoding/json\<close>: the scanner's grammar (strings, numbers, literals,
  arrays and objects nested at most 10000 deep) and the unquoting of strings.  A parsed value keeps
  the text of each element and member, since \<open>json.RawMessage\<close> receives exactly that text.
\<close>

section \<open>Strings\<close>

abbreviation quote :: char where "quote \<equiv> CHR 0x22"
abbreviation backslash :: char where "backslash \<equiv> CHR 0x5C"

definition hex_digit :: "char \<Rightarrow> nat option" where
  "hex_digit c =
     (let b = byte c
      in if 48 \<le> b \<and> b \<le> 57 then Some (b - 48)
         else if 97 \<le> b \<and> b \<le> 102 then Some (b - 87)
         else if 65 \<le> b \<and> b \<le> 70 then Some (b - 55)
         else None)"

definition hex4 :: "bytes \<Rightarrow> nat option" where
  "hex4 s =
     (case s of
        a # b # c # d # _ \<Rightarrow>
          (case (hex_digit a, hex_digit b, hex_digit c, hex_digit d) of
             (Some i, Some j, Some k, Some l) \<Rightarrow> Some (((i * 16 + j) * 16 + k) * 16 + l)
           | _ \<Rightarrow> None)
      | _ \<Rightarrow> None)"

text \<open>The character a one-letter escape stands for.\<close>

definition simple_escape :: "char \<Rightarrow> char option" where
  "simple_escape c =
     (if c = quote \<or> c = backslash \<or> c = CHR ''/'' then Some c
      else if c = CHR ''b'' then Some (chr 8)
      else if c = CHR ''f'' then Some (chr 12)
      else if c = CHR ''n'' then Some (chr 10)
      else if c = CHR ''r'' then Some (chr 13)
      else if c = CHR ''t'' then Some (chr 9)
      else None)"

text \<open>The body of a string up to its closing quote (after the opening one), and what follows.\<close>

fun scan_string :: "bytes \<Rightarrow> (bytes \<times> bytes) option" where
  "scan_string [] = None"
| "scan_string (c # s) =
     (if c = quote then Some ([], s)
      else if byte c < 32 then None
      else if c = backslash then
        (case s of
           [] \<Rightarrow> None
         | e # t \<Rightarrow>
             if simple_escape e \<noteq> None then map_option (\<lambda>(b, r). (c # e # b, r)) (scan_string t)
             else if e = CHR ''u'' \<and> hex4 t \<noteq> None
             then map_option (\<lambda>(b, r). (c # e # take 4 t @ b, r)) (scan_string (drop 4 t))
             else None)
      else map_option (\<lambda>(b, r). (c # b, r)) (scan_string s))"

definition is_surrogate :: "nat \<Rightarrow> bool" where
  "is_surrogate r \<longleftrightarrow> 55296 \<le> r \<and> r < 57344"

text \<open>\<open>utf16.DecodeRune\<close>: a high and a low surrogate make a rune, anything else does not.\<close>

definition surrogate_pair :: "nat \<Rightarrow> nat \<Rightarrow> nat option" where
  "surrogate_pair hi lo =
     (if 55296 \<le> hi \<and> hi < 56320 \<and> 56320 \<le> lo \<and> lo < 57344
      then Some ((hi - 55296) * 1024 + (lo - 56320) + 65536) else None)"

text \<open>\<open>getu4\<close> on a text that should begin with \<open>\u\<close> and four hexadecimal digits.\<close>

definition getu4 :: "bytes \<Rightarrow> nat option" where
  "getu4 s = (case s of a # b # t \<Rightarrow> if a = backslash \<and> b = CHR ''u'' then hex4 t else None | _ \<Rightarrow> None)"

function unquote :: "bytes \<Rightarrow> bytes" where
  "unquote s =
     (case s of
        [] \<Rightarrow> []
      | c # t \<Rightarrow>
          if c = backslash then
            (case t of
               [] \<Rightarrow> []
             | e # u \<Rightarrow>
                 (case simple_escape e of
                    Some x \<Rightarrow> x # unquote u
                  | None \<Rightarrow>
                      (case hex4 u of
                         None \<Rightarrow> []
                       | Some r \<Rightarrow>
                           let rest = drop 4 u
                           in if is_surrogate r
                              then (case Option.bind (getu4 rest) (surrogate_pair r) of
                                      Some r' \<Rightarrow> encode_rune r' @ unquote (drop 6 rest)
                                    | None \<Rightarrow> encode_rune rune_error @ unquote rest)
                              else encode_rune r @ unquote rest)))
          else if byte c < 128 then c # unquote t
          else encode_rune (fst (decode_rune s)) @ unquote (drop (snd (decode_rune s)) s))"
  by pat_completeness auto
termination
proof (relation "measure length")
  fix s :: bytes and c t
  assume "s = c # t"
  then show "(drop (snd (decode_rune s)) s, s) \<in> measure length"
    using decode_rune_width [of s] by simp
qed auto

declare unquote.simps [simp del]

section \<open>Numbers\<close>

definition digits_prefix :: "bytes \<Rightarrow> bytes" where
  "digits_prefix s = takeWhile is_digit s"

text \<open>The integer part: \<open>0\<close>, or digits that do not begin with \<open>0\<close>.\<close>

definition int_part :: "bytes \<Rightarrow> bytes" where
  "int_part s = (case s of c # _ \<Rightarrow> if c = CHR ''0'' then [c] else digits_prefix s | [] \<Rightarrow> [])"

text \<open>The fraction and the exponent: \<open>None\<close> where they begin and do not go on with a digit.\<close>

definition frac_part :: "bytes \<Rightarrow> bytes option" where
  "frac_part s =
     (case s of
        c # t \<Rightarrow> if c = CHR ''.'' then (if digits_prefix t = [] then None else Some (c # digits_prefix t)) else Some []
      | [] \<Rightarrow> Some [])"

definition exp_sign :: "bytes \<Rightarrow> bytes" where
  "exp_sign t = (case t of d # _ \<Rightarrow> if d = CHR ''+'' \<or> d = CHR ''-'' then [d] else [] | [] \<Rightarrow> [])"

definition exp_part :: "bytes \<Rightarrow> bytes option" where
  "exp_part s =
     (case s of
        c # t \<Rightarrow>
          if c = CHR ''e'' \<or> c = CHR ''E'' then
            (let ds = digits_prefix (drop (length (exp_sign t)) t)
             in if ds = [] then None else Some (c # exp_sign t @ ds))
          else Some []
      | [] \<Rightarrow> Some [])"

definition minus_sign :: "bytes \<Rightarrow> bytes" where
  "minus_sign s = (case s of c # _ \<Rightarrow> if c = CHR ''-'' then [c] else [] | [] \<Rightarrow> [])"

text \<open>The text of the number at the front.\<close>

definition scan_number :: "bytes \<Rightarrow> (bytes \<times> bytes) option" where
  "scan_number s =
     (let sign = minus_sign s;
          s1 = drop (length sign) s; i = int_part s1; s2 = drop (length i) s1
      in if i = [] then None
         else (case frac_part s2 of
                 None \<Rightarrow> None
               | Some f \<Rightarrow>
                   (let s3 = drop (length f) s2
                    in case exp_part s3 of
                         None \<Rightarrow> None
                       | Some e \<Rightarrow> Some (sign @ i @ f @ e, drop (length e) s3))))"

section \<open>Values\<close>

text \<open>Elements and members carry their text; members also their (unquoted) key.\<close>

datatype jval =
    JNull
  | JBool bool
  | JNum bytes
  | JStr bytes
  | JArr "(bytes \<times> jval) list"
  | JObj "(bytes \<times> bytes \<times> jval) list"

definition is_json_space :: "char \<Rightarrow> bool" where
  "is_json_space c \<longleftrightarrow> c = CHR '' '' \<or> c = CHR 0x09 \<or> c = CHR 0x0A \<or> c = CHR 0x0D"

definition skip_space :: "bytes \<Rightarrow> bytes" where
  "skip_space s = dropWhile is_json_space s"

text \<open>The part of \<open>s\<close> before its suffix \<open>rest\<close>.\<close>

definition before :: "bytes \<Rightarrow> bytes \<Rightarrow> bytes" where
  "before s rest = take (length s - length rest) s"

definition lit_null :: bytes where "lit_null = ''null''"
definition lit_true :: bytes where "lit_true = ''true''"
definition lit_false :: bytes where "lit_false = ''false''"

text \<open>
  \<open>parse_value\<close> at the first character of a value, \<open>parse_elems\<close> and \<open>parse_members\<close> behind an opening
  bracket or a comma.  \<open>depth\<close> counts how many more brackets may open.  The fuel falls with each call;
  \<open>json_parse\<close> gives twice the length of the text and more, and a call consumes a byte at least every
  other time, so it never runs out.
\<close>

fun parse_value :: "nat \<Rightarrow> nat \<Rightarrow> bytes \<Rightarrow> (jval \<times> bytes) option"
and parse_elems :: "nat \<Rightarrow> nat \<Rightarrow> bytes \<Rightarrow> ((bytes \<times> jval) list \<times> bytes) option"
and parse_members :: "nat \<Rightarrow> nat \<Rightarrow> bytes \<Rightarrow> ((bytes \<times> bytes \<times> jval) list \<times> bytes) option" where
  "parse_value 0 depth s = None"
| "parse_value (Suc n) depth s =
     (case s of
        [] \<Rightarrow> None
      | c # t \<Rightarrow>
          if c = quote then map_option (\<lambda>(b, r). (JStr (unquote b), r)) (scan_string t)
          else if c = CHR ''['' then
            (if depth = 0 then None
             else (case skip_space t of
                     [] \<Rightarrow> None
                   | d # r \<Rightarrow>
                       if d = CHR '']'' then Some (JArr [], r)
                       else map_option (\<lambda>(es, r). (JArr es, r)) (parse_elems n (depth - 1) (d # r))))
          else if c = CHR ''{'' then
            (if depth = 0 then None
             else (case skip_space t of
                     [] \<Rightarrow> None
                   | d # r \<Rightarrow>
                       if d = CHR ''}'' then Some (JObj [], r)
                       else map_option (\<lambda>(ms, r). (JObj ms, r)) (parse_members n (depth - 1) (d # r))))
          else if has_prefix s lit_null then Some (JNull, drop 4 s)
          else if has_prefix s lit_true then Some (JBool True, drop 4 s)
          else if has_prefix s lit_false then Some (JBool False, drop 5 s)
          else map_option (\<lambda>(b, r). (JNum b, r)) (scan_number s))"
| "parse_elems 0 depth s = None"
| "parse_elems (Suc n) depth s =
     (case parse_value n depth s of
        None \<Rightarrow> None
      | Some (v, r) \<Rightarrow>
          (case skip_space r of
             [] \<Rightarrow> None
           | d # r' \<Rightarrow>
               if d = CHR '','' then
                 map_option (\<lambda>(es, r''). ((before s r, v) # es, r'')) (parse_elems n depth (skip_space r'))
               else if d = CHR '']'' then Some ([(before s r, v)], r')
               else None))"
| "parse_members 0 depth s = None"
| "parse_members (Suc n) depth s =
     (case s of
        [] \<Rightarrow> None
      | c # t \<Rightarrow>
          if c \<noteq> quote then None
          else (case scan_string t of
                  None \<Rightarrow> None
                | Some (k, r) \<Rightarrow>
                    (case skip_space r of
                       [] \<Rightarrow> None
                     | d # r1 \<Rightarrow>
                         if d \<noteq> CHR '':'' then None
                         else (let s1 = skip_space r1
                               in case parse_value n depth s1 of
                                    None \<Rightarrow> None
                                  | Some (v, r2) \<Rightarrow>
                                      (case skip_space r2 of
                                         [] \<Rightarrow> None
                                       | d' # r3 \<Rightarrow>
                                           if d' = CHR '','' then
                                             map_option (\<lambda>(ms, r4). ((unquote k, before s1 r2, v) # ms, r4))
                                               (parse_members n depth (skip_space r3))
                                           else if d' = CHR ''}'' then Some ([(unquote k, before s1 r2, v)], r3)
                                           else None)))))"

text \<open>A whole text: white space, one value, white space.\<close>

definition json_parse :: "bytes \<Rightarrow> jval option" where
  "json_parse s =
     (let t = skip_space s
      in case parse_value (2 * length t + 2) 10000 t of
           None \<Rightarrow> None
         | Some (v, r) \<Rightarrow> if skip_space r = [] then Some v else None)"

end
