(* ===== verification/Types.thy ===== *)
theory Types
  imports Go_Value
begin

text \<open>
  \<open>pkg/semantic/types.go\<close>: event types, protocols, the JSON chunk structs the parser decodes into,
  and the metadata every segment carries.

  \<open>CommonMetadata.Extra\<close> is a Go map, so copying the struct copies a reference: all segments a
  parser made share the parser's one map with the parser itself.  The model makes the sharing
  explicit: \<open>md_Extra\<close> is an address (or nil) into a heap of maps.
\<close>

datatype event_type =
    EventUnknown | EventRole | EventReasoning | EventContent | EventToolCall
  | EventFinish | EventUsage | EventError | EventDone

datatype protocol = ProtocolAuto | ProtocolChatCompletions | ProtocolResponses

record function_call_delta =
  fd_Name :: bytes
  fd_Arguments :: bytes

record tool_call_delta =
  td_Index :: int
  td_ID :: bytes
  td_Type :: bytes
  td_Function :: "function_call_delta option"

text \<open>\<open>Delta\<close> is a \<open>json.RawMessage\<close>: the text of the value, empty when the key is absent.\<close>

record choice_chunk =
  cc_Index :: int
  cc_Delta :: bytes
  cc_FinishReason :: "bytes option"

record stream_chunk =
  sc_ID :: bytes
  sc_Object :: bytes
  sc_Created :: int
  sc_Model :: bytes
  sc_SystemFingerprint :: bytes
  sc_ServiceTier :: bytes
  sc_Choices :: "choice_chunk list"
  sc_Usage :: goval
  sc_Error :: goval
  sc_Extra :: gomap

section \<open>Maps behind references\<close>

type_synonym heap = "gomap list"

definition heap_get :: "heap \<Rightarrow> nat option \<Rightarrow> gomap" where
  "heap_get h r = (case r of None \<Rightarrow> [] | Some a \<Rightarrow> if a < length h then h ! a else [])"

definition heap_put :: "heap \<Rightarrow> nat \<Rightarrow> bytes \<Rightarrow> goval \<Rightarrow> heap" where
  "heap_put h a k v = h[a := AList.update k v (h ! a)]"

text \<open>\<open>if x == nil { x = make(map[string]interface{}) }\<close>: the address, made if there is none.\<close>

definition heap_make :: "heap \<Rightarrow> nat option \<Rightarrow> heap \<times> nat" where
  "heap_make h r = (case r of None \<Rightarrow> (h @ [[]], length h) | Some a \<Rightarrow> (h, a))"

record common_metadata =
  md_ID :: bytes
  md_Object :: bytes
  md_Created :: int
  md_Model :: bytes
  md_SystemFingerprint :: bytes
  md_ServiceTier :: bytes
  md_Extra :: "nat option"

definition meta_ok :: "heap \<Rightarrow> common_metadata \<Rightarrow> bool" where
  "meta_ok h m \<longleftrightarrow> (case md_Extra m of None \<Rightarrow> True | Some a \<Rightarrow> a < length h)"

text \<open>\<open>CommonMetadata.UpdateFrom\<close>: fields present in the chunk replace, extra keys are merged in place.\<close>

definition update_fields :: "common_metadata \<Rightarrow> stream_chunk \<Rightarrow> common_metadata" where
  "update_fields m c =
     (let m = (if sc_ID c \<noteq> [] then m\<lparr>md_ID := sc_ID c\<rparr> else m);
          m = (if sc_Object c \<noteq> [] then m\<lparr>md_Object := sc_Object c\<rparr> else m);
          m = (if sc_Created c \<noteq> 0 then m\<lparr>md_Created := sc_Created c\<rparr> else m);
          m = (if sc_Model c \<noteq> [] then m\<lparr>md_Model := sc_Model c\<rparr> else m);
          m = (if sc_SystemFingerprint c \<noteq> []
               then m\<lparr>md_SystemFingerprint := sc_SystemFingerprint c\<rparr> else m)
      in if sc_ServiceTier c \<noteq> [] then m\<lparr>md_ServiceTier := sc_ServiceTier c\<rparr> else m)"

definition UpdateFrom :: "heap \<Rightarrow> common_metadata \<Rightarrow> stream_chunk \<Rightarrow> heap \<times> common_metadata" where
  "UpdateFrom h m c =
     (let m = update_fields m c
      in if 0 < length (sc_Extra c)
         then (let (h, a) = heap_make h (md_Extra m)
               in (fold (\<lambda>(k, v) h. heap_put h a k v) (sc_Extra c) h, m\<lparr>md_Extra := Some a\<rparr>))
         else (h, m))"

section \<open>Laws of the heap\<close>

lemma length_heap_put [simp]: "length (heap_put h a k v) = length h"
  by (simp add: heap_put_def)

lemma heap_get_put [simp]:
  "a < length h \<Longrightarrow> heap_get (heap_put h a k v) (Some a) = AList.update k v (heap_get h (Some a))"
  by (simp add: heap_get_def heap_put_def)

lemma heap_get_put_other [simp]:
  "r \<noteq> Some a \<Longrightarrow> heap_get (heap_put h a k v) r = heap_get h r"
  by (auto simp: heap_get_def heap_put_def split: option.splits) (metis nth_list_update_neq)

lemma heap_make_ok:
  assumes "heap_make h r = (h', a)" and "case r of None \<Rightarrow> True | Some a \<Rightarrow> a < length h"
  shows "a < length h'" "heap_get h' (Some a) = heap_get h r" "length h \<le> length h'"
  using assms by (auto simp: heap_make_def heap_get_def split: option.splits)

lemma heap_fold_put:
  "a < length h \<Longrightarrow>
   heap_get (fold (\<lambda>(k, v) h. heap_put h a k v) kvs h) (Some a) = put_all (heap_get h (Some a)) kvs
   \<and> length (fold (\<lambda>(k, v) h. heap_put h a k v) kvs h) = length h"
  by (induction kvs arbitrary: h) (auto split: prod.splits)

lemma md_Extra_update_fields [simp]: "md_Extra (update_fields m c) = md_Extra m"
  by (simp add: update_fields_def Let_def)

text \<open>\<open>UpdateFrom\<close> extends the shared map by the chunk's extra keys, the chunk's values winning.\<close>

lemma UpdateFrom_extra:
  assumes "meta_ok h m" "UpdateFrom h m c = (h', m')"
  shows "heap_get h' (md_Extra m') = put_all (heap_get h (md_Extra m)) (sc_Extra c)" "meta_ok h' m'"
proof -
  obtain h1 a where ha: "heap_make h (md_Extra m) = (h1, a)" by fastforce
  have ok: "case md_Extra m of None \<Rightarrow> True | Some a \<Rightarrow> a < length h"
    using assms(1) by (simp add: meta_ok_def)
  note mk = heap_make_ok [OF ha ok]
  show "heap_get h' (md_Extra m') = put_all (heap_get h (md_Extra m)) (sc_Extra c)"
    using assms(2) mk heap_fold_put [OF mk(1), of "sc_Extra c"] ha
    by (auto simp: UpdateFrom_def Let_def split: if_splits)
  show "meta_ok h' m'"
    using assms mk heap_fold_put [OF mk(1), of "sc_Extra c"] ha
    by (auto simp: UpdateFrom_def Let_def meta_ok_def split: if_splits)
qed

end
