(* ===== verification/Json_Value.thy ===== *)
theory Json_Value
  imports Json_Text Types "HOL-Library.List_Lexorder" "HOL-Library.Char_ord"
begin

text \<open>
  \<open>json.Unmarshal\<close> into each type the program decodes, and \<open>json.Marshal\<close> of the values it encodes.
  An \<open>um_\<close> function is \<open>None\<close> where the call returns an error; where the program ignores the error, a
  \<open>stored_\<close> function is what the call has stored.  All targets are fresh zero values, so JSON \<open>null\<close>
  leaves the zero.
\<close>

section \<open>Numbers\<close>

text \<open>\<open>strconv.ParseInt(s, 10, 64)\<close> of the text of a JSON number: an optional minus and digits, in range.\<close>

definition parse_int64 :: "bytes \<Rightarrow> int option" where
  "parse_int64 s =
     (let neg = (case s of c # _ \<Rightarrow> c = CHR ''-'' | [] \<Rightarrow> False);
          ds = (if neg then tl s else s);
          v = (if neg then - int (digits_val ds) else int (digits_val ds))
      in if ds \<noteq> [] \<and> list_all is_digit ds \<and> int64_range v then Some v else None)"

text \<open>The same for any text, as for \<open>created\<close> given as a string: a plus sign is accepted too.\<close>

definition ParseInt :: "bytes \<Rightarrow> int option" where
  "ParseInt s = (case s of c # t \<Rightarrow> if c = CHR ''+'' then (case t of d # _ \<Rightarrow> if d = CHR ''-'' then None else parse_int64 t
                                     | [] \<Rightarrow> None) else parse_int64 s
                 | [] \<Rightarrow> None)"

text \<open>\<open>strconv.ParseFloat(s, 64)\<close> of the text of a JSON number; an overflow is an error.\<close>

definition parse_float64 :: "bytes \<Rightarrow> float64 option" where
  "parse_float64 s =
     (let neg = (case s of c # _ \<Rightarrow> c = CHR ''-'' | [] \<Rightarrow> False);
          s1 = (if neg then tl s else s);
          i = digits_prefix s1; s2 = drop (length i) s1;
          f = (case frac_part s2 of Some (_ # ds) \<Rightarrow> ds | _ \<Rightarrow> []);
          s3 = (if f = [] then s2 else drop (Suc (length f)) s2);
          e = (case s3 of
                 _ # t \<Rightarrow> (case t of d # ds \<Rightarrow> if d = CHR ''-'' then - int (digits_val ds)
                                      else if d = CHR ''+'' then int (digits_val ds) else int (digits_val t)
                         | [] \<Rightarrow> 0)
               | [] \<Rightarrow> 0);
          m = digits_val (i @ f)
      in if m = 0 then Some (F64 neg 0 0)
         else (let x = e - int (length f)
               in case f64_of_decimal neg m (max (min x 400) (- int (length (i @ f)) - 400)) of
                    F64 s m' e' \<Rightarrow> Some (F64 s m' e')
                  | _ \<Rightarrow> None))"

section \<open>Unmarshal into scalars\<close>

definition um_string :: "bytes \<Rightarrow> bytes option" where
  "um_string raw = (case json_parse raw of Some (JStr s) \<Rightarrow> Some s | Some JNull \<Rightarrow> Some [] | _ \<Rightarrow> None)"

definition um_int :: "bytes \<Rightarrow> int option" where
  "um_int raw = (case json_parse raw of Some (JNum t) \<Rightarrow> parse_int64 t | Some JNull \<Rightarrow> Some 0 | _ \<Rightarrow> None)"

definition um_float :: "bytes \<Rightarrow> float64 option" where
  "um_float raw = (case json_parse raw of Some (JNum t) \<Rightarrow> parse_float64 t | Some JNull \<Rightarrow> Some f64_zero | _ \<Rightarrow> None)"

text \<open>Into a \<open>*string\<close>: \<open>null\<close> is the nil pointer.\<close>

definition um_string_ptr :: "bytes \<Rightarrow> bytes option option" where
  "um_string_ptr raw =
     (case json_parse raw of Some (JStr s) \<Rightarrow> Some (Some s) | Some JNull \<Rightarrow> Some None | _ \<Rightarrow> None)"

section \<open>Unmarshal into interface{} and maps\<close>

text \<open>
  The value stored, with \<open>nil\<close> for a number that overflows float64, and whether the call succeeds: such
  a number makes it return an error, but only after everything has been stored.
\<close>

fun any_val :: "jval \<Rightarrow> goval" where
  "any_val JNull = GNil"
| "any_val (JBool b) = GBool b"
| "any_val (JNum t) = (case parse_float64 t of Some f \<Rightarrow> GFloat f | None \<Rightarrow> GNil)"
| "any_val (JStr s) = GStr s"
| "any_val (JArr es) = GArr (map (\<lambda>(raw, v). any_val v) es)"
| "any_val (JObj ms) = GObj (put_all [] (map (\<lambda>(k, raw, v). (k, any_val v)) ms))"

fun any_ok :: "jval \<Rightarrow> bool" where
  "any_ok (JNum t) \<longleftrightarrow> parse_float64 t \<noteq> None"
| "any_ok (JArr es) \<longleftrightarrow> list_all (\<lambda>(raw, v). any_ok v) es"
| "any_ok (JObj ms) \<longleftrightarrow> list_all (\<lambda>(k, raw, v). any_ok v) ms"
| "any_ok _ \<longleftrightarrow> True"

definition um_any :: "bytes \<Rightarrow> goval option" where
  "um_any raw = (case json_parse raw of Some v \<Rightarrow> if any_ok v then Some (any_val v) else None | None \<Rightarrow> None)"

text \<open>What is stored in a nil \<open>interface{}\<close> by a call whose error is ignored.\<close>

definition stored_any :: "bytes \<Rightarrow> goval" where
  "stored_any raw = (case json_parse raw of Some v \<Rightarrow> any_val v | None \<Rightarrow> GNil)"

definition um_map_any :: "bytes \<Rightarrow> gomap option" where
  "um_map_any raw =
     (case um_any raw of Some (GObj kvs) \<Rightarrow> Some kvs | Some GNil \<Rightarrow> Some [] | _ \<Rightarrow> None)"

text \<open>The same for a nil \<open>[]interface{}\<close>, where only an array stores something.\<close>

definition stored_slice :: "bytes \<Rightarrow> goval list option" where
  "stored_slice raw = (case stored_any raw of GArr vs \<Rightarrow> Some vs | _ \<Rightarrow> None)"

text \<open>Into \<open>map[string]json.RawMessage\<close>: of a repeated key the last member counts.\<close>

definition um_map_raw :: "bytes \<Rightarrow> (bytes \<times> bytes) list option" where
  "um_map_raw raw =
     (case json_parse raw of
        Some (JObj ms) \<Rightarrow> Some (put_all [] (map (\<lambda>(k, r, v). (k, r)) ms))
      | Some JNull \<Rightarrow> Some []
      | _ \<Rightarrow> None)"

section \<open>Unmarshal into structs\<close>

text \<open>
  Keys match field names up to case, by \<open>foldName\<close>: ASCII letters fold to upper case, and two
  characters beyond ASCII fold to letters, the long s (U+017F) and the Kelvin sign (U+212A).
\<close>

fun fold_name :: "bytes \<Rightarrow> bytes" where
  "fold_name [] = []"
| "fold_name (c # s) =
     (if 97 \<le> byte c \<and> byte c \<le> 122 then chr (byte c - 32) # fold_name s
      else if byte c = 197 \<and> s \<noteq> [] \<and> byte (hd s) = 191 then CHR ''S'' # fold_name (tl s)
      else if byte c = 226 \<and> 2 \<le> length s \<and> byte (hd s) = 132 \<and> byte (s ! 1) = 170
      then CHR ''K'' # fold_name (drop 2 s)
      else c # fold_name s)"

definition names :: "bytes \<Rightarrow> bytes \<Rightarrow> bool" where
  "names field key \<longleftrightarrow> fold_name key = fold_name field"

text \<open>Storing into one field: the new value, or an error that the decoder saves and goes on.\<close>

definition set_field :: "('a \<Rightarrow> 's \<Rightarrow> 's) \<Rightarrow> 'a option \<Rightarrow> 's \<times> bool \<Rightarrow> 's \<times> bool" where
  "set_field upd v s = (case v of Some x \<Rightarrow> (upd x (fst s), snd s) | None \<Rightarrow> (fst s, False))"

text \<open>\<open>null\<close> into a string or an int does nothing.\<close>

fun field_string :: "jval \<Rightarrow> bytes option option" where
  "field_string (JStr s) = Some (Some s)"
| "field_string JNull = Some None"
| "field_string _ = None"

fun field_int :: "jval \<Rightarrow> int option option" where
  "field_int (JNum t) = map_option Some (parse_int64 t)"
| "field_int JNull = Some None"
| "field_int _ = None"

definition keep_or :: "('a \<Rightarrow> 's \<Rightarrow> 's) \<Rightarrow> 'a option \<Rightarrow> 's \<Rightarrow> 's" where
  "keep_or upd v s = (case v of Some x \<Rightarrow> upd x s | None \<Rightarrow> s)"

text \<open>\<open>struct { Type string }\<close>, the probe for the Responses protocol.\<close>

definition probe_member :: "bytes \<times> bytes \<times> jval \<Rightarrow> bytes \<times> bool \<Rightarrow> bytes \<times> bool" where
  "probe_member m s = (case m of (k, raw, v) \<Rightarrow>
     if names ''type'' k then set_field (keep_or (\<lambda>x _. x)) (field_string v) s else s)"

definition um_probe :: "bytes \<Rightarrow> bytes option" where
  "um_probe raw =
     (case json_parse raw of
        Some (JObj ms) \<Rightarrow> (let (t, ok) = fold probe_member ms ([], True) in if ok then Some t else None)
      | Some JNull \<Rightarrow> Some []
      | _ \<Rightarrow> None)"

definition zero_choice :: choice_chunk where
  "zero_choice = \<lparr>cc_Index = 0, cc_Delta = [], cc_FinishReason = None\<rparr>"

definition choice_member :: "bytes \<times> bytes \<times> jval \<Rightarrow> choice_chunk \<times> bool \<Rightarrow> choice_chunk \<times> bool" where
  "choice_member m s = (case m of (k, raw, v) \<Rightarrow>
     if names ''index'' k then set_field (keep_or (\<lambda>x. cc_Index_update (\<lambda>_. x))) (field_int v) s
     else if names ''delta'' k then ((fst s)\<lparr>cc_Delta := raw\<rparr>, snd s)
     else if names ''finish_reason'' k
     then set_field (\<lambda>x. cc_FinishReason_update (\<lambda>_. x)) (field_string v) s
     else s)"

definition function_member ::
  "bytes \<times> bytes \<times> jval \<Rightarrow> function_call_delta \<times> bool \<Rightarrow> function_call_delta \<times> bool" where
  "function_member m s = (case m of (k, raw, v) \<Rightarrow>
     if names ''name'' k then set_field (keep_or (\<lambda>x. fd_Name_update (\<lambda>_. x))) (field_string v) s
     else if names ''arguments'' k then set_field (keep_or (\<lambda>x. fd_Arguments_update (\<lambda>_. x))) (field_string v) s
     else s)"

text \<open>The pointer field \<open>Function\<close>: \<open>null\<close> makes it nil, an object fills what it points to.\<close>

definition tool_function :: "jval \<Rightarrow> tool_call_delta \<times> bool \<Rightarrow> tool_call_delta \<times> bool" where
  "tool_function v s =
     (case v of
        JNull \<Rightarrow> ((fst s)\<lparr>td_Function := None\<rparr>, snd s)
      | JObj ms \<Rightarrow>
          (let f0 = (case td_Function (fst s) of None \<Rightarrow> \<lparr>fd_Name = [], fd_Arguments = []\<rparr> | Some f \<Rightarrow> f);
               (f, ok) = fold function_member ms (f0, snd s)
           in ((fst s)\<lparr>td_Function := Some f\<rparr>, ok))
      | _ \<Rightarrow> (fst s, False))"

definition zero_tool :: tool_call_delta where
  "zero_tool = \<lparr>td_Index = 0, td_ID = [], td_Type = [], td_Function = None\<rparr>"

definition tool_member :: "bytes \<times> bytes \<times> jval \<Rightarrow> tool_call_delta \<times> bool \<Rightarrow> tool_call_delta \<times> bool" where
  "tool_member m s = (case m of (k, raw, v) \<Rightarrow>
     if names ''index'' k then set_field (keep_or (\<lambda>x. td_Index_update (\<lambda>_. x))) (field_int v) s
     else if names ''id'' k then set_field (keep_or (\<lambda>x. td_ID_update (\<lambda>_. x))) (field_string v) s
     else if names ''type'' k then set_field (keep_or (\<lambda>x. td_Type_update (\<lambda>_. x))) (field_string v) s
     else if names ''function'' k then tool_function v s
     else s)"

text \<open>A slice of structs: every element an object, or \<open>null\<close> for the zero struct.\<close>

definition um_struct :: "('m \<Rightarrow> 's \<times> bool \<Rightarrow> 's \<times> bool) \<Rightarrow> 's \<Rightarrow> (jval \<Rightarrow> 'm list option) \<Rightarrow> jval \<Rightarrow> 's option" where
  "um_struct member zero members v =
     (if v = JNull then Some zero
      else (case members v of
              None \<Rightarrow> None
            | Some ms \<Rightarrow> (let (s, ok) = fold member ms (zero, True) in if ok then Some s else None)))"

fun members_of :: "jval \<Rightarrow> (bytes \<times> bytes \<times> jval) list option" where
  "members_of (JObj ms) = Some ms"
| "members_of _ = None"

definition um_structs ::
  "(bytes \<times> bytes \<times> jval \<Rightarrow> 's \<times> bool \<Rightarrow> 's \<times> bool) \<Rightarrow> 's \<Rightarrow> bytes \<Rightarrow> 's list option" where
  "um_structs member zero raw =
     (case json_parse raw of
        Some (JArr es) \<Rightarrow> those (map (\<lambda>(r, v). um_struct member zero members_of v) es)
      | Some JNull \<Rightarrow> Some []
      | _ \<Rightarrow> None)"

definition um_choices :: "bytes \<Rightarrow> choice_chunk list option" where
  "um_choices raw = um_structs choice_member zero_choice raw"

definition um_tool_calls :: "bytes \<Rightarrow> tool_call_delta list option" where
  "um_tool_calls raw = um_structs tool_member zero_tool raw"

section \<open>Marshal\<close>

definition hex_char :: "nat \<Rightarrow> char" where
  "hex_char n = (if n < 10 then chr (48 + n) else chr (87 + n))"

definition u_escape :: "nat \<Rightarrow> bytes" where
  "u_escape r = [backslash, CHR ''u'', hex_char (r div 4096 mod 16), hex_char (r div 256 mod 16),
     hex_char (r div 16 mod 16), hex_char (r mod 16)]"

text \<open>One ASCII character, with the escapes \<open>json.Marshal\<close> uses by default (HTML included).\<close>

definition escape_char :: "char \<Rightarrow> bytes" where
  "escape_char c =
     (if c = quote \<or> c = backslash then [backslash, c]
      else if byte c = 8 then [backslash, CHR ''b'']
      else if byte c = 12 then [backslash, CHR ''f'']
      else if byte c = 10 then [backslash, CHR ''n'']
      else if byte c = 13 then [backslash, CHR ''r'']
      else if byte c = 9 then [backslash, CHR ''t'']
      else if byte c < 32 \<or> c = CHR ''<'' \<or> c = CHR ''>'' \<or> c = CHR ''&'' then u_escape (byte c)
      else [c])"

text \<open>An invalid byte becomes the escape of U+FFFD; U+2028 and U+2029 are escaped too.\<close>

function escape_string :: "bytes \<Rightarrow> bytes" where
  "escape_string s =
     (case s of
        [] \<Rightarrow> []
      | c # t \<Rightarrow>
          if byte c < 128 then escape_char c @ escape_string t
          else (if \<not> good_rune s then u_escape rune_error
                else if fst (decode_rune s) = 8232 \<or> fst (decode_rune s) = 8233 then u_escape (fst (decode_rune s))
                else take (snd (decode_rune s)) s) @ escape_string (drop (snd (decode_rune s)) s))"
  by pat_completeness auto
termination
proof (relation "measure length")
  fix s :: bytes and c t
  assume "s = c # t"
  then show "(drop (snd (decode_rune s)) s, s) \<in> measure length"
    using decode_rune_width [of s] by simp
qed auto

declare escape_string.simps [simp del]

definition quote_string :: "bytes \<Rightarrow> bytes" where
  "quote_string s = quote # escape_string s @ [quote]"

definition member_text :: "bytes \<times> bytes \<Rightarrow> bytes" where
  "member_text m = quote_string (fst m) @ CHR '':'' # snd m"

definition array_text :: "bytes list \<Rightarrow> bytes" where
  "array_text es = CHR ''['' # join '','' es @ '']''"

text \<open>A map is written in the order of its keys.\<close>

definition object_text :: "(bytes \<times> bytes) list \<Rightarrow> bytes" where
  "object_text ms = CHR ''{'' # join '','' (map member_text (sort_key fst ms)) @ ''}''"

text \<open>\<open>None\<close> where \<open>Marshal\<close> fails: a float that is no number.\<close>

fun json_marshal :: "goval \<Rightarrow> bytes option" where
  "json_marshal GNil = Some lit_null"
| "json_marshal (GBool b) = Some (if b then lit_true else lit_false)"
| "json_marshal (GFloat x) = (case x of F64 s m e \<Rightarrow> Some (json_float x) | _ \<Rightarrow> None)"
| "json_marshal (GInt i) = Some (int_digits i)"
| "json_marshal (GStr s) = Some (quote_string s)"
| "json_marshal (GArr vs) = map_option array_text (those (map json_marshal vs))"
| "json_marshal (GObj kvs) =
     map_option object_text (those (map (\<lambda>(k, v). map_option (Pair k) (json_marshal v)) kvs))"

end
