(* ===== verification/Json_Laws.thy ===== *)
theory Json_Laws
  imports Json_Value
begin

text \<open>
  What reading undoes of writing: strings, integers, arrays and objects written by \<open>json.Marshal\<close> are
  read back by \<open>json.Unmarshal\<close>, with the text of every element and member as it was written.
\<close>

declare decode_rune.simps [simp del]

section \<open>Valid UTF-8\<close>

function valid_utf8 :: "bytes \<Rightarrow> bool" where
  "valid_utf8 s =
     (if s = [] then True
      else if good_rune s then valid_utf8 (drop (snd (decode_rune s)) s) else False)"
  by pat_completeness auto
termination
proof (relation "measure length")
  fix s :: bytes
  assume "s \<noteq> []"
  then show "(drop (snd (decode_rune s)) s, s) \<in> measure length"
    using decode_rune_width [of s] by simp
qed simp

declare valid_utf8.simps [simp del]

lemma good_rune_ascii [simp]: "byte c < 128 \<Longrightarrow> good_rune (c # s)"
  by (simp add: good_rune_def)

lemma decode_ascii [simp]: "byte c < 128 \<Longrightarrow> decode_rune (c # s) = (byte c, 1)"
  by (simp add: decode_rune.simps)

lemma valid_utf8_Nil [simp]: "valid_utf8 []"
  by (simp add: valid_utf8.simps)

lemma valid_utf8_ascii [simp]: "byte c < 128 \<Longrightarrow> valid_utf8 (c # s) = valid_utf8 s"
  by (subst valid_utf8.simps) simp

lemma good_rune_nonempty: "good_rune s \<Longrightarrow> s \<noteq> []"
  by (auto simp: good_rune_def)

lemma cont_high: "cont c \<Longrightarrow> 128 \<le> byte c" "second3 b c \<Longrightarrow> 128 \<le> byte c" "second4 b c \<Longrightarrow> 128 \<le> byte c"
  by (auto simp: in_range_def second3_def second4_def split: if_splits)

text \<open>A good rune beyond ASCII: its bytes, all of them high, and how it decodes before anything.\<close>

lemma good_rune_high:
  assumes "good_rune (c # s)" "128 \<le> byte c"
  obtains w where "decode_rune (c # s) = (fst (decode_rune (c # s)), w)" "2 \<le> w" "w \<le> length (c # s)"
    "\<forall>t. decode_rune (take w (c # s) @ t) = decode_rune (c # s)" "\<forall>x \<in> set (take w (c # s)). 128 \<le> byte x"
proof -
  have w1: "snd (decode_rune (c # s)) > 1" using assms by (simp add: good_rune_def)
  consider "byte c < 194" | "\<not> byte c < 194" "byte c < 224"
    | "\<not> byte c < 224" "byte c < 240" | "\<not> byte c < 240" "byte c < 245" | "\<not> byte c < 245"
    by linarith
  then show thesis
  proof cases
    case 2
    then obtain c1 s1 where s: "s = c1 # s1" "cont c1"
      using w1 assms(2) by (cases s) (auto simp: decode_rune.simps Let_def split: if_splits)
    with 2 assms(2) that [of 2] show thesis
      by (simp add: decode_rune.simps Let_def cont_high)
  next
    case 3
    then obtain c1 c2 s1 where s: "s = c1 # c2 # s1" "second3 (byte c) c1" "cont c2"
      using w1 assms(2)
      by (cases s; cases "tl s") (auto simp: decode_rune.simps Let_def split: if_splits)
    with 3 assms(2) that [of 3] show thesis
      by (simp add: decode_rune.simps Let_def cont_high)
  next
    case 4
    then obtain c1 c2 c3 s1 where s: "s = c1 # c2 # c3 # s1" "second4 (byte c) c1" "cont c2" "cont c3"
      using w1 assms(2)
      by (cases s; cases "tl s"; cases "tl (tl s)") (auto simp: decode_rune.simps Let_def split: if_splits)
    with 4 assms(2) that [of 4] show thesis
      by (simp add: decode_rune.simps Let_def cont_high)
  qed (use w1 assms(2) in \<open>simp_all add: decode_rune.simps Let_def\<close>)
qed

text \<open>The same for any nonempty text.\<close>

lemma good_rune_wide:
  assumes "good_rune s" "s = c # t" "\<not> byte c < 128"
  shows "2 \<le> snd (decode_rune s)" "snd (decode_rune s) \<le> length s"
    "decode_rune (take (snd (decode_rune s)) s @ x) = decode_rune s"
    "\<forall>y \<in> set (take (snd (decode_rune s)) s). 128 \<le> byte y"
proof -
  have g: "good_rune (c # t)" and h: "128 \<le> byte c" using assms by auto
  obtain w where w: "decode_rune (c # t) = (fst (decode_rune (c # t)), w)" "2 \<le> w" "w \<le> length (c # t)"
    "\<forall>x. decode_rune (take w (c # t) @ x) = decode_rune (c # t)" "\<forall>y \<in> set (take w (c # t)). 128 \<le> byte y"
    using g h by (rule good_rune_high)
  have "snd (decode_rune s) = w" unfolding assms(2) by (subst w(1)) simp
  with w(2-5) show "2 \<le> snd (decode_rune s)" "snd (decode_rune s) \<le> length s"
    "decode_rune (take (snd (decode_rune s)) s @ x) = decode_rune s"
    "\<forall>y \<in> set (take (snd (decode_rune s)) s). 128 \<le> byte y"
    by (simp_all add: assms(2))
qed

section \<open>Strings\<close>

lemma hex_digit_char [simp]: "n < 16 \<Longrightarrow> hex_digit (hex_char n) = Some n"
  by (auto simp: hex_digit_def hex_char_def Let_def)

lemma hex4_u_escape:
  assumes "r < 65536"
  shows "hex4 (hex_char (r div 4096 mod 16) # hex_char (r div 256 mod 16) # hex_char (r div 16 mod 16)
    # hex_char (r mod 16) # t) = Some r"
proof -
  have d: "r div 256 = r div 16 div 16" "r div 4096 = r div 16 div 16 div 16"
    by (simp_all add: div_mult2_eq [symmetric])
  have k: "r div 4096 mod 16 = r div 4096" using assms by simp
  have "((r div 4096 mod 16 * 16 + r div 256 mod 16) * 16 + r div 16 mod 16) * 16 + r mod 16 = r"
    unfolding k unfolding d by (simp only: div_mult_mod_eq)
  moreover have "r div 4096 < 16" using assms by simp
  ultimately show ?thesis by (simp add: hex4_def k)
qed

lemma scan_plain:
  "c \<noteq> quote \<Longrightarrow> 32 \<le> byte c \<Longrightarrow> c \<noteq> backslash \<Longrightarrow>
   scan_string (c # x) = map_option (\<lambda>(b, r). (c # b, r)) (scan_string x)"
  by simp

lemma map_option_case_pair:
  "map_option (\<lambda>(b, r). (f b, r)) (map_option (\<lambda>(b, r). (g b, r)) x) = map_option (\<lambda>(b, r). (f (g b), r)) x"
  by (cases x) auto

lemma scan_high:
  assumes "\<forall>c \<in> set p. 128 \<le> byte c"
  shows "scan_string (p @ x) = map_option (\<lambda>(b, r). (p @ b, r)) (scan_string x)"
  using assms
proof (induction p)
  case Nil
  show ?case by (cases "scan_string x") auto
next
  case (Cons c p)
  then have "c \<noteq> quote" "c \<noteq> backslash" "32 \<le> byte c" by auto
  with Cons show ?case by (simp add: scan_plain map_option_case_pair del: scan_string.simps)
qed

lemma scan_u_escape:
  assumes "r < 65536"
  shows "scan_string (u_escape r @ x) = map_option (\<lambda>(b, t). (u_escape r @ b, t)) (scan_string x)"
  using hex4_u_escape [OF assms, of x]
  by (simp add: u_escape_def simple_escape_def)

lemma simple_escapes [simp]:
  "simple_escape (CHR ''b'') = Some (chr 8)" "simple_escape (CHR ''f'') = Some (chr 12)"
  "simple_escape (CHR ''n'') = Some (chr 10)" "simple_escape (CHR ''r'') = Some (chr 13)"
  "simple_escape (CHR ''t'') = Some (chr 9)" "simple_escape quote = Some quote"
  "simple_escape backslash = Some backslash" "simple_escape (CHR ''u'') = None"
  by (simp_all add: simple_escape_def)

lemma escape_char_cases:
  obtains (hex) "escape_char c = u_escape (byte c)"
  | (simple) d where "escape_char c = [backslash, d]" "simple_escape d = Some c"
  | (plain) "escape_char c = [c]" "c \<noteq> quote" "c \<noteq> backslash" "32 \<le> byte c"
proof -
  have b: "byte c = n \<Longrightarrow> chr n = c" for n by auto
  consider "c = quote \<or> c = backslash" | "c \<noteq> quote" "c \<noteq> backslash" "byte c \<in> {8, 12, 10, 13, 9}"
    | "c \<noteq> quote" "c \<noteq> backslash" "byte c \<notin> {8, 12, 10, 13, 9}" "byte c < 32 \<or> c = CHR ''<'' \<or> c = CHR ''>'' \<or> c = CHR ''&''"
    | "c \<noteq> quote" "c \<noteq> backslash" "32 \<le> byte c" "\<not> (c = CHR ''<'' \<or> c = CHR ''>'' \<or> c = CHR ''&'')"
    by fastforce
  then show thesis
  proof cases
    case 1
    with simple [of c] show thesis by (auto simp: escape_char_def)
  next
    case 2
    then consider "byte c = 8" | "byte c = 12" | "byte c = 10" | "byte c = 13" | "byte c = 9" by auto
    then show thesis
      by cases (use 2 b simple [of "CHR ''b''"] simple [of "CHR ''f''"] simple [of "CHR ''n''"]
        simple [of "CHR ''r''"] simple [of "CHR ''t''"] in \<open>simp_all add: escape_char_def\<close>)
  next
    case 3
    with hex show thesis by (simp add: escape_char_def)
  next
    case 4
    with plain show thesis by (simp add: escape_char_def)
  qed
qed

lemma scan_escape_char:
  assumes "byte c < 128"
  shows "scan_string (escape_char c @ x) = map_option (\<lambda>(b, t). (escape_char c @ b, t)) (scan_string x)"
proof (cases rule: escape_char_cases [of c])
  case hex
  then show ?thesis using scan_u_escape [of "byte c" x] assms by simp
next
  case (simple d)
  then show ?thesis by simp
next
  case plain
  then show ?thesis by (simp add: scan_plain)
qed

lemma scan_escape_string: "scan_string (escape_string s @ quote # r) = Some (escape_string s, r)"
proof (induction s rule: escape_string.induct)
  case (1 s)
  show ?case
  proof (cases s)
    case Nil
    then show ?thesis by (simp add: escape_string.simps)
  next
    case (Cons c t)
    show ?thesis
    proof (cases "byte c < 128")
      case True
      with 1 Cons show ?thesis
        by (subst (1 2) escape_string.simps) (simp add: scan_escape_char del: scan_string.simps)
    next
      case False
      let ?p = "if \<not> good_rune s then u_escape rune_error
        else if fst (decode_rune s) = 8232 \<or> fst (decode_rune s) = 8233 then u_escape (fst (decode_rune s))
        else take (snd (decode_rune s)) s"
      have e: "escape_string s = ?p @ escape_string (drop (snd (decode_rune s)) s)"
        using Cons False by (subst escape_string.simps) simp
      have p: "scan_string (?p @ x) = map_option (\<lambda>(b, r). (?p @ b, r)) (scan_string x)" for x
      proof (cases "good_rune s")
        case True
        then have "\<forall>x \<in> set (take (snd (decode_rune s)) s). 128 \<le> byte x"
          using Cons False by (rule good_rune_wide(4))
        then have h: "scan_string (take (snd (decode_rune s)) s @ x) =
            map_option (\<lambda>(b, r). (take (snd (decode_rune s)) s @ b, r)) (scan_string x)"
          by (rule scan_high)
        show ?thesis
        proof (cases "fst (decode_rune s) = 8232 \<or> fst (decode_rune s) = 8233")
          case sep: True
          then have "fst (decode_rune s) < 65536" by auto
          then show ?thesis using scan_u_escape [of "fst (decode_rune s)" x] True sep by (simp only: if_True if_False simp_thms)
        next
          case False
          show ?thesis using h True False by (simp only: if_False simp_thms)
        qed
      next
        case False
        then show ?thesis using scan_u_escape [of rune_error x] by (simp only: if_True simp_thms) (simp add: rune_error_def)
      qed
      have "scan_string (escape_string s @ quote # r) =
          scan_string (?p @ escape_string (drop (snd (decode_rune s)) s) @ quote # r)"
        by (simp only: e append_assoc)
      also have "\<dots> = Some (?p @ escape_string (drop (snd (decode_rune s)) s), r)"
        by (simp only: p 1(2) [OF Cons False] option.map prod.case)
      finally show ?thesis by (simp only: e)
    qed
  qed
qed

lemma unquote_Nil [simp]: "unquote [] = []"
  by (simp add: unquote.simps)

lemma unquote_plain: "byte c < 128 \<Longrightarrow> c \<noteq> backslash \<Longrightarrow> unquote (c # x) = c # unquote x"
  by (subst unquote.simps) simp

lemma unquote_simple: "simple_escape d = Some c \<Longrightarrow> unquote (backslash # d # x) = c # unquote x"
  by (subst unquote.simps) simp

lemma unquote_u_escape:
  assumes "r < 65536" "\<not> is_surrogate r"
  shows "unquote (u_escape r @ x) = encode_rune r @ unquote x"
  using hex4_u_escape [OF assms(1), of x] assms(2)
  by (simp add: u_escape_def, subst unquote.simps) (simp add: simple_escape_def)

lemma unquote_escape_char:
  assumes "byte c < 128"
  shows "unquote (escape_char c @ x) = c # unquote x"
proof (cases rule: escape_char_cases [of c])
  case hex
  then show ?thesis
    using unquote_u_escape [of "byte c" x] assms by (simp add: is_surrogate_def encode_decode_1)
qed (simp_all add: unquote_simple unquote_plain assms)

lemma unquote_escape_string: "valid_utf8 s \<Longrightarrow> unquote (escape_string s) = s"
proof (induction s rule: escape_string.induct)
  case (1 s)
  show ?case
  proof (cases s)
    case Nil
    then show ?thesis by (simp add: escape_string.simps)
  next
    case (Cons c t)
    show ?thesis
    proof (cases "byte c < 128")
      case True
      with 1 Cons show ?thesis
        by (subst escape_string.simps) (simp add: unquote_escape_char)
    next
      case False
      let ?rest = "drop (snd (decode_rune s)) s"
      have "s \<noteq> []" using Cons by simp
      then have "good_rune s \<and> valid_utf8 ?rest"
        using 1(3) by (subst (asm) valid_utf8.simps) (simp split: if_splits)
      then have g: "good_rune s" and v: "valid_utf8 ?rest" by simp_all
      have ih: "unquote (escape_string ?rest) = ?rest" by (rule 1(2) [OF Cons False v])
      define w where "w = snd (decode_rune s)"
      note wide = good_rune_wide [OF g Cons False, folded w_def]
      have w: "snd (decode_rune s) = w" "\<And>t. decode_rune (take w s @ t) = decode_rune s"
        "\<forall>x \<in> set (take w s). 128 \<le> byte x" "2 \<le> w" "w \<le> length s"
        using wide by (simp_all add: w_def)
      have enc: "encode_rune (fst (decode_rune s)) = take w s" using encode_decode [OF g] w(1) by simp
      have "escape_string s = (if fst (decode_rune s) = 8232 \<or> fst (decode_rune s) = 8233
          then u_escape (fst (decode_rune s)) else take w s) @ escape_string ?rest"
        using Cons False g w(1) by (subst escape_string.simps) simp
      moreover have "unquote (take w s @ x) = take w s @ unquote x" for x
      proof -
        obtain t' where t': "take w s = c # t'" using w(4) Cons by (cases w) auto
        have "c \<noteq> backslash" using False by auto
        then have "unquote (take w s @ x) =
            encode_rune (fst (decode_rune (take w s @ x))) @ unquote (drop (snd (decode_rune (take w s @ x))) (take w s @ x))"
          using False t' by (subst unquote.simps) simp
        then show ?thesis using w(1,2,5) enc by simp
      qed
      moreover have "unquote (u_escape (fst (decode_rune s)) @ x) = take w s @ unquote x"
        if "fst (decode_rune s) = 8232 \<or> fst (decode_rune s) = 8233" for x
        using that unquote_u_escape [of "fst (decode_rune s)" x] enc by (auto simp: is_surrogate_def)
      ultimately have "unquote (escape_string s) = take w s @ ?rest" using ih by simp
      with w(1) show ?thesis by simp
    qed
  qed
qed

section \<open>Numbers\<close>

text \<open>What may follow a value that was written: nothing, a comma or a closing bracket.\<close>

definition stop :: "bytes \<Rightarrow> bool" where
  "stop r \<longleftrightarrow> r = [] \<or> hd r = CHR '','' \<or> hd r = CHR '']'' \<or> hd r = CHR ''}''"

lemma stop_Cons [simp]: "stop (CHR '','' # r)" "stop (CHR '']'' # r)" "stop (CHR ''}'' # r)" "stop []"
  by (simp_all add: stop_def)

lemma stop_chars: "stop (c # r) \<Longrightarrow> \<not> is_digit c \<and> c \<noteq> CHR ''.'' \<and> c \<noteq> CHR ''e'' \<and> c \<noteq> CHR ''E'' \<and> c \<noteq> CHR ''-''
    \<and> c \<noteq> CHR ''+'' \<and> c \<noteq> CHR ''0''"
  by (auto simp: stop_def is_digit_def)

lemma digits_prefix_stop: "stop r \<Longrightarrow> digits_prefix (s @ r) = digits_prefix s"
proof (induction s)
  case Nil
  then show ?case by (cases r) (auto simp: digits_prefix_def dest: stop_chars)
qed (simp add: digits_prefix_def)

lemma digits_prefix_le: "length (digits_prefix s) \<le> length s"
  by (simp add: digits_prefix_def length_takeWhile_le)

lemma int_part_stop: "stop r \<Longrightarrow> int_part (s @ r) = int_part s"
proof (cases s)
  case Nil
  assume "stop r"
  then show ?thesis using Nil digits_prefix_stop [of r "[]"]
    by (cases r) (auto simp: int_part_def digits_prefix_def dest: stop_chars)
next
  case (Cons c t)
  assume "stop r"
  then show ?thesis using Cons digits_prefix_stop [of r s] by (simp add: int_part_def)
qed

lemma frac_part_stop: "stop r \<Longrightarrow> frac_part (s @ r) = frac_part s"
  by (cases s; cases r) (auto simp: frac_part_def digits_prefix_stop dest: stop_chars)

lemma exp_part_stop:
  assumes "stop r"
  shows "exp_part (s @ r) = exp_part s"
proof (cases s)
  case Nil
  then show ?thesis using assms by (cases r) (auto simp: exp_part_def dest: stop_chars)
next
  case (Cons c t)
  have "exp_sign (t @ r) = exp_sign t"
    using assms by (cases t; cases r) (auto simp: exp_sign_def dest: stop_chars)
  moreover have "drop (length (exp_sign t)) (t @ r) = drop (length (exp_sign t)) t @ r"
    by (cases t) (auto simp: exp_sign_def)
  ultimately show ?thesis using Cons by (simp add: exp_part_def Let_def digits_prefix_stop [OF assms] del: drop_append)
qed

lemma frac_part_le: "frac_part s = Some f \<Longrightarrow> length f \<le> length s"
  using digits_prefix_le [of "tl s"] by (cases s) (auto simp: frac_part_def split: if_splits)

lemma exp_part_le:
  assumes "exp_part s = Some e"
  shows "length e \<le> length s"
proof (cases s)
  case (Cons c t)
  show ?thesis
  proof (cases t)
    case t: (Cons d u)
    then show ?thesis using assms Cons digits_prefix_le [of u] digits_prefix_le [of t]
      by (auto simp: exp_part_def exp_sign_def Let_def split: if_splits)
  qed (use assms Cons in \<open>auto simp: exp_part_def digits_prefix_def split: if_splits\<close>)
qed (use assms in \<open>simp add: exp_part_def\<close>)

lemma int_part_le: "length (int_part s) \<le> length s"
  using digits_prefix_le [of s] by (auto simp: int_part_def split: list.splits)

text \<open>A number text stays one before anything that stops it.\<close>

lemma scan_number_stop:
  assumes "scan_number s = Some (t, u)" "stop r"
  shows "scan_number (s @ r) = Some (t, u @ r)"
proof -
  define sg where "sg = minus_sign s"
  define s1 where "s1 = drop (length sg) s"
  define s2 where "s2 = drop (length (int_part s1)) s1"
  have sg': "minus_sign (s @ r) = sg"
    using assms(2) by (cases s; cases r) (auto simp: sg_def minus_sign_def dest: stop_chars)
  have "length sg \<le> length s" by (auto simp: sg_def minus_sign_def split: list.splits)
  then have d1: "drop (length sg) (s @ r) = s1 @ r" by (simp add: s1_def)
  have d2: "drop (length (int_part s1)) (s1 @ r) = s2 @ r" using int_part_le [of s1] by (simp add: s2_def)
  obtain f where i: "int_part s1 \<noteq> []" and f: "frac_part s2 = Some f"
    using assms(1) unfolding scan_number_def Let_def sg_def [symmetric] s1_def [symmetric] s2_def [symmetric]
    by (auto split: if_splits option.splits)
  define s3 where "s3 = drop (length f) s2"
  have d3: "drop (length f) (s2 @ r) = s3 @ r" using frac_part_le [OF f] by (simp add: s3_def)
  obtain e where e: "exp_part s3 = Some e" and t: "t = sg @ int_part s1 @ f @ e" "u = drop (length e) s3"
    using assms(1) i f unfolding scan_number_def Let_def sg_def [symmetric] s1_def [symmetric] s2_def [symmetric]
    by (auto simp: s3_def [symmetric] split: if_splits option.splits)
  have d4: "drop (length e) (s3 @ r) = u @ r" using exp_part_le [OF e] t(2) by simp
  show ?thesis
    using i f e by (simp add: scan_number_def Let_def sg' d1 d2 int_part_stop [OF assms(2)]
        frac_part_stop [OF assms(2)] d3 exp_part_stop [OF assms(2)] d4 t(1)
        del: drop_append drop_drop)
qed

lemma digits_prefix_all: "list_all is_digit s \<Longrightarrow> digits_prefix s = s"
  by (simp add: digits_prefix_def list_all_iff)

lemma scan_nat_digits: "scan_number (nat_digits n) = Some (nat_digits n, [])"
proof -
  have d: "list_all is_digit (nat_digits n)" "nat_digits n \<noteq> []" using nat_digits_ok [of n] by simp_all
  then obtain c t where ct: "nat_digits n = c # t" by (cases "nat_digits n") auto
  have "is_digit c" using d(1) ct by simp
  then have c: "c \<noteq> CHR ''-''" by (auto simp: is_digit_def)
  have "int_part (nat_digits n) = nat_digits n"
  proof (cases "n = 0")
    case True
    have "chr 48 = CHR ''0''" by (rule chr_byte_eq) simp
    then have "nat_digits 0 = [CHR ''0'']" by (simp add: nat_digits.simps digit_char_def)
    with True show ?thesis by (simp add: int_part_def)
  next
    case False
    with nat_digits_hd [of n] ct have "c \<noteq> CHR ''0''" by simp
    with digits_prefix_all [OF d(1)] ct show ?thesis by (simp add: int_part_def)
  qed
  with c ct show ?thesis by (simp add: scan_number_def minus_sign_def frac_part_def exp_part_def)
qed

lemma scan_int_digits: "scan_number (int_digits i) = Some (int_digits i, [])"
proof (cases "i < 0")
  case True
  let ?d = "nat_digits (nat (- i))"
  have "scan_number ?d = Some (?d, [])" by (rule scan_nat_digits)
  moreover have "hd ?d \<noteq> CHR ''-''" "?d \<noteq> []"
  proof -
    have d: "list_all is_digit ?d" "?d \<noteq> []" using nat_digits_ok by blast+
    then have "is_digit (hd ?d)" by (cases ?d) auto
    then show "hd ?d \<noteq> CHR ''-''" "?d \<noteq> []" using d(2) by (auto simp: is_digit_def)
  qed
  ultimately show ?thesis using True
    by (cases ?d) (auto simp: int_digits_def scan_number_def minus_sign_def Let_def split: option.splits if_splits)
next
  case False
  then show ?thesis by (simp add: int_digits_def scan_nat_digits)
qed

lemma parse_int_digits:
  assumes "int64_range i"
  shows "parse_int64 (int_digits i) = Some i"
proof (cases "i < 0")
  case True
  with assms nat_digits_ok [of "nat (- i)"] show ?thesis
    by (simp add: int_digits_def parse_int64_def)
next
  case False
  let ?d = "nat_digits (nat i)"
  have d: "list_all is_digit ?d" "digits_val ?d = nat i" "?d \<noteq> []" using nat_digits_ok by blast+
  then have "hd ?d \<noteq> CHR ''-''" by (cases ?d) (auto simp: is_digit_def)
  with False assms d show ?thesis
    by (cases ?d) (simp_all add: int_digits_def parse_int64_def)
qed

text \<open>The first character of a number.\<close>

lemma scan_number_hd:
  assumes "scan_number s = Some (t, u)"
  shows "s \<noteq> []" "is_digit (hd s) \<or> hd s = CHR ''-''"
proof -
  show "s \<noteq> []" using assms by (auto simp: scan_number_def minus_sign_def int_part_def)
  then obtain c s' where s: "s = c # s'" by (cases s) auto
  show "is_digit (hd s) \<or> hd s = CHR ''-''"
  proof (rule ccontr)
    assume "\<not> (is_digit (hd s) \<or> hd s = CHR ''-'')"
    then have n: "\<not> is_digit c" "c \<noteq> CHR ''-''" by (simp_all add: s)
    then have "c \<noteq> CHR ''0''" by (auto simp: is_digit_def)
    with n have "int_part s = []" by (simp add: s int_part_def digits_prefix_def)
    with n assms show False by (simp add: s scan_number_def minus_sign_def)
  qed
qed

section \<open>Texts that read as a value\<close>

text \<open>
  \<open>reads_as t v k\<close>: wherever a value may stand and something may follow, \<open>t\<close> is read as \<open>v\<close>, and \<open>k\<close> levels
  of brackets suffice.
\<close>

definition reads_as :: "bytes \<Rightarrow> jval \<Rightarrow> nat \<Rightarrow> bool" where
  "reads_as t v k \<longleftrightarrow> t \<noteq> [] \<and> \<not> is_json_space (hd t) \<and> hd t \<noteq> CHR '']'' \<and> hd t \<noteq> CHR ''}''
     \<and> (\<forall>n d r. 2 * length t + 1 \<le> n \<and> k \<le> d \<and> stop r \<longrightarrow> parse_value n d (t @ r) = Some (v, r))"

lemma reads_as_parse:
  "reads_as t v k \<Longrightarrow> 2 * length t + 1 \<le> n \<Longrightarrow> k \<le> d \<Longrightarrow> stop r \<Longrightarrow> parse_value n d (t @ r) = Some (v, r)"
  by (simp add: reads_as_def)

lemma reads_as_nonempty: "reads_as t v k \<Longrightarrow> t \<noteq> []"
  by (simp add: reads_as_def)

lemma reads_as_mono: "reads_as t v k \<Longrightarrow> k \<le> k' \<Longrightarrow> reads_as t v k'"
  by (simp add: reads_as_def)

lemma skip_space_reads: "reads_as t v k \<Longrightarrow> skip_space (t @ r) = t @ r"
  by (cases t) (simp_all add: reads_as_def skip_space_def)

lemma skip_space_id [simp]: "\<not> is_json_space c \<Longrightarrow> skip_space (c # r) = c # r"
  by (simp add: skip_space_def)

lemma skip_space_Nil [simp]: "skip_space [] = []"
  by (simp add: skip_space_def)

lemma not_space [simp]: "\<not> is_json_space (CHR '','')" "\<not> is_json_space (CHR '']'')" "\<not> is_json_space (CHR ''}'')"
  "\<not> is_json_space (CHR '':'')" "\<not> is_json_space quote" "\<not> is_json_space (CHR ''['')" "\<not> is_json_space (CHR ''{'')"
  by (simp_all add: is_json_space_def)

lemma before_append [simp]: "before (t @ r) r = t"
  by (simp add: before_def)

theorem reads_as_json_parse:
  assumes "reads_as t v k" "k \<le> 10000"
  shows "json_parse t = Some v"
  using reads_as_parse [OF assms(1), of "2 * length t + 2" 10000 "[]"] skip_space_reads [OF assms(1), of "[]"] assms(2)
  by (simp add: json_parse_def)

lemma reads_string: "valid_utf8 s \<Longrightarrow> reads_as (quote_string s) (JStr s) 0"
proof -
  assume v: "valid_utf8 s"
  have "parse_value n d (quote_string s @ r) = Some (JStr s, r)" if fuel: "2 * length (quote_string s) + 1 \<le> n" for n d r
  proof -
    obtain m where "n = Suc m" using fuel by (cases n) auto
    then show ?thesis using v scan_escape_string [of s r] by (simp add: quote_string_def unquote_escape_string)
  qed
  then show ?thesis by (simp add: reads_as_def quote_string_def)
qed

lemma reads_asI:
  assumes "t \<noteq> []" "\<not> is_json_space (hd t)" "hd t \<noteq> CHR '']''" "hd t \<noteq> CHR ''}''"
    and "\<And>m d r. stop r \<Longrightarrow> parse_value (Suc m) d (t @ r) = Some (v, r)"
  shows "reads_as t v 0"
proof -
  have "parse_value n d (t @ r) = Some (v, r)" if fuel: "2 * length t + 1 \<le> n" and st: "stop r" for n d r
  proof -
    obtain m where "n = Suc m" using fuel by (cases n) auto
    with assms(5) [OF st] show ?thesis by (simp only:)
  qed
  with assms(1-4) show ?thesis by (simp add: reads_as_def)
qed

lemma reads_literals:
  "reads_as lit_null JNull 0" "reads_as lit_true (JBool True) 0" "reads_as lit_false (JBool False) 0"
proof -
  have "parse_value (Suc m) d (lit_null @ r) = Some (JNull, r)" for m d r
    by (simp add: lit_null_def has_prefix_def)
  then show "reads_as lit_null JNull 0"
    by (intro reads_asI) (simp_all add: lit_null_def is_json_space_def)
  have "parse_value (Suc m) d (lit_true @ r) = Some (JBool True, r)" for m d r
    by (simp add: lit_null_def lit_true_def has_prefix_def)
  then show "reads_as lit_true (JBool True) 0"
    by (intro reads_asI) (simp_all add: lit_true_def is_json_space_def)
  have "parse_value (Suc m) d (lit_false @ r) = Some (JBool False, r)" for m d r
    by (simp add: lit_null_def lit_true_def lit_false_def has_prefix_def)
  then show "reads_as lit_false (JBool False) 0"
    by (intro reads_asI) (simp_all add: lit_false_def is_json_space_def)
qed

lemma reads_number:
  assumes "scan_number t = Some (t, [])"
  shows "reads_as t (JNum t) 0"
proof -
  note h = scan_number_hd [OF assms]
  obtain c s where t: "t = c # s" using h(1) by (cases t) auto
  have c: "is_digit c \<or> c = CHR ''-''" using h(2) t by simp
  then have ne: "c \<noteq> quote" "c \<noteq> CHR ''[''" "c \<noteq> CHR ''{''" "c \<noteq> CHR ''n''" "c \<noteq> CHR ''t''" "c \<noteq> CHR ''f''"
    "c \<noteq> CHR '']''" "c \<noteq> CHR ''}''" "\<not> is_json_space c"
    by (auto simp: is_digit_def is_json_space_def)
  have "parse_value n d (t @ r) = Some (JNum t, r)" if fuel: "2 * length t + 1 \<le> n" and st: "stop r" for n d r
  proof -
    obtain m where n: "n = Suc m" using fuel by (cases n) auto
    have "scan_number (c # s @ r) = Some (t, r)" using scan_number_stop [OF assms st] t by simp
    with n t ne show ?thesis by (simp add: has_prefix_def lit_null_def lit_true_def lit_false_def)
  qed
  with t ne show ?thesis by (simp add: reads_as_def)
qed

lemma parse_elems_join:
  assumes "list_all2 (\<lambda>t v. reads_as t v k) ts vs" "ts \<noteq> []" "k \<le> d"
    and "2 * length (join '','' ts) + 2 \<le> n"
  shows "parse_elems n d (join '','' ts @ CHR '']'' # r) = Some (zip ts vs, r)"
  using assms
proof (induction ts vs arbitrary: n rule: list_all2_induct)
  case (Cons t ts v vs)
  obtain m where n: "n = Suc m" using Cons.prems(3) by (cases n) auto
  show ?case
  proof (cases "ts = []")
    case True
    have "parse_value m d (t @ CHR '']'' # r) = Some (v, CHR '']'' # r)"
      using Cons.prems n True by (intro reads_as_parse [OF Cons.hyps(1)]) auto
    with True n Cons.hyps(2) show ?thesis by simp
  next
    case False
    then obtain t' ts' where ts: "ts = t' # ts'" by (cases ts) auto
    then have t': "\<exists>v. reads_as t' v k" using Cons.hyps(2) by (cases vs) auto
    have J: "join '','' (t # ts) = t @ CHR '','' # join '','' ts" using False by (simp add: join_Cons)
    have fuel: "2 * length t + 1 \<le> m" "2 * length (join '','' ts) + 2 \<le> m"
      using Cons.prems(3) by (simp_all add: n J)
    have "parse_value m d (t @ CHR '','' # join '','' ts @ CHR '']'' # r)
        = Some (v, CHR '','' # join '','' ts @ CHR '']'' # r)"
      by (rule reads_as_parse [OF Cons.hyps(1) fuel(1) Cons.prems(2)]) simp
    moreover have "skip_space (join '','' ts @ CHR '']'' # r) = join '','' ts @ CHR '']'' # r"
    proof -
      obtain u where "join '','' ts = t' @ u" by (cases ts') (auto simp: ts join_Cons)
      with t' skip_space_reads show ?thesis by (metis append.assoc)
    qed
    moreover have "parse_elems m d (join '','' ts @ CHR '']'' # r) = Some (zip ts vs, r)"
      by (rule Cons.IH [OF False Cons.prems(2) fuel(2)])
    ultimately show ?thesis by (simp add: n J)
  qed
qed simp

lemma reads_array:
  assumes "list_all2 (\<lambda>t v. reads_as t v k) ts vs"
  shows "reads_as (array_text ts) (JArr (zip ts vs)) (Suc k)"
proof -
  have "parse_value n d (array_text ts @ r) = Some (JArr (zip ts vs), r)"
    if fuel: "2 * length (array_text ts) + 1 \<le> n" and d: "Suc k \<le> d" for n d r
  proof -
    obtain m where n: "n = Suc m" using fuel by (cases n) auto
    show ?thesis
    proof (cases "ts = []")
      case True
      with n d assms show ?thesis by (simp add: array_text_def)
    next
      case False
      then obtain t' ts' v' where ts: "ts = t' # ts'" and t': "reads_as t' v' k"
        using assms by (cases ts; cases vs) auto
      let ?J = "join '','' ts @ CHR '']'' # r"
      obtain u where u: "?J = t' @ u" by (cases ts') (auto simp: ts join_Cons)
      have sk: "skip_space ?J = ?J" using skip_space_reads [OF t', of u] u by simp
      obtain c J where J: "?J = c # J" and c: "c \<noteq> CHR '']''"
        using t' u by (cases t') (auto simp: reads_as_def)
      have "parse_elems m (d - 1) ?J = Some (zip ts vs, r)"
        using fuel d by (intro parse_elems_join [OF assms False]) (simp_all add: n array_text_def)
      then show ?thesis using sk c d by (simp add: n array_text_def J)
    qed
  qed
  then show ?thesis by (simp add: reads_as_def array_text_def)
qed

section \<open>Objects\<close>

text \<open>A member to write, with the value its text reads as.\<close>

type_synonym written_member = "bytes \<times> bytes \<times> jval"

definition member_ok :: "nat \<Rightarrow> written_member \<Rightarrow> bool" where
  "member_ok k m \<longleftrightarrow> (case m of (key, t, v) \<Rightarrow> valid_utf8 key \<and> reads_as t v k)"

abbreviation text_of :: "written_member \<Rightarrow> bytes" where
  "text_of m \<equiv> member_text (fst m, fst (snd m))"

lemma member_text_Cons: "\<exists>u. member_text m = quote # u"
  by (simp add: member_text_def quote_string_def)

lemma parse_members_step:
  assumes "member_ok k (key, t, v)" "k \<le> d" "2 * length t + 1 \<le> m" "stop x"
  shows "parse_members (Suc m) d (member_text (key, t) @ x) =
    (case skip_space x of
       [] \<Rightarrow> None
     | d' # r3 \<Rightarrow>
         if d' = CHR '','' then
           map_option (\<lambda>(ms, r4). ((key, t, v) # ms, r4)) (parse_members m d (skip_space r3))
         else if d' = CHR ''}'' then Some ([(key, t, v)], r3)
         else None)"
proof -
  have key: "valid_utf8 key" and r: "reads_as t v k" using assms(1) by (simp_all add: member_ok_def)
  have s: "scan_string (escape_string key @ quote # CHR '':'' # t @ x) = Some (escape_string key, CHR '':'' # t @ x)"
    by (rule scan_escape_string)
  show ?thesis
    using skip_space_reads [OF r, of x] reads_as_parse [OF r assms(3,2,4)] s
    by (simp add: member_text_def quote_string_def unquote_escape_string [OF key] Let_def split: list.splits)
qed

lemma parse_members_join:
  assumes "list_all (member_ok k) ms" "ms \<noteq> []" "k \<le> d"
    and "2 * length (join '','' (map text_of ms)) + 2 \<le> n"
  shows "parse_members n d (join '','' (map text_of ms) @ CHR ''}'' # r) = Some (ms, r)"
  using assms
proof (induction ms arbitrary: n)
  case (Cons kt ms)
  obtain key t v where kt: "kt = (key, t, v)" by (cases kt) auto
  have ok: "member_ok k (key, t, v)" and oks: "list_all (member_ok k) ms" using Cons.prems(1) kt by simp_all
  obtain m where n: "n = Suc m" using Cons.prems(4) by (cases n) auto
  have len: "length t \<le> length (member_text (key, t))" by (simp add: member_text_def)
  show ?case
  proof (cases "ms = []")
    case True
    have "2 * length t + 1 \<le> m" using Cons.prems(4) len by (simp add: True kt n)
    from parse_members_step [OF ok Cons.prems(3) this, of "CHR ''}'' # r"] show ?thesis
      by (simp add: True kt n)
  next
    case False
    let ?J = "join '','' (map text_of ms)"
    have J: "join '','' (map text_of (kt # ms)) = member_text (key, t) @ CHR '','' # ?J"
      using False by (simp add: join_Cons kt)
    have fuel: "2 * length t + 1 \<le> m" "2 * length ?J + 2 \<le> m"
      using Cons.prems(4) len unfolding J by (simp_all add: n)
    obtain u where u: "?J @ CHR ''}'' # r = quote # u"
    proof -
      obtain kt' ms' where ms: "ms = kt' # ms'" using False by (cases ms) auto
      obtain w where "text_of kt' = quote # w" using member_text_Cons by blast
      then show thesis using that by (cases ms') (auto simp: ms join_Cons)
    qed
    have "parse_members m d (?J @ CHR ''}'' # r) = Some (ms, r)"
      by (rule Cons.IH [OF oks False Cons.prems(3) fuel(2)])
    moreover have "skip_space (?J @ CHR ''}'' # r) = ?J @ CHR ''}'' # r" by (simp add: u)
    ultimately show ?thesis
      using parse_members_step [OF ok Cons.prems(3) fuel(1), of "CHR '','' # ?J @ CHR ''}'' # r"]
      unfolding J by (simp add: n kt)
  qed
qed simp

lemma insort_key_proj:
  "insort_key fst (fst m, fst (snd m)) (map (\<lambda>m. (fst m, fst (snd m))) ms)
     = map (\<lambda>m. (fst m, fst (snd m))) (insort_key fst m ms)"
  by (induction ms) simp_all

lemma sort_key_proj:
  "sort_key fst (map (\<lambda>m. (fst m, fst (snd m))) ms) = map (\<lambda>m. (fst m, fst (snd m))) (sort_key fst ms)"
  by (induction ms) (simp_all add: insort_key_proj)

abbreviation unread :: "written_member \<Rightarrow> bytes \<times> bytes" where
  "unread m \<equiv> (fst m, fst (snd m))"

lemma reads_object:
  assumes "list_all (member_ok k) ms"
  shows "reads_as (object_text (map unread ms)) (JObj (sort_key fst ms)) (Suc k)"
proof -
  let ?ms = "sort_key fst ms"
  have ok: "list_all (member_ok k) ?ms" using assms by (simp add: list_all_iff)
  have ot: "object_text (map unread ms) = CHR ''{'' # join '','' (map text_of ?ms) @ ''}''"
    by (simp add: object_text_def sort_key_proj comp_def)
  have "parse_value n d (object_text (map unread ms) @ r) = Some (JObj ?ms, r)"
    if fuel: "2 * length (object_text (map unread ms)) + 1 \<le> n" and d: "Suc k \<le> d" for n d r
  proof -
    obtain m where n: "n = Suc m" using fuel by (cases n) auto
    show ?thesis
    proof (cases "?ms = []")
      case True
      with n d ot show ?thesis by simp
    next
      case False
      let ?J = "join '','' (map text_of ?ms) @ CHR ''}'' # r"
      obtain u where u: "?J = quote # u"
      proof -
        obtain kt' ms' where ms: "?ms = kt' # ms'" using False by (cases ?ms) auto
        obtain w where "text_of kt' = quote # w" using member_text_Cons by blast
        then show thesis using that by (cases ms') (auto simp: ms join_Cons)
      qed
      have "parse_members m (d - 1) ?J = Some (?ms, r)"
        using fuel d by (intro parse_members_join [OF ok False]) (simp_all add: n ot)
      then show ?thesis using d unfolding ot n by (simp add: u)
    qed
  qed
  then show ?thesis by (simp add: reads_as_def ot is_json_space_def)
qed

section \<open>Reading an object as a map\<close>

lemma put_all_fresh:
  assumes "distinct (map fst (m @ kvs))"
  shows "put_all m kvs = m @ kvs"
  using assms
proof (induction kvs arbitrary: m)
  case (Cons kv kvs)
  obtain k v where kv: "kv = (k, v)" by (cases kv)
  with Cons.prems have "k \<notin> fst ` set m" by auto
  then have "AList.update k v m = m @ [(k, v)]" by (induction m) auto
  with Cons kv show ?case by simp
qed simp

lemma map_of_sorted:
  assumes "distinct (map fst ms)"
  shows "map_of (sort_key fst ms) = map_of ms"
proof
  fix k
  have d: "distinct (map fst (sort_key fst ms))"
    using assms by (simp add: distinct_map)
  show "map_of (sort_key fst ms) k = map_of ms k"
  proof (cases "map_of ms k")
    case None
    then have "map_of (sort_key fst ms) k = None" by (simp add: map_of_eq_None_iff)
    with None show ?thesis by simp
  next
    case (Some v)
    then have "(k, v) \<in> set (sort_key fst ms)" by (auto dest: map_of_SomeD)
    with d Some show ?thesis by simp
  qed
qed

text \<open>Decoding a written object into \<open>map[string]json.RawMessage\<close> gives back the texts of its members.\<close>

lemma um_map_raw_object:
  assumes "list_all (member_ok k) ms" "distinct (map fst ms)" "Suc k \<le> 10000"
  obtains root where "um_map_raw (object_text (map unread ms)) = Some root"
    "map_of root = map_of (map unread ms)" "root = map unread (sort_key fst ms)" "distinct (map fst root)"
proof -
  have j: "json_parse (object_text (map unread ms)) = Some (JObj (sort_key fst ms))"
    by (rule reads_as_json_parse [OF reads_object [OF assms(1)] assms(3)])
  have d: "distinct (map fst (sort_key fst ms))"
    using assms(2) by (simp add: distinct_map)
  have p: "map (\<lambda>(k, r, v). (k, r)) xs = map unread xs" for xs :: "written_member list"
    by (induction xs) auto
  have "distinct (map fst ([] @ map unread (sort_key fst ms)))" using d by (simp add: comp_def)
  from put_all_fresh [OF this] j have um: "um_map_raw (object_text (map unread ms)) = Some (map unread (sort_key fst ms))"
    by (simp add: um_map_raw_def p)
  have "map_of (map unread (sort_key fst ms)) = map_of (map unread ms)"
    using map_of_sorted [of "map unread ms"] assms(2) by (simp add: comp_def sort_key_proj)
  with um d that show thesis by (simp add: comp_def)
qed

end
