(* ===== verification/Segments.thy ===== *)
theory Segments
  imports Types
begin

text \<open>
  \<open>pkg/semantic/segments.go\<close>: the segment types of a parsed stream, with their methods \<open>Type\<close>,
  \<open>BytesLen\<close>, \<open>CanMerge\<close> and \<open>Merge\<close>, one group per struct, and the interface \<open>Segment\<close> as a
  datatype that dispatches to them.  \<open>Merge\<close> returns its boolean and the receiver after the call.
  Merging tool calls follows a pointer out of a map; \<open>None\<close> is the nil dereference the code would
  panic with when \<open>Order\<close> names a call that \<open>Calls\<close> lacks.
\<close>

section \<open>Reasoning and content\<close>

record reasoning_segment =
  rs_ChoiceIndex :: int
  rs_FieldName :: bytes
  rs_Text :: bytes
  rs_Metadata :: common_metadata

record content_segment =
  cs_ChoiceIndex :: int
  cs_Text :: bytes
  cs_Metadata :: common_metadata

section \<open>Tool calls\<close>

record tool_call_accumulator =
  tc_Index :: int
  tc_ID :: bytes
  tc_Type :: bytes
  tc_FunctionName :: bytes
  tc_Arguments :: bytes

type_synonym calls = "(int \<times> tool_call_accumulator) list"

record tool_call_segment =
  ts_ChoiceIndex :: int
  ts_Order :: "int list"
  ts_Calls :: calls
  ts_Metadata :: common_metadata

section \<open>Role, finish, usage, raw\<close>

record role_segment =
  ro_ChoiceIndex :: int
  ro_Role :: bytes
  ro_Metadata :: common_metadata

record finish_segment =
  fs_ChoiceIndex :: int
  fs_FinishReason :: bytes
  fs_Usage :: goval
  fs_Metadata :: common_metadata

record usage_segment =
  us_Usage :: goval
  us_Metadata :: common_metadata

record raw_segment =
  rw_SegmentType :: event_type
  rw_Data :: bytes
  rw_Metadata :: common_metadata

section \<open>Responses API segments\<close>

text \<open>\<open>Logprobs\<close> is a slice that may be nil (\<open>None\<close>): the serializer shows the difference.\<close>

record response_text_segment =
  rt_EventType :: bytes
  rt_ResponseID :: bytes
  rt_ItemID :: bytes
  rt_OutputIndex :: int
  rt_ContentIndex :: int
  rt_SequenceNumber :: int
  rt_Delta :: bytes
  rt_HasLogprobs :: bool
  rt_Logprobs :: "goval list option"
  rt_SSEID :: bytes
  rt_Extra :: gomap
  rt_Metadata :: common_metadata

record response_reasoning_segment =
  rr_EventType :: bytes
  rr_ResponseID :: bytes
  rr_ItemID :: bytes
  rr_OutputIndex :: int
  rr_ContentIndex :: "int option"
  rr_SummaryIndex :: "int option"
  rr_SequenceNumber :: int
  rr_Delta :: bytes
  rr_SSEID :: bytes
  rr_Extra :: gomap
  rr_Metadata :: common_metadata

record response_tool_segment =
  rc_EventType :: bytes
  rc_ResponseID :: bytes
  rc_ItemID :: bytes
  rc_OutputIndex :: int
  rc_CallID :: bytes
  rc_SequenceNumber :: int
  rc_Delta :: bytes
  rc_SSEID :: bytes
  rc_Extra :: gomap
  rc_Metadata :: common_metadata

record response_control_segment =
  ct_EventType :: bytes
  ct_ID :: bytes
  ct_Data :: bytes
  ct_Usage :: goval
  ct_Model :: bytes
  ct_IsDone :: bool
  ct_IsError :: bool
  ct_Metadata :: common_metadata

section \<open>The interface Segment\<close>

datatype segment =
    Reasoning reasoning_segment
  | Content content_segment
  | ToolCall tool_call_segment
  | Role role_segment
  | Finish finish_segment
  | Usage usage_segment
  | Raw raw_segment
  | ResponseText response_text_segment
  | ResponseReasoning response_reasoning_segment
  | ResponseTool response_tool_segment
  | ResponseControl response_control_segment

definition control_Type :: "response_control_segment \<Rightarrow> event_type" where
  "control_Type s =
     (if ct_IsDone s then EventDone
      else if ct_IsError s then EventError
      else if ct_Usage s \<noteq> GNil then EventUsage
      else EventUnknown)"

fun seg_Type :: "segment \<Rightarrow> event_type" where
  "seg_Type (Reasoning s) = EventReasoning"
| "seg_Type (Content s) = EventContent"
| "seg_Type (ToolCall s) = EventToolCall"
| "seg_Type (Role s) = EventRole"
| "seg_Type (Finish s) = EventFinish"
| "seg_Type (Usage s) = EventUsage"
| "seg_Type (Raw s) = rw_SegmentType s"
| "seg_Type (ResponseText s) = EventContent"
| "seg_Type (ResponseReasoning s) = EventReasoning"
| "seg_Type (ResponseTool s) = EventToolCall"
| "seg_Type (ResponseControl s) = control_Type s"

definition call_BytesLen :: "tool_call_accumulator \<Rightarrow> int" where
  "call_BytesLen c =
     int (length (tc_ID c)) + int (length (tc_Type c)) + int (length (tc_FunctionName c))
     + int (length (tc_Arguments c)) + 32"

definition tool_BytesLen :: "tool_call_segment \<Rightarrow> int" where
  "tool_BytesLen s = 128 + sum_list (map (\<lambda>(idx, c). call_BytesLen c) (ts_Calls s))"

fun BytesLen :: "segment \<Rightarrow> int" where
  "BytesLen (Reasoning s) = int (length (rs_Text s)) + 64"
| "BytesLen (Content s) = int (length (cs_Text s)) + 64"
| "BytesLen (ToolCall s) = tool_BytesLen s"
| "BytesLen (Role s) = int (length (ro_Role s)) + 64"
| "BytesLen (Finish s) = int (length (fs_FinishReason s)) + 64"
| "BytesLen (Usage s) = 128"
| "BytesLen (Raw s) = int (length (rw_Data s))"
| "BytesLen (ResponseText s) = int (length (rt_Delta s)) + 128"
| "BytesLen (ResponseReasoning s) = int (length (rr_Delta s)) + 128"
| "BytesLen (ResponseTool s) = int (length (rc_Delta s)) + 128"
| "BytesLen (ResponseControl s) =
     int (length (ct_Data s)) + int (length (ct_EventType s)) + int (length (ct_ID s)) + 32"

section \<open>CanMerge\<close>

definition reasoning_CanMerge :: "reasoning_segment \<Rightarrow> reasoning_segment \<Rightarrow> bool" where
  "reasoning_CanMerge s n \<longleftrightarrow> rs_ChoiceIndex s = rs_ChoiceIndex n \<and> rs_FieldName s = rs_FieldName n"

definition content_CanMerge :: "content_segment \<Rightarrow> content_segment \<Rightarrow> bool" where
  "content_CanMerge s n \<longleftrightarrow> cs_ChoiceIndex s = cs_ChoiceIndex n"

text \<open>Two calls conflict when both have an id and the ids differ.\<close>

definition ids_conflict :: "tool_call_accumulator \<Rightarrow> tool_call_accumulator \<Rightarrow> bool" where
  "ids_conflict e c \<longleftrightarrow> tc_ID e \<noteq> [] \<and> tc_ID c \<noteq> [] \<and> tc_ID e \<noteq> tc_ID c"

definition tool_CanMerge :: "tool_call_segment \<Rightarrow> tool_call_segment \<Rightarrow> bool" where
  "tool_CanMerge s n \<longleftrightarrow>
     ts_ChoiceIndex s = ts_ChoiceIndex n
     \<and> list_all (\<lambda>(idx, nextCall). case map_of (ts_Calls s) idx of
                    None \<Rightarrow> True | Some existing \<Rightarrow> \<not> ids_conflict existing nextCall)
         (ts_Calls n)"

definition role_CanMerge :: "role_segment \<Rightarrow> role_segment \<Rightarrow> bool" where
  "role_CanMerge s n \<longleftrightarrow> ro_ChoiceIndex s = ro_ChoiceIndex n \<and> ro_Role s = ro_Role n"

definition response_text_CanMerge :: "response_text_segment \<Rightarrow> response_text_segment \<Rightarrow> bool" where
  "response_text_CanMerge s n \<longleftrightarrow>
     rt_EventType s = rt_EventType n \<and> rt_ItemID s = rt_ItemID n
     \<and> rt_OutputIndex s = rt_OutputIndex n \<and> rt_ContentIndex s = rt_ContentIndex n"

definition response_reasoning_CanMerge ::
  "response_reasoning_segment \<Rightarrow> response_reasoning_segment \<Rightarrow> bool" where
  "response_reasoning_CanMerge s n =
     (if rr_EventType s \<noteq> rr_EventType n \<or> rr_ItemID s \<noteq> rr_ItemID n
         \<or> rr_OutputIndex s \<noteq> rr_OutputIndex n then False
      else if (rr_SummaryIndex s = None) \<noteq> (rr_SummaryIndex n = None) then False
      else if rr_SummaryIndex s \<noteq> None \<and> the (rr_SummaryIndex s) \<noteq> the (rr_SummaryIndex n) then False
      else if (rr_ContentIndex s = None) \<noteq> (rr_ContentIndex n = None) then False
      else if rr_ContentIndex s \<noteq> None \<and> the (rr_ContentIndex s) \<noteq> the (rr_ContentIndex n) then False
      else True)"

definition response_tool_CanMerge :: "response_tool_segment \<Rightarrow> response_tool_segment \<Rightarrow> bool" where
  "response_tool_CanMerge s n \<longleftrightarrow>
     rc_EventType s = rc_EventType n \<and> rc_ItemID s = rc_ItemID n \<and> rc_OutputIndex s = rc_OutputIndex n"

text \<open>A type assertion that fails makes \<open>CanMerge\<close> false.\<close>

definition CanMerge :: "segment \<Rightarrow> segment \<Rightarrow> bool" where
  "CanMerge s next =
     (case s of
        Reasoning s \<Rightarrow> (case next of Reasoning n \<Rightarrow> reasoning_CanMerge s n | _ \<Rightarrow> False)
      | Content s \<Rightarrow> (case next of Content n \<Rightarrow> content_CanMerge s n | _ \<Rightarrow> False)
      | ToolCall s \<Rightarrow> (case next of ToolCall n \<Rightarrow> tool_CanMerge s n | _ \<Rightarrow> False)
      | Role s \<Rightarrow> (case next of Role n \<Rightarrow> role_CanMerge s n | _ \<Rightarrow> False)
      | ResponseText s \<Rightarrow> (case next of ResponseText n \<Rightarrow> response_text_CanMerge s n | _ \<Rightarrow> False)
      | ResponseReasoning s \<Rightarrow>
          (case next of ResponseReasoning n \<Rightarrow> response_reasoning_CanMerge s n | _ \<Rightarrow> False)
      | ResponseTool s \<Rightarrow> (case next of ResponseTool n \<Rightarrow> response_tool_CanMerge s n | _ \<Rightarrow> False)
      | _ \<Rightarrow> False)"

section \<open>Merge\<close>

definition reasoning_Merge :: "reasoning_segment \<Rightarrow> reasoning_segment \<Rightarrow> reasoning_segment" where
  "reasoning_Merge s n = s\<lparr>rs_Text := rs_Text s @ rs_Text n\<rparr>"

definition content_Merge :: "content_segment \<Rightarrow> content_segment \<Rightarrow> content_segment" where
  "content_Merge s n = s\<lparr>cs_Text := cs_Text s @ cs_Text n\<rparr>"

text \<open>The function name of a call: a longer version replaces, an unrelated fragment is appended.\<close>

definition merge_name :: "bytes \<Rightarrow> bytes \<Rightarrow> bytes" where
  "merge_name e c =
     (if c \<noteq> [] then
        if e = [] then c
        else if e \<noteq> c then
          if has_prefix c e then c
          else if \<not> has_prefix e c then e @ c
          else e
        else e
      else e)"

definition merge_call :: "tool_call_accumulator \<Rightarrow> tool_call_accumulator \<Rightarrow> tool_call_accumulator" where
  "merge_call e c =
     (let e = (if tc_ID e = [] \<and> tc_ID c \<noteq> [] then e\<lparr>tc_ID := tc_ID c\<rparr> else e);
          e = (if tc_Type e = [] \<and> tc_Type c \<noteq> [] then e\<lparr>tc_Type := tc_Type c\<rparr> else e);
          e = e\<lparr>tc_FunctionName := merge_name (tc_FunctionName e) (tc_FunctionName c)\<rparr>
      in e\<lparr>tc_Arguments := tc_Arguments e @ tc_Arguments c\<rparr>)"

definition merge_one :: "tool_call_segment \<Rightarrow> int \<Rightarrow> tool_call_accumulator \<Rightarrow> tool_call_segment" where
  "merge_one s idx nextCall =
     (case map_of (ts_Calls s) idx of
        None \<Rightarrow> s\<lparr>ts_Order := ts_Order s @ [idx], ts_Calls := AList.update idx nextCall (ts_Calls s)\<rparr>
      | Some existing \<Rightarrow> s\<lparr>ts_Calls := AList.update idx (merge_call existing nextCall) (ts_Calls s)\<rparr>)"

fun merge_order :: "tool_call_segment \<Rightarrow> calls \<Rightarrow> int list \<Rightarrow> tool_call_segment option" where
  "merge_order s ncalls [] = Some s"
| "merge_order s ncalls (idx # order) =
     (case map_of ncalls idx of
        None \<Rightarrow> None
      | Some nextCall \<Rightarrow> merge_order (merge_one s idx nextCall) ncalls order)"

definition tool_Merge :: "tool_call_segment \<Rightarrow> tool_call_segment \<Rightarrow> tool_call_segment option" where
  "tool_Merge s n = merge_order s (ts_Calls n) (ts_Order n)"

text \<open>\<open>append(s.Logprobs, n.Logprobs...)\<close>: a nil slice stays nil when nothing is appended.\<close>

definition append_slice :: "goval list option \<Rightarrow> goval list option \<Rightarrow> goval list option" where
  "append_slice s n =
     (case n of None \<Rightarrow> s | Some [] \<Rightarrow> s
      | Some ys \<Rightarrow> (case s of None \<Rightarrow> Some ys | Some xs \<Rightarrow> Some (xs @ ys)))"

definition response_text_Merge ::
  "response_text_segment \<Rightarrow> response_text_segment \<Rightarrow> response_text_segment" where
  "response_text_Merge s n =
     (let s = s\<lparr>rt_Delta := rt_Delta s @ rt_Delta n, rt_SequenceNumber := rt_SequenceNumber n\<rparr>;
          s = (if rt_ResponseID n \<noteq> [] then s\<lparr>rt_ResponseID := rt_ResponseID n\<rparr> else s);
          s = (if rt_SSEID n \<noteq> [] then s\<lparr>rt_SSEID := rt_SSEID n\<rparr> else s);
          s = (if rt_HasLogprobs n
               then s\<lparr>rt_HasLogprobs := True, rt_Logprobs := append_slice (rt_Logprobs s) (rt_Logprobs n)\<rparr>
               else s)
      in s\<lparr>rt_Extra := put_all (rt_Extra s) (rt_Extra n)\<rparr>)"

definition response_reasoning_Merge ::
  "response_reasoning_segment \<Rightarrow> response_reasoning_segment \<Rightarrow> response_reasoning_segment" where
  "response_reasoning_Merge s n =
     (let s = s\<lparr>rr_Delta := rr_Delta s @ rr_Delta n, rr_SequenceNumber := rr_SequenceNumber n\<rparr>;
          s = (if rr_ResponseID n \<noteq> [] then s\<lparr>rr_ResponseID := rr_ResponseID n\<rparr> else s);
          s = (if rr_SSEID n \<noteq> [] then s\<lparr>rr_SSEID := rr_SSEID n\<rparr> else s)
      in s\<lparr>rr_Extra := put_all (rr_Extra s) (rr_Extra n)\<rparr>)"

definition response_tool_Merge ::
  "response_tool_segment \<Rightarrow> response_tool_segment \<Rightarrow> response_tool_segment" where
  "response_tool_Merge s n =
     (let s = s\<lparr>rc_Delta := rc_Delta s @ rc_Delta n, rc_SequenceNumber := rc_SequenceNumber n\<rparr>;
          s = (if rc_CallID s = [] \<and> rc_CallID n \<noteq> [] then s\<lparr>rc_CallID := rc_CallID n\<rparr> else s);
          s = (if rc_ResponseID n \<noteq> [] then s\<lparr>rc_ResponseID := rc_ResponseID n\<rparr> else s);
          s = (if rc_SSEID n \<noteq> [] then s\<lparr>rc_SSEID := rc_SSEID n\<rparr> else s)
      in s\<lparr>rc_Extra := put_all (rc_Extra s) (rc_Extra n)\<rparr>)"

text \<open>The receiver after \<open>Merge(next)\<close>, where \<open>CanMerge(next)\<close> held.\<close>

definition merged :: "segment \<Rightarrow> segment \<Rightarrow> segment option" where
  "merged s next =
     (case s of
        Reasoning r \<Rightarrow> (case next of Reasoning n \<Rightarrow> Some (Reasoning (reasoning_Merge r n)) | _ \<Rightarrow> Some s)
      | Content r \<Rightarrow> (case next of Content n \<Rightarrow> Some (Content (content_Merge r n)) | _ \<Rightarrow> Some s)
      | ToolCall r \<Rightarrow> (case next of ToolCall n \<Rightarrow> map_option ToolCall (tool_Merge r n) | _ \<Rightarrow> Some s)
      | ResponseText r \<Rightarrow>
          (case next of ResponseText n \<Rightarrow> Some (ResponseText (response_text_Merge r n)) | _ \<Rightarrow> Some s)
      | ResponseReasoning r \<Rightarrow>
          (case next of ResponseReasoning n \<Rightarrow> Some (ResponseReasoning (response_reasoning_Merge r n))
           | _ \<Rightarrow> Some s)
      | ResponseTool r \<Rightarrow>
          (case next of ResponseTool n \<Rightarrow> Some (ResponseTool (response_tool_Merge r n)) | _ \<Rightarrow> Some s)
      | _ \<Rightarrow> Some s)"

definition Merge :: "segment \<Rightarrow> segment \<Rightarrow> (bool \<times> segment) option" where
  "Merge s n = (if \<not> CanMerge s n then Some (False, s) else map_option (\<lambda>s'. (True, s')) (merged s n))"

end
