(* ===== verification/Segment_Laws.thy ===== *)
theory Segment_Laws
  imports Segments
begin

text \<open>
  What merging promises, in three parts: a lookup-by-lookup description of merged tool calls, the
  size bounds the buffer's accounting needs, and the observation of a segment as a sequence of
  atoms (one per byte of a channel, one per role announcement, one per barrier), which merging
  concatenates.
\<close>

section \<open>Case analysis\<close>

lemma CanMerge_cases:
  assumes "CanMerge s n"
  obtains (reasoning) a b where "s = Reasoning a" "n = Reasoning b" "reasoning_CanMerge a b"
  | (content) a b where "s = Content a" "n = Content b" "content_CanMerge a b"
  | (tool) a b where "s = ToolCall a" "n = ToolCall b" "tool_CanMerge a b"
  | (role) a b where "s = Role a" "n = Role b" "role_CanMerge a b"
  | (rtext) a b where "s = ResponseText a" "n = ResponseText b" "response_text_CanMerge a b"
  | (rreasoning) a b where "s = ResponseReasoning a" "n = ResponseReasoning b"
      "response_reasoning_CanMerge a b"
  | (rtool) a b where "s = ResponseTool a" "n = ResponseTool b" "response_tool_CanMerge a b"
  using assms by (auto simp: CanMerge_def split: segment.splits)

lemma CanMerge_simps [simp]:
  "CanMerge (Reasoning a) (Reasoning b) = reasoning_CanMerge a b"
  "CanMerge (Content c) (Content d) = content_CanMerge c d"
  "CanMerge (ToolCall e) (ToolCall f) = tool_CanMerge e f"
  "CanMerge (Role g) (Role h) = role_CanMerge g h"
  "CanMerge (ResponseText i) (ResponseText j) = response_text_CanMerge i j"
  "CanMerge (ResponseReasoning k) (ResponseReasoning l) = response_reasoning_CanMerge k l"
  "CanMerge (ResponseTool m) (ResponseTool n) = response_tool_CanMerge m n"
  "CanMerge (Finish p) s = False" "CanMerge (Usage q) s = False" "CanMerge (Raw r) s = False"
  "CanMerge (ResponseControl t) s = False"
  by (simp_all add: CanMerge_def)

lemma merged_simps [simp]:
  "merged (Reasoning a) (Reasoning b) = Some (Reasoning (reasoning_Merge a b))"
  "merged (Content c) (Content d) = Some (Content (content_Merge c d))"
  "merged (ToolCall e) (ToolCall f) = map_option ToolCall (tool_Merge e f)"
  "merged (Role g) (Role h) = Some (Role g)"
  "merged (ResponseText i) (ResponseText j) = Some (ResponseText (response_text_Merge i j))"
  "merged (ResponseReasoning k) (ResponseReasoning l) =
     Some (ResponseReasoning (response_reasoning_Merge k l))"
  "merged (ResponseTool m) (ResponseTool n) = Some (ResponseTool (response_tool_Merge m n))"
  by (simp_all add: merged_def)

lemma response_reasoning_CanMerge_iff [simp]:
  "response_reasoning_CanMerge s n \<longleftrightarrow>
     rr_EventType s = rr_EventType n \<and> rr_ItemID s = rr_ItemID n \<and> rr_OutputIndex s = rr_OutputIndex n
     \<and> rr_SummaryIndex s = rr_SummaryIndex n \<and> rr_ContentIndex s = rr_ContentIndex n"
  by (cases "rr_SummaryIndex s"; cases "rr_SummaryIndex n"; cases "rr_ContentIndex s";
      cases "rr_ContentIndex n") (auto simp: response_reasoning_CanMerge_def)

section \<open>What Merge leaves and changes, field by field\<close>

lemma rs_Merge [simp]:
  "rs_Text (reasoning_Merge s n) = rs_Text s @ rs_Text n"
  "rs_ChoiceIndex (reasoning_Merge s n) = rs_ChoiceIndex s"
  "rs_FieldName (reasoning_Merge s n) = rs_FieldName s"
  "rs_Metadata (reasoning_Merge s n) = rs_Metadata s"
  by (simp_all add: reasoning_Merge_def)

lemma cs_Merge [simp]:
  "cs_Text (content_Merge s n) = cs_Text s @ cs_Text n"
  "cs_ChoiceIndex (content_Merge s n) = cs_ChoiceIndex s"
  "cs_Metadata (content_Merge s n) = cs_Metadata s"
  by (simp_all add: content_Merge_def)

lemma rt_Merge [simp]:
  "rt_Delta (response_text_Merge s n) = rt_Delta s @ rt_Delta n"
  "rt_EventType (response_text_Merge s n) = rt_EventType s"
  "rt_ItemID (response_text_Merge s n) = rt_ItemID s"
  "rt_OutputIndex (response_text_Merge s n) = rt_OutputIndex s"
  "rt_ContentIndex (response_text_Merge s n) = rt_ContentIndex s"
  "rt_SequenceNumber (response_text_Merge s n) = rt_SequenceNumber n"
  "rt_Extra (response_text_Merge s n) = put_all (rt_Extra s) (rt_Extra n)"
  "rt_Metadata (response_text_Merge s n) = rt_Metadata s"
  by (simp_all add: response_text_Merge_def Let_def)

lemma rr_Merge [simp]:
  "rr_Delta (response_reasoning_Merge s n) = rr_Delta s @ rr_Delta n"
  "rr_EventType (response_reasoning_Merge s n) = rr_EventType s"
  "rr_ItemID (response_reasoning_Merge s n) = rr_ItemID s"
  "rr_OutputIndex (response_reasoning_Merge s n) = rr_OutputIndex s"
  "rr_SummaryIndex (response_reasoning_Merge s n) = rr_SummaryIndex s"
  "rr_ContentIndex (response_reasoning_Merge s n) = rr_ContentIndex s"
  "rr_SequenceNumber (response_reasoning_Merge s n) = rr_SequenceNumber n"
  "rr_Metadata (response_reasoning_Merge s n) = rr_Metadata s"
  by (simp_all add: response_reasoning_Merge_def Let_def)

lemma rc_Merge [simp]:
  "rc_Delta (response_tool_Merge s n) = rc_Delta s @ rc_Delta n"
  "rc_EventType (response_tool_Merge s n) = rc_EventType s"
  "rc_ItemID (response_tool_Merge s n) = rc_ItemID s"
  "rc_OutputIndex (response_tool_Merge s n) = rc_OutputIndex s"
  "rc_SequenceNumber (response_tool_Merge s n) = rc_SequenceNumber n"
  "rc_Metadata (response_tool_Merge s n) = rc_Metadata s"
  by (simp_all add: response_tool_Merge_def Let_def)

lemma merge_call_simps [simp]:
  "tc_Index (merge_call e c) = tc_Index e"
  "tc_ID (merge_call e c) = (if tc_ID e = [] then tc_ID c else tc_ID e)"
  "tc_Type (merge_call e c) = (if tc_Type e = [] then tc_Type c else tc_Type e)"
  "tc_FunctionName (merge_call e c) = merge_name (tc_FunctionName e) (tc_FunctionName c)"
  "tc_Arguments (merge_call e c) = tc_Arguments e @ tc_Arguments c"
  by (auto simp: merge_call_def Let_def)

section \<open>Tool calls, lookup by lookup\<close>

text \<open>
  A tool-call segment as the parser should build it: \<open>Order\<close> lists each call of \<open>Calls\<close> once.
\<close>

definition tool_ok :: "tool_call_segment \<Rightarrow> bool" where
  "tool_ok s \<longleftrightarrow> distinct (ts_Order s) \<and> distinct (map fst (ts_Calls s))
     \<and> set (ts_Order s) = fst ` set (ts_Calls s)"

definition segment_ok :: "segment \<Rightarrow> bool" where
  "segment_ok s = (case s of ToolCall t \<Rightarrow> tool_ok t | _ \<Rightarrow> True)"

lemma segment_ok_simps [simp]:
  "segment_ok (ToolCall t) = tool_ok t" "segment_ok (Reasoning r) = True"
  "segment_ok (Content c) = True" "segment_ok (Role ro) = True"
  "segment_ok (ResponseText rt) = True" "segment_ok (ResponseReasoning rr) = True"
  "segment_ok (ResponseTool rc) = True" "segment_ok (Raw rw) = True" "segment_ok (Finish f) = True"
  "segment_ok (Usage u) = True" "segment_ok (ResponseControl ct) = True"
  by (simp_all add: segment_ok_def)

abbreviation call_at :: "tool_call_segment \<Rightarrow> int \<Rightarrow> tool_call_accumulator option" where
  "call_at s \<equiv> map_of (ts_Calls s)"

text \<open>The specification of merging one call: keep, take over, or combine.\<close>

fun join_call :: "tool_call_accumulator option \<Rightarrow> tool_call_accumulator option
    \<Rightarrow> tool_call_accumulator option" where
  "join_call None c = c"
| "join_call (Some e) None = Some e"
| "join_call (Some e) (Some c) = Some (merge_call e c)"

lemma join_call_None [simp]: "join_call e None = e"
  by (cases e) auto

lemma merge_one_props:
  "call_at (merge_one s idx c) i = (if i = idx then join_call (call_at s i) (Some c) else call_at s i)"
  "ts_Order (merge_one s idx c) = ts_Order s @ (if call_at s idx = None then [idx] else [])"
  "ts_ChoiceIndex (merge_one s idx c) = ts_ChoiceIndex s"
  "ts_Metadata (merge_one s idx c) = ts_Metadata s"
  "distinct (map fst (ts_Calls s)) \<Longrightarrow> distinct (map fst (ts_Calls (merge_one s idx c)))"
  by (auto simp: merge_one_def update_conv' distinct_update split: option.splits)

lemma merge_order_spec:
  assumes "distinct order" "\<forall>i \<in> set order. map_of nc i \<noteq> None"
  shows "\<exists>s'. merge_order s nc order = Some s'
     \<and> (\<forall>i. call_at s' i = (if i \<in> set order then join_call (call_at s i) (map_of nc i) else call_at s i))
     \<and> ts_Order s' = ts_Order s @ filter (\<lambda>i. call_at s i = None) order
     \<and> ts_ChoiceIndex s' = ts_ChoiceIndex s \<and> ts_Metadata s' = ts_Metadata s
     \<and> (distinct (map fst (ts_Calls s)) \<longrightarrow> distinct (map fst (ts_Calls s')))"
  using assms
proof (induction order arbitrary: s)
  case Nil
  then show ?case by simp
next
  case (Cons idx order)
  then obtain c where c: "map_of nc idx = Some c" by auto
  let ?s = "merge_one s idx c"
  obtain s' where s': "merge_order ?s nc order = Some s'"
    "\<And>i. call_at s' i = (if i \<in> set order then join_call (call_at ?s i) (map_of nc i) else call_at ?s i)"
    "ts_Order s' = ts_Order ?s @ filter (\<lambda>i. call_at ?s i = None) order"
    "ts_ChoiceIndex s' = ts_ChoiceIndex ?s" "ts_Metadata s' = ts_Metadata ?s"
    "distinct (map fst (ts_Calls ?s)) \<longrightarrow> distinct (map fst (ts_Calls s'))"
    using Cons by fastforce
  have "filter (\<lambda>i. call_at ?s i = None) order = filter (\<lambda>i. call_at s i = None) order"
    using Cons.prems(1) by (intro filter_cong) (auto simp: merge_one_props)
  then show ?case using s' c Cons.prems(1) by (auto simp: merge_one_props)
qed

lemma map_of_tool_ok: "tool_ok n \<Longrightarrow> (map_of (ts_Calls n) i \<noteq> None) = (i \<in> set (ts_Order n))"
  by (simp add: tool_ok_def map_of_eq_None_iff)

lemma tool_Merge_spec:
  assumes "tool_ok n"
  obtains s' where "tool_Merge s n = Some s'" "\<And>i. call_at s' i = join_call (call_at s i) (call_at n i)"
    "ts_Order s' = ts_Order s @ filter (\<lambda>i. call_at s i = None) (ts_Order n)"
    "ts_ChoiceIndex s' = ts_ChoiceIndex s" "ts_Metadata s' = ts_Metadata s"
    "distinct (map fst (ts_Calls s)) \<Longrightarrow> distinct (map fst (ts_Calls s'))"
proof -
  have d: "distinct (ts_Order n)" and k: "\<forall>i \<in> set (ts_Order n). call_at n i \<noteq> None"
    using assms map_of_tool_ok [OF assms] by (auto simp: tool_ok_def)
  obtain s' where s': "merge_order s (ts_Calls n) (ts_Order n) = Some s'"
    "\<forall>i. call_at s' i = (if i \<in> set (ts_Order n) then join_call (call_at s i) (call_at n i) else call_at s i)"
    "ts_Order s' = ts_Order s @ filter (\<lambda>i. call_at s i = None) (ts_Order n)"
    "ts_ChoiceIndex s' = ts_ChoiceIndex s" "ts_Metadata s' = ts_Metadata s"
    "distinct (map fst (ts_Calls s)) \<longrightarrow> distinct (map fst (ts_Calls s'))"
    using merge_order_spec [OF d k] by blast
  have "call_at s' i = join_call (call_at s i) (call_at n i)" for i
    using s'(2) map_of_tool_ok [OF assms, of i] by auto
  with s' show ?thesis by (intro that) (auto simp: tool_Merge_def)
qed

lemma map_of_None_fst: "(map_of m i = None) = (i \<notin> fst ` set m)"
  by (rule map_of_eq_None_iff)

lemma tool_Merge_ok:
  assumes "tool_ok s" "tool_ok n" "tool_Merge s n = Some s'"
  shows "tool_ok s'"
proof -
  obtain s'' where s'': "tool_Merge s n = Some s''"
    and look: "\<And>i. call_at s'' i = join_call (call_at s i) (call_at n i)"
    and ord: "ts_Order s'' = ts_Order s @ filter (\<lambda>i. call_at s i = None) (ts_Order n)"
    and dist: "distinct (map fst (ts_Calls s))\<Longrightarrow> distinct (map fst (ts_Calls s''))"
    using tool_Merge_spec [OF assms(2), of s] by blast
  have keys: "i \<in> fst ` set (ts_Calls s'') \<longleftrightarrow> i \<in> set (ts_Order s) \<or> i \<in> set (ts_Order n)" for i
  proof -
    have "call_at s'' i \<noteq> None \<longleftrightarrow> call_at s i \<noteq> None \<or> call_at n i \<noteq> None"
      by (cases "call_at s i"; cases "call_at n i") (simp_all add: look)
    then show ?thesis using map_of_tool_ok [OF assms(1), of i] map_of_tool_ok [OF assms(2), of i]
      by (auto simp: map_of_None_fst)
  qed
  have none: "(call_at s i = None) = (i \<notin> set (ts_Order s))" for i
    using map_of_tool_ok [OF assms(1), of i] by auto
  have "fst ` set (ts_Calls s'') = set (ts_Order s) \<union> set (ts_Order n)"
    using keys by blast
  then have "tool_ok s''"
    using assms(1,2) dist by (auto simp: tool_ok_def ord none)
  with s'' assms(3) show ?thesis by simp
qed

section \<open>Properties\<close>

text \<open>
  Merging tool calls, call by call.  After \<open>tool_Merge\<close> every call index holds the receiver's call,
  the other's, or both combined by \<open>merge_call\<close>; \<open>Order\<close> keeps the receiver's order and then lists the
  new calls in theirs; and the result is well formed.
\<close>
theorem tool_Merge_call_by_call:
  assumes "tool_ok s" "tool_ok n"
  shows "\<exists>s'. tool_Merge s n = Some s' \<and> tool_ok s'
    \<and> (\<forall>i. call_at s' i = join_call (call_at s i) (call_at n i))
    \<and> ts_Order s' = ts_Order s @ filter (\<lambda>i. i \<notin> set (ts_Order s)) (ts_Order n)"
proof -
  obtain s' where s': "tool_Merge s n = Some s'" "\<And>i. call_at s' i = join_call (call_at s i) (call_at n i)"
    "ts_Order s' = ts_Order s @ filter (\<lambda>i. call_at s i = None) (ts_Order n)"
    using tool_Merge_spec [OF assms(2), of s] by blast
  have "(call_at s i = None) = (i \<notin> set (ts_Order s))" for i
    using map_of_tool_ok [OF assms(1), of i] by auto
  with s' tool_Merge_ok [OF assms s'(1)] show ?thesis by simp
qed

text \<open>
  A segment whose \<open>Order\<close> lists a call twice, as the parser builds it from a delta that repeats an
  index, has that call's arguments appended twice by \<open>Merge\<close>.
\<close>
theorem tool_Merge_repeats_duplicate:
  assumes "call_at s i = Some e"
  shows "\<exists>s'. tool_Merge s \<lparr>ts_ChoiceIndex = ch, ts_Order = [i, i], ts_Calls = [(i, c)], ts_Metadata = m\<rparr> = Some s'
    \<and> (\<exists>a. call_at s' i = Some a \<and> tc_Arguments a = tc_Arguments e @ tc_Arguments c @ tc_Arguments c)"
  using assms by (simp add: tool_Merge_def merge_one_def)

text \<open>
  How function names combine.  A longer version replaces the name and an unrelated fragment is
  appended, but a fragment equal to a prefix of the name so far is dropped.
\<close>
theorem merge_name_cases:
  "merge_name e c = (if has_prefix c e then c else if has_prefix e c then e else e @ c)"
  by (auto simp: merge_name_def has_prefix_def)

section \<open>Witnesses\<close>

definition law_meta :: common_metadata where
  "law_meta = \<lparr>md_ID = [], md_Object = [], md_Created = 0, md_Model = [], md_SystemFingerprint = [],
     md_ServiceTier = [], md_Extra = None\<rparr>"

definition law_call :: "int \<Rightarrow> bytes \<Rightarrow> tool_call_accumulator" where
  "law_call i args = \<lparr>tc_Index = i, tc_ID = [], tc_Type = [], tc_FunctionName = [], tc_Arguments = args\<rparr>"

definition law_tool :: "int \<Rightarrow> bytes \<Rightarrow> tool_call_segment" where
  "law_tool i args = \<lparr>ts_ChoiceIndex = 0, ts_Order = [i], ts_Calls = [(i, law_call i args)], ts_Metadata = law_meta\<rparr>"

theorem tool_Merge_call_by_call_witness:
  "\<exists>s'. tool_Merge (law_tool 0 ''{'') (law_tool 1 ''['') = Some s' \<and> tool_ok s'
    \<and> (\<forall>i. call_at s' i = join_call (call_at (law_tool 0 ''{'') i) (call_at (law_tool 1 ''['') i))
    \<and> ts_Order s' = ts_Order (law_tool 0 ''{'')
        @ filter (\<lambda>i. i \<notin> set (ts_Order (law_tool 0 ''{''))) (ts_Order (law_tool 1 ''[''))"
  by (rule tool_Merge_call_by_call) (simp_all add: tool_ok_def law_tool_def)

theorem tool_Merge_repeats_duplicate_witness:
  "\<exists>s'. tool_Merge (law_tool 0 ''{'') \<lparr>ts_ChoiceIndex = 0, ts_Order = [0, 0], ts_Calls = [(0, law_call 0 ''}'')],
       ts_Metadata = law_meta\<rparr> = Some s'
    \<and> (\<exists>a. call_at s' 0 = Some a
         \<and> tc_Arguments a = tc_Arguments (law_call 0 ''{'') @ tc_Arguments (law_call 0 ''}'') @ tc_Arguments (law_call 0 ''}''))"
  by (rule tool_Merge_repeats_duplicate) (simp add: law_tool_def)

end
