(* ===== verification/Coalescing.thy ===== *)
theory Coalescing
  imports Prelude
begin

text \<open>
  The contract between the pending buffer and the values it holds.  The buffer only calls
  \<open>CanMerge\<close>, \<open>Merge\<close> and \<open>BytesLen\<close>; the locale states what it relies on, over an
  observation \<open>view i s\<close> of a value (the sequence a reader of component \<open>i\<close> sees) read modulo a
  normal form \<open>norm\<close>.  \<open>push\<close> is the queue operation of \<open>PendingBuffer.Append\<close>, apart from
  its bookkeeping; the lemmas of the locale say what a sequence of pushes does to the queue.
\<close>

definition push :: "('s \<Rightarrow> 's \<Rightarrow> bool) \<Rightarrow> ('s \<Rightarrow> 's \<Rightarrow> 's option) \<Rightarrow> 's list \<Rightarrow> 's \<Rightarrow> 's list option" where
  "push can_merge merge xs s =
     (if 0 < length xs \<and> can_merge (last xs) s
      then map_option (\<lambda>l. butlast xs @ [l]) (merge (last xs) s)
      else Some (xs @ [s]))"

text \<open>No element absorbs its successor.\<close>

fun coalesced :: "('s \<Rightarrow> 's \<Rightarrow> bool) \<Rightarrow> 's list \<Rightarrow> bool" where
  "coalesced can_merge (x # y # xs) \<longleftrightarrow> \<not> can_merge x y \<and> coalesced can_merge (y # xs)"
| "coalesced can_merge _ \<longleftrightarrow> True"

lemma coalesced_snoc:
  "coalesced c (xs @ [y]) \<longleftrightarrow> coalesced c xs \<and> (xs = [] \<or> \<not> c (last xs) y)"
  by (induction c xs rule: coalesced.induct) auto

lemma coalesced_butlast: "coalesced c xs \<Longrightarrow> coalesced c (butlast xs)"
  by (induction c xs rule: coalesced.induct) (auto simp: neq_Nil_conv)

text \<open>
  \<open>gathered out sent\<close>: \<open>out\<close> results from pushing \<open>sent\<close>, where at any time the elements so far, or some of
  them from the front, may have been taken out of the queue.
\<close>

inductive gathered :: "('s \<Rightarrow> 's \<Rightarrow> bool) \<Rightarrow> ('s \<Rightarrow> 's \<Rightarrow> 's option) \<Rightarrow> 's list \<Rightarrow> 's list \<Rightarrow> bool"
  for can_merge merge where
  gathered_Nil: "gathered can_merge merge [] []"
| gathered_push: "gathered can_merge merge (us @ xs) sent \<Longrightarrow> push can_merge merge xs s = Some ys
    \<Longrightarrow> gathered can_merge merge (us @ ys) (sent @ [s])"

locale coalescing =
  fixes can_merge :: "'s \<Rightarrow> 's \<Rightarrow> bool"
    and merge :: "'s \<Rightarrow> 's \<Rightarrow> 's option"
    and ok :: "'s \<Rightarrow> bool"
    and weight :: "'s \<Rightarrow> int"
    and view :: "'i \<Rightarrow> 's \<Rightarrow> 'a list"
    and norm :: "'a list \<Rightarrow> 'a list"
  assumes merge_some: "ok s \<Longrightarrow> ok n \<Longrightarrow> can_merge s n \<Longrightarrow> \<exists>s'. merge s n = Some s'"
    and merge_keeps: "ok s \<Longrightarrow> ok n \<Longrightarrow> can_merge s n \<Longrightarrow> merge s n = Some s' \<Longrightarrow> ok s'"
    and weight_grows: "ok s \<Longrightarrow> ok n \<Longrightarrow> can_merge s n \<Longrightarrow> merge s n = Some s' \<Longrightarrow> weight s \<le> weight s'"
    and weight_sub: "ok s \<Longrightarrow> ok n \<Longrightarrow> can_merge s n \<Longrightarrow> merge s n = Some s'
      \<Longrightarrow> weight s' \<le> weight s + weight n"
    and weight_pos: "0 \<le> weight s"
    and barrier_stays: "ok s \<Longrightarrow> ok n \<Longrightarrow> can_merge s n \<Longrightarrow> merge s n = Some s' \<Longrightarrow> \<not> can_merge p s
      \<Longrightarrow> \<not> can_merge p s'"
    and view_merge: "ok s \<Longrightarrow> ok n \<Longrightarrow> can_merge s n \<Longrightarrow> merge s n = Some s'
      \<Longrightarrow> norm (view i s') = norm (view i s @ view i n)"
    and norm_cong: "norm xs = norm ys \<Longrightarrow> norm (us @ xs @ vs) = norm (us @ ys @ vs)"
begin

definition total :: "'s list \<Rightarrow> int" where
  "total xs = sum_list (map weight xs)"

definition observed :: "'i \<Rightarrow> 's list \<Rightarrow> 'a list" where
  "observed i xs = norm (concat (map (view i) xs))"

lemma push_Some:
  assumes "list_all ok xs" "ok s"
  obtains ys where "push can_merge merge xs s = Some ys" "ys \<noteq> []"
proof (cases "0 < length xs \<and> can_merge (last xs) s")
  case True
  then have "ok (last xs)" using assms(1) by (auto simp: list_all_iff)
  with True assms(2) obtain l where "merge (last xs) s = Some l" using merge_some by blast
  with True that show ?thesis by (auto simp: push_def)
qed (auto simp: push_def intro: that)

lemma push_cases:
  assumes "push can_merge merge xs s = Some ys" "list_all ok xs" "ok s"
  obtains (joined) zs l l' where "xs = zs @ [l]" "can_merge l s" "merge l s = Some l'"
      "ys = zs @ [l']" "ok l"
  | (queued) "ys = xs @ [s]" "xs = [] \<or> \<not> can_merge (last xs) s"
proof (cases "0 < length xs \<and> can_merge (last xs) s")
  case True
  then obtain l' where "merge (last xs) s = Some l'" "ys = butlast xs @ [l']"
    using assms(1) by (auto simp: push_def)
  moreover have "ok (last xs)" using True assms(2) by (auto simp: list_all_iff)
  ultimately show ?thesis using True joined [of "butlast xs" "last xs" l'] by simp
next
  case False
  with assms(1) queued show ?thesis by (auto simp: push_def)
qed

lemma push_ok:
  assumes "push can_merge merge xs s = Some ys" "list_all ok xs" "ok s"
  shows "list_all ok ys"
  using assms
proof (cases rule: push_cases)
  case (joined zs l l')
  have "ok l'" by (rule merge_keeps [OF joined(5) assms(3) joined(2,3)])
  with joined(1,4) assms(2) show ?thesis by simp
next
  case queued
  with assms(2,3) show ?thesis by simp
qed

lemma push_total:
  assumes "push can_merge merge xs s = Some ys" "list_all ok xs" "ok s"
  shows "total xs \<le> total ys \<and> total ys \<le> total xs + weight s"
  using assms
proof (cases rule: push_cases)
  case (joined zs l l')
  have "weight l \<le> weight l'" by (rule weight_grows [OF joined(5) assms(3) joined(2,3)])
  moreover have "weight l' \<le> weight l + weight s" by (rule weight_sub [OF joined(5) assms(3) joined(2,3)])
  ultimately show ?thesis using joined(1,4) by (simp add: total_def)
next
  case queued
  with weight_pos [of s] show ?thesis by (simp add: total_def)
qed

lemma push_coalesced:
  assumes "push can_merge merge xs s = Some ys" "list_all ok xs" "ok s" "coalesced can_merge xs"
  shows "coalesced can_merge ys"
  using assms(1-3)
proof (cases rule: push_cases)
  case (joined zs l l')
  have "\<not> can_merge p l'" if "\<not> can_merge p l" for p
    by (rule barrier_stays [OF joined(5) assms(3) joined(2,3) that])
  with joined(1,4) assms(4) show ?thesis by (auto simp: coalesced_snoc)
next
  case queued
  with assms(4) show ?thesis by (auto simp: coalesced_snoc)
qed

lemma push_observed:
  assumes "push can_merge merge xs s = Some ys" "list_all ok xs" "ok s"
  shows "observed i ys = observed i (xs @ [s])"
  using assms
proof (cases rule: push_cases)
  case (joined zs l l')
  have "norm (view i l') = norm (view i l @ view i s)"
    by (rule view_merge [OF joined(5) assms(3) joined(2,3)])
  from norm_cong [OF this, of "concat (map (view i) zs)" "[]"] joined(1,4) show ?thesis
    by (simp add: observed_def)
qed (simp add: observed_def)

lemma gathered_observed:
  "gathered can_merge merge out sent \<Longrightarrow> list_all ok sent \<Longrightarrow>
   list_all ok out \<and> observed i out = observed i sent"
proof (induction rule: gathered.induct)
  case (gathered_push us xs sent s ys)
  then have ok: "list_all ok us" "list_all ok xs" "ok s" and eq: "observed i (us @ xs) = observed i sent" by simp_all
  have "norm (concat (map (view i) ys)) = norm (concat (map (view i) (xs @ [s])))"
    using push_observed [OF gathered_push.hyps(2) ok(2,3)] by (simp only: observed_def)
  from norm_cong [OF this, of "concat (map (view i) us)" "[]"]
  have "observed i (us @ ys) = norm (concat (map (view i) (us @ xs)) @ view i s)"
    by (simp add: observed_def)
  also have "\<dots> = norm (concat (map (view i) sent) @ view i s)"
    using norm_cong [of "concat (map (view i) (us @ xs))" "concat (map (view i) sent)" "[]" "view i s"] eq
    by (simp add: observed_def)
  finally show ?case using push_ok [OF gathered_push.hyps(2) ok(2,3)] ok(1) by (simp add: observed_def)
qed (simp add: observed_def)

lemma push_length:
  assumes "push can_merge merge xs s = Some ys" "list_all ok xs" "ok s"
  shows "length xs \<le> length ys" "length ys \<le> Suc (length xs)"
  by (cases rule: push_cases [OF assms]; simp)+

end

end
