(* ===== verification/Segment_View.thy ===== *)
theory Segment_View
  imports Segment_Laws Coalescing
begin

text \<open>
  What a stream of segments carries, whatever the boundaries between the segments: each byte of a
  text, reasoning or tool-argument channel is an atom, each role announcement is a mark, and each
  segment of another type is one atom by itself.  Tool calls of one segment run in parallel, so
  they are observed one call index at a time.  Merging concatenates observations (a repeated role
  mark counts once); with the size bounds this is the contract \<open>coalescing\<close>.
\<close>

section \<open>Size\<close>

lemma length_merge_name:
  "length e \<le> length (merge_name e c)" "length (merge_name e c) \<le> length e + length c"
  by (auto simp: merge_name_def dest!: has_prefixE)

lemma merge_call_BytesLen:
  "call_BytesLen e \<le> call_BytesLen (merge_call e c)"
  "call_BytesLen (merge_call e c) \<le> call_BytesLen e + call_BytesLen c"
  using length_merge_name [of "tc_FunctionName e" "tc_FunctionName c"]
  by (auto simp: call_BytesLen_def)

lemma call_BytesLen_pos: "32 \<le> call_BytesLen c"
  by (simp add: call_BytesLen_def)

lemma merge_one_BytesLen:
  assumes "distinct (map fst (ts_Calls s))"
  shows "tool_BytesLen s \<le> tool_BytesLen (merge_one s idx c)"
    "tool_BytesLen (merge_one s idx c) \<le> tool_BytesLen s + call_BytesLen c"
proof (atomize (full), cases "call_at s idx")
  case None
  with call_BytesLen_pos [of c] show "tool_BytesLen s \<le> tool_BytesLen (merge_one s idx c)
      \<and> tool_BytesLen (merge_one s idx c) \<le> tool_BytesLen s + call_BytesLen c"
    by (simp add: merge_one_def tool_BytesLen_def map_of_none_sum)
next
  case (Some e)
  with assms merge_call_BytesLen [of e c] show "tool_BytesLen s \<le> tool_BytesLen (merge_one s idx c)
      \<and> tool_BytesLen (merge_one s idx c) \<le> tool_BytesLen s + call_BytesLen c"
    by (simp add: merge_one_def tool_BytesLen_def map_of_distinct_sum)
qed

lemma merge_order_BytesLen:
  assumes "merge_order s nc order = Some s'" "distinct (map fst (ts_Calls s))"
  shows "tool_BytesLen s \<le> tool_BytesLen s'
     \<and> tool_BytesLen s' \<le> tool_BytesLen s + sum_list (map (\<lambda>i. call_BytesLen (the (map_of nc i))) order)"
  using assms
proof (induction order arbitrary: s)
  case (Cons idx order)
  then obtain c where c: "map_of nc idx = Some c" by (auto split: option.splits)
  have "tool_BytesLen (merge_one s idx c) \<le> tool_BytesLen s'
     \<and> tool_BytesLen s' \<le> tool_BytesLen (merge_one s idx c)
         + sum_list (map (\<lambda>i. call_BytesLen (the (map_of nc i))) order)"
    using Cons c by (intro Cons.IH) (auto simp: merge_one_props)
  with merge_one_BytesLen [OF Cons.prems(2), of idx c] c show ?case by auto
qed simp

lemma sum_over_Order:
  assumes "tool_ok n"
  shows "sum_list (map (\<lambda>i. call_BytesLen (the (call_at n i))) (ts_Order n))
       = sum_list (map (\<lambda>(i, c). call_BytesLen c) (ts_Calls n))"
proof -
  have d: "distinct (ts_Order n)" "distinct (map fst (ts_Calls n))"
    and e: "set (ts_Order n) = set (map fst (ts_Calls n))"
    using assms by (auto simp: tool_ok_def)
  have "sum_list (map (\<lambda>i. call_BytesLen (the (call_at n i))) (ts_Order n))
      = sum_list (map (\<lambda>i. call_BytesLen (the (call_at n i))) (map fst (ts_Calls n)))"
    using d e by (simp add: sum_list_distinct_conv_sum_set del: map_map)
  also have "\<dots> = sum_list (map (\<lambda>(i, c). call_BytesLen c) (ts_Calls n))"
    using d(2) by (auto intro!: arg_cong [where f = sum_list] map_cong split: prod.splits)
  finally show ?thesis .
qed

lemma tool_Merge_BytesLen:
  assumes "tool_ok s" "tool_ok n" "tool_Merge s n = Some s'"
  shows "tool_BytesLen s \<le> tool_BytesLen s'" "tool_BytesLen s' \<le> tool_BytesLen s + tool_BytesLen n"
  using merge_order_BytesLen [of s "ts_Calls n" "ts_Order n" s'] sum_over_Order [OF assms(2)] assms
  by (auto simp: tool_Merge_def tool_ok_def tool_BytesLen_def)

lemma tool_BytesLen_pos: "128 \<le> tool_BytesLen s"
  by (auto simp: tool_BytesLen_def call_BytesLen_def intro!: sum_list_nonneg)

lemma BytesLen_pos: "0 \<le> BytesLen s"
proof (cases s)
  case (ToolCall t)
  with tool_BytesLen_pos [of t] show ?thesis by simp
qed simp_all

section \<open>Merging as the buffer uses it\<close>

lemma merged_Some:
  assumes "segment_ok s" "segment_ok n" "CanMerge s n"
  shows "\<exists>s'. merged s n = Some s'"
  using assms(3)
proof (cases rule: CanMerge_cases)
  case (tool a b)
  then have "tool_ok b" using assms by simp
  then obtain t where "tool_Merge a b = Some t" by (rule tool_Merge_spec)
  with tool show ?thesis by simp
qed simp_all

lemma merged_ok:
  assumes "segment_ok s" "segment_ok n" "CanMerge s n" "merged s n = Some s'"
  shows "segment_ok s'"
  using assms(3)
proof (cases rule: CanMerge_cases)
  case (tool a b)
  with assms show ?thesis by (auto intro: tool_Merge_ok)
qed (use assms(4) in auto)

lemma merged_BytesLen:
  assumes "segment_ok s" "segment_ok n" "CanMerge s n" "merged s n = Some s'"
  shows "BytesLen s \<le> BytesLen s' \<and> BytesLen s' \<le> BytesLen s + BytesLen n"
  using assms(3)
proof (cases rule: CanMerge_cases)
  case (tool a b)
  with assms show ?thesis using tool_Merge_BytesLen by auto
qed (use assms(4) in auto)

lemma merged_Type: "merged s n = Some s' \<Longrightarrow> seg_Type s' = seg_Type s"
  by (cases s; cases n) (auto simp: merged_def)

lemma tool_conflict_stays:
  assumes "tool_ok s" "tool_ok n" "tool_Merge s n = Some s'" "tool_CanMerge s n" "\<not> tool_CanMerge p s"
  shows "\<not> tool_CanMerge p s'"
proof -
  obtain s'' where s'': "tool_Merge s n = Some s''"
    and look: "\<And>i. call_at s'' i = join_call (call_at s i) (call_at n i)"
    and ch: "ts_ChoiceIndex s'' = ts_ChoiceIndex s"
    and dist: "distinct (map fst (ts_Calls s)) \<Longrightarrow> distinct (map fst (ts_Calls s''))"
    using tool_Merge_spec [OF assms(2), of s] by blast
  show ?thesis
  proof (cases "ts_ChoiceIndex p = ts_ChoiceIndex s")
    case False
    with ch s'' assms(3) show ?thesis by (simp add: tool_CanMerge_def)
  next
    case True
    with assms(5) obtain i c e where c: "(i, c) \<in> set (ts_Calls s)" "call_at p i = Some e" "ids_conflict e c"
      by (auto simp: tool_CanMerge_def list_all_iff split: option.splits)
    then have "call_at s i = Some c" using assms(1) by (auto simp: tool_ok_def)
    then obtain c' where c': "call_at s'' i = Some c'" "tc_ID c' = tc_ID c"
      using c(3) by (cases "call_at n i") (auto simp: look ids_conflict_def)
    then have "(i, c') \<in> set (ts_Calls s'')" "ids_conflict e c'"
      using c(3) by (auto simp: ids_conflict_def dest: map_of_SomeD)
    with c(2) have "\<not> tool_CanMerge p s''"
      unfolding tool_CanMerge_def list_all_iff by (intro notI) (drule conjunct2, drule (1) bspec, simp)
    with s'' assms(3) show ?thesis by simp
  qed
qed

lemma CanMerge_right:
  "CanMerge p (Reasoning s) \<longleftrightarrow> (\<exists>q. p = Reasoning q \<and> reasoning_CanMerge q s)"
  "CanMerge p (Content c) \<longleftrightarrow> (\<exists>q. p = Content q \<and> content_CanMerge q c)"
  "CanMerge p (ToolCall t) \<longleftrightarrow> (\<exists>q. p = ToolCall q \<and> tool_CanMerge q t)"
  "CanMerge p (Role r) \<longleftrightarrow> (\<exists>q. p = Role q \<and> role_CanMerge q r)"
  "CanMerge p (ResponseText rt) \<longleftrightarrow> (\<exists>q. p = ResponseText q \<and> response_text_CanMerge q rt)"
  "CanMerge p (ResponseReasoning rr) \<longleftrightarrow>
     (\<exists>q. p = ResponseReasoning q \<and> response_reasoning_CanMerge q rr)"
  "CanMerge p (ResponseTool rc) \<longleftrightarrow> (\<exists>q. p = ResponseTool q \<and> response_tool_CanMerge q rc)"
  by (cases p; simp add: CanMerge_def)+

lemma merged_barrier_stays:
  assumes "segment_ok s" "segment_ok n" "CanMerge s n" "merged s n = Some s'" "\<not> CanMerge p s"
  shows "\<not> CanMerge p s'"
  using assms(3)
proof (cases rule: CanMerge_cases)
  case (tool a b)
  with assms obtain t where t: "tool_Merge a b = Some t" "s' = ToolCall t" by auto
  with tool assms show ?thesis using tool_conflict_stays [of a b t] by (auto simp: CanMerge_right)
next
  case reasoning
  with assms(4,5) show ?thesis by (auto simp: CanMerge_right reasoning_CanMerge_def)
next
  case content
  with assms(4,5) show ?thesis by (auto simp: CanMerge_right content_CanMerge_def)
next
  case role
  with assms(4,5) show ?thesis by auto
next
  case rtext
  with assms(4,5) show ?thesis by (auto simp: CanMerge_right response_text_CanMerge_def)
next
  case rreasoning
  with assms(4,5) show ?thesis by (auto simp: CanMerge_right)
next
  case rtool
  with assms(4,5) show ?thesis by (auto simp: CanMerge_right response_tool_CanMerge_def)
qed

section \<open>Observations\<close>

datatype channel =
    ChReasoning int bytes
  | ChContent int
  | ChArguments int int
  | ChText bytes bytes int int
  | ChThought bytes bytes int "int option" "int option"
  | ChToolDelta bytes bytes int

datatype atom = Byte channel char | RoleMark int bytes | Whole segment

text \<open>\<open>view i s\<close>: what \<open>s\<close> carries, of its tool calls only call \<open>i\<close>.\<close>

fun view :: "int \<Rightarrow> segment \<Rightarrow> atom list" where
  "view i (Reasoning s) = map (Byte (ChReasoning (rs_ChoiceIndex s) (rs_FieldName s))) (rs_Text s)"
| "view i (Content s) = map (Byte (ChContent (cs_ChoiceIndex s))) (cs_Text s)"
| "view i (ToolCall s) =
     (case call_at s i of None \<Rightarrow> []
      | Some c \<Rightarrow> map (Byte (ChArguments (ts_ChoiceIndex s) i)) (tc_Arguments c))"
| "view i (Role s) = [RoleMark (ro_ChoiceIndex s) (ro_Role s)]"
| "view i (ResponseText s) =
     map (Byte (ChText (rt_EventType s) (rt_ItemID s) (rt_OutputIndex s) (rt_ContentIndex s))) (rt_Delta s)"
| "view i (ResponseReasoning s) =
     map (Byte (ChThought (rr_EventType s) (rr_ItemID s) (rr_OutputIndex s) (rr_ContentIndex s)
       (rr_SummaryIndex s))) (rr_Delta s)"
| "view i (ResponseTool s) =
     map (Byte (ChToolDelta (rc_EventType s) (rc_ItemID s) (rc_OutputIndex s))) (rc_Delta s)"
| "view i s = [Whole s]"

fun is_mark :: "atom \<Rightarrow> bool" where
  "is_mark (RoleMark c r) = True"
| "is_mark a = False"

text \<open>The normal form of an observation: a role mark repeated at once is one mark.\<close>

fun collapse :: "atom list \<Rightarrow> atom list" where
  "collapse (a # b # xs) = (if is_mark a \<and> a = b then collapse (b # xs) else a # collapse (b # xs))"
| "collapse xs = xs"

lemma hd_collapse: "collapse (a # xs) \<noteq> [] \<and> hd (collapse (a # xs)) = a"
  by (induction xs arbitrary: a) auto

lemma collapse_Cons: "collapse (a # xs) =
  (case collapse xs of [] \<Rightarrow> [a] | b # ys \<Rightarrow> if is_mark a \<and> a = b then b # ys else a # b # ys)"
proof (cases xs)
  case (Cons b ys)
  with hd_collapse [of b ys] show ?thesis by (cases "collapse (b # ys)") auto
qed simp

lemma collapse_append: "collapse (xs @ ys) = collapse (xs @ collapse ys)"
proof (induction xs)
  case Nil
  show ?case by (induction ys rule: collapse.induct) (auto simp: collapse_Cons split: list.splits)
next
  case (Cons x xs)
  then show ?case by (simp add: collapse_Cons)
qed

lemma collapse_append_left: "collapse (xs @ ys) = collapse (collapse xs @ ys)"
proof (induction xs rule: collapse.induct)
  case (1 a b xs)
  then show ?case by (auto simp: collapse_Cons split: list.splits)
qed simp_all

lemma collapse_cong:
  assumes "collapse xs = collapse ys"
  shows "collapse (us @ xs @ vs) = collapse (us @ ys @ vs)"
  using assms collapse_append [of us "xs @ vs"] collapse_append [of us "ys @ vs"]
    collapse_append_left [of xs vs] collapse_append_left [of ys vs] by simp

lemma merged_view:
  assumes "segment_ok s" "segment_ok n" "CanMerge s n" "merged s n = Some s'"
  shows "collapse (view i s') = collapse (view i s @ view i n)"
  using assms(3)
proof (cases rule: CanMerge_cases)
  case (tool a b)
  with assms obtain t where t: "tool_Merge a b = Some t" "s' = ToolCall t" by auto
  obtain t' where t': "tool_Merge a b = Some t'" "call_at t' i = join_call (call_at a i) (call_at b i)"
    "ts_ChoiceIndex t' = ts_ChoiceIndex a"
    using tool_Merge_spec [of b a] tool assms(2) by (metis segment_ok_simps(1))
  have "ts_ChoiceIndex a = ts_ChoiceIndex b" using tool by (simp add: tool_CanMerge_def)
  with t t' tool show ?thesis
    by (cases "call_at a i"; cases "call_at b i") simp_all
qed (use assms(4) in \<open>auto simp: reasoning_CanMerge_def content_CanMerge_def role_CanMerge_def
  response_text_CanMerge_def response_tool_CanMerge_def\<close>)

interpretation seg: coalescing CanMerge merged segment_ok BytesLen view collapse
proof unfold_locales
  fix s n s' p :: segment and i and us vs xs ys :: "atom list"
  show "0 \<le> BytesLen s" by (rule BytesLen_pos)
  show "collapse (us @ xs @ vs) = collapse (us @ ys @ vs)" if "collapse xs = collapse ys"
    using that by (rule collapse_cong)
  assume a: "segment_ok s" "segment_ok n" "CanMerge s n"
  show "\<exists>s'. merged s n = Some s'" using a by (rule merged_Some)
  assume m: "merged s n = Some s'"
  show "segment_ok s'" using a m by (rule merged_ok)
  show "BytesLen s \<le> BytesLen s'" "BytesLen s' \<le> BytesLen s + BytesLen n"
    using merged_BytesLen [OF a m] by simp_all
  show "collapse (view i s') = collapse (view i s @ view i n)" using a m by (rule merged_view)
  show "\<not> CanMerge p s'" if "\<not> CanMerge p s" using a m that by (rule merged_barrier_stays)
qed

text \<open>\<open>carried i segs\<close>: what a run of segments carries.\<close>

definition carried :: "int \<Rightarrow> segment list \<Rightarrow> atom list" where
  "carried i segs = collapse (concat (map (view i) segs))"

lemma carried_observed: "carried i segs = seg.observed i segs"
  by (simp add: carried_def seg.observed_def)

lemma gathered_carried:
  "gathered CanMerge merged out sent \<Longrightarrow> list_all segment_ok sent \<Longrightarrow>
   list_all segment_ok out \<and> carried i out = carried i sent"
  by (simp add: carried_observed seg.gathered_observed)

section \<open>Properties\<close>

text \<open>
  C26: \<open>Merge\<close> is correct for every segment type.  It refuses exactly when \<open>CanMerge\<close> does, leaving the
  receiver alone; otherwise, on well-formed segments, it returns without panic a well-formed segment of
  the same type that carries what the two carried, one after the other, and whose \<open>BytesLen\<close> lies
  between the receiver's and the sum of both.
\<close>
theorem Merge_correct:
  assumes "segment_ok s" "segment_ok n"
  shows "if CanMerge s n
    then \<exists>s'. Merge s n = Some (True, s') \<and> segment_ok s' \<and> seg_Type s' = seg_Type s
           \<and> (\<forall>i. carried i [s'] = carried i [s, n])
           \<and> BytesLen s \<le> BytesLen s' \<and> BytesLen s' \<le> BytesLen s + BytesLen n
    else Merge s n = Some (False, s)"
proof (cases "CanMerge s n")
  case True
  obtain s' where s': "merged s n = Some s'" using merged_Some [OF assms True] by blast
  have "carried i [s'] = carried i [s, n]" for i
    using merged_view [OF assms True s'] by (simp add: carried_def)
  with True s' merged_ok [OF assms True s'] merged_Type [OF s'] merged_BytesLen [OF assms True s'] show ?thesis
    by (simp add: Merge_def)
qed (simp add: Merge_def)

text \<open>
  Merging never opens a boundary that was closed: what could not be merged into an earlier segment
  still cannot after it has absorbed more, so the greedy merging of the buffer misses nothing.
\<close>
theorem Merge_keeps_barriers:
  assumes "segment_ok s" "segment_ok n" "CanMerge s n" "\<not> CanMerge p s"
  shows "\<exists>s'. Merge s n = Some (True, s') \<and> \<not> CanMerge p s'"
proof -
  obtain s' where s': "merged s n = Some s'" using merged_Some [OF assms(1-3)] by blast
  with merged_barrier_stays [OF assms(1-3) s' assms(4)] assms(3) show ?thesis by (simp add: Merge_def)
qed

section \<open>Witnesses\<close>

definition view_meta :: common_metadata where
  "view_meta = \<lparr>md_ID = [], md_Object = [], md_Created = 0, md_Model = [], md_SystemFingerprint = [],
     md_ServiceTier = [], md_Extra = None\<rparr>"

definition view_tool :: "bytes \<Rightarrow> bytes \<Rightarrow> tool_call_segment" where
  "view_tool ident args = \<lparr>ts_ChoiceIndex = 0, ts_Order = [0],
     ts_Calls = [(0, \<lparr>tc_Index = 0, tc_ID = ident, tc_Type = [], tc_FunctionName = [], tc_Arguments = args\<rparr>)],
     ts_Metadata = view_meta\<rparr>"

lemma view_tool_ok [simp]: "tool_ok (view_tool ident args)"
  by (simp add: tool_ok_def view_tool_def)

theorem Merge_correct_witness:
  "\<exists>s'. Merge (ToolCall (view_tool ''a'' ''{'')) (ToolCall (view_tool [] ''}'')) = Some (True, s')
     \<and> segment_ok s' \<and> seg_Type s' = seg_Type (ToolCall (view_tool ''a'' ''{''))
     \<and> (\<forall>i. carried i [s'] = carried i [ToolCall (view_tool ''a'' ''{''), ToolCall (view_tool [] ''}'')])
     \<and> BytesLen (ToolCall (view_tool ''a'' ''{'')) \<le> BytesLen s'
     \<and> BytesLen s' \<le> BytesLen (ToolCall (view_tool ''a'' ''{'')) + BytesLen (ToolCall (view_tool [] ''}''))"
proof -
  have "CanMerge (ToolCall (view_tool ''a'' ''{'')) (ToolCall (view_tool [] ''}''))"
    by (simp add: tool_CanMerge_def view_tool_def ids_conflict_def)
  then show ?thesis
    using Merge_correct [of "ToolCall (view_tool ''a'' ''{'')" "ToolCall (view_tool [] ''}'')"] by simp
qed

theorem Merge_keeps_barriers_witness:
  "\<exists>s'. Merge (ToolCall (view_tool ''a'' ''{'')) (ToolCall (view_tool [] ''}'')) = Some (True, s')
     \<and> \<not> CanMerge (ToolCall (view_tool ''b'' [])) s'"
  by (rule Merge_keeps_barriers) (simp_all, simp_all add: tool_CanMerge_def view_tool_def ids_conflict_def)

end
