(* ===== verification/Bufio.thy ===== *)
theory Bufio
  imports Go_Bytes
begin

text \<open>
  Go's \<open>bufio.Reader\<close> as far as \<open>sse.Reader\<close> uses it, with its buffer as an explicit store:
  \<open>ReadLine\<close> returns a slice of the buffer, that is a pair of positions, and a later read may
  overwrite the bytes the slice points at.  The underlying \<open>io.Reader\<close> is the list of the chunks
  its successive \<open>Read\<close> calls deliver, then an error that it keeps returning.
\<close>

section \<open>State\<close>

datatype io_error = EOF | NoProgress | IOError bytes

record bufrd =
  store :: bytes \<comment> \<open>\<open>b.buf\<close>, of constant length\<close>
  rpos :: nat
  wpos :: nat
  rerr :: "io_error option"
  chunks :: "bytes list"
  final :: io_error

definition new_reader :: "nat \<Rightarrow> bytes list \<Rightarrow> io_error \<Rightarrow> bufrd" where
  "new_reader sz cs e =
     \<lparr>store = replicate sz (chr 0), rpos = 0, wpos = 0, rerr = None, chunks = cs, final = e\<rparr>"

type_synonym slice = "nat \<times> nat"

definition deref :: "bufrd \<Rightarrow> slice \<Rightarrow> bytes" where
  "deref b s = take (snd s - fst s) (drop (fst s) (store b))"

definition pending :: "bufrd \<Rightarrow> bytes" where
  "pending b = deref b (rpos b, wpos b)"

text \<open>All the bytes still to come, buffered or not.\<close>

definition stream :: "bufrd \<Rightarrow> bytes" where
  "stream b = pending b @ concat (chunks b)"

section \<open>fill, ReadSlice, ReadLine\<close>

definition slide :: "bufrd \<Rightarrow> bufrd" where
  "slide b = (if 0 < rpos b
     then b\<lparr>store := pending b @ drop (wpos b - rpos b) (store b),
            wpos := wpos b - rpos b, rpos := 0\<rparr>
     else b)"

fun fill_read :: "nat \<Rightarrow> bufrd \<Rightarrow> bufrd" where
  "fill_read 0 b = b\<lparr>rerr := Some NoProgress\<rparr>"
| "fill_read (Suc i) b =
     (case chunks b of
        [] \<Rightarrow> b\<lparr>rerr := Some (final b)\<rparr>
      | c # cs \<Rightarrow>
          if c = [] then fill_read i (b\<lparr>chunks := cs\<rparr>)
          else let n = min (length c) (length (store b) - wpos b)
               in b\<lparr>store := take (wpos b) (store b) @ take n c @ drop (wpos b + n) (store b),
                    wpos := wpos b + n,
                    chunks := (if n < length c then drop n c # cs else cs)\<rparr>)"

definition fill :: "bufrd \<Rightarrow> bufrd" where
  "fill b = fill_read 100 (slide b)"

datatype slice_error = BufferFull | SliceError io_error

partial_function (option) read_slice :: "bufrd \<Rightarrow> (slice \<times> slice_error option \<times> bufrd) option" where
  "read_slice b =
     (case index_byte (pending b) nl of
        Some i \<Rightarrow> Some ((rpos b, rpos b + i + 1), None, b\<lparr>rpos := rpos b + i + 1\<rparr>)
      | None \<Rightarrow>
          (case rerr b of
             Some e \<Rightarrow> Some ((rpos b, wpos b), Some (SliceError e), b\<lparr>rpos := wpos b, rerr := None\<rparr>)
           | None \<Rightarrow>
               if length (store b) \<le> wpos b - rpos b
               then Some ((0, length (store b)), Some BufferFull, b\<lparr>rpos := wpos b\<rparr>)
               else read_slice (fill b)))"

text \<open>\<open>ReadLine\<close>: the line as a slice with \<open>isPrefix\<close>, or an error.\<close>

datatype line_result = Line slice bool | LineError io_error

definition read_line :: "bufrd \<Rightarrow> (line_result \<times> bufrd) option" where
  "read_line b =
     (case read_slice b of
        None \<Rightarrow> None
      | Some ((lo, hi), err, b') \<Rightarrow>
          (case err of
             Some BufferFull \<Rightarrow>
               if lo < hi \<and> store b' ! (hi - 1) = cr
               then Some (Line (lo, hi - 1) True, b'\<lparr>rpos := rpos b' - 1\<rparr>)
               else Some (Line (lo, hi) True, b')
           | _ \<Rightarrow>
               if lo = hi
               then (case err of Some (SliceError e) \<Rightarrow> Some (LineError e, b')
                     | _ \<Rightarrow> Some (Line (lo, hi) False, b'))
               else if store b' ! (hi - 1) = nl
               then (if lo + 1 < hi \<and> store b' ! (hi - 2) = cr
                     then Some (Line (lo, hi - 2) False, b')
                     else Some (Line (lo, hi - 1) False, b'))
               else Some (Line (lo, hi) False, b')))"

section \<open>Lines of a byte stream\<close>

definition strip_cr :: "bytes \<Rightarrow> bytes" where
  "strip_cr l = (if l \<noteq> [] \<and> last l = cr then butlast l else l)"

definition lines_of :: "bytes \<Rightarrow> bytes list" where
  "lines_of s = (let ps = split_on nl s
                 in map strip_cr (butlast ps) @ (if last ps = [] then [] else [last ps]))"

definition short_lines :: "nat \<Rightarrow> bytes \<Rightarrow> bool" where
  "short_lines sz s \<longleftrightarrow> (\<forall>p \<in> set (split_on nl s). length p < sz)"

lemma lines_of_Nil [simp]: "lines_of [] = []"
  by (simp add: lines_of_def)

lemma lines_of_line: "nl \<notin> set l \<Longrightarrow> lines_of (l @ nl # t) = strip_cr l # lines_of t"
  by (simp add: lines_of_def split_on_append Let_def)

lemma lines_of_last: "nl \<notin> set l \<Longrightarrow> l \<noteq> [] \<Longrightarrow> lines_of l = [l]"
  by (simp add: lines_of_def split_on_fresh)

lemma short_lines_line:
  "nl \<notin> set l \<Longrightarrow> short_lines sz (l @ nl # t) \<longleftrightarrow> length l < sz \<and> short_lines sz t"
  by (simp add: short_lines_def split_on_append)

lemma short_lines_last: "nl \<notin> set l \<Longrightarrow> short_lines sz l \<longleftrightarrow> length l < sz"
  by (simp add: short_lines_def split_on_fresh)

lemma strip_cr_id: "l = [] \<or> last l \<noteq> cr \<Longrightarrow> strip_cr l = l"
  by (auto simp: strip_cr_def)

section \<open>Well-formed readers\<close>

definition reader_ok :: "bufrd \<Rightarrow> bool" where
  "reader_ok b \<longleftrightarrow> rpos b \<le> wpos b \<and> wpos b \<le> length (store b) \<and> rerr b = None \<and> [] \<notin> set (chunks b)"

lemma reader_ok_new: "[] \<notin> set cs \<Longrightarrow> reader_ok (new_reader sz cs e)"
  by (simp add: reader_ok_def new_reader_def)

lemma stream_new: "stream (new_reader sz cs e) = concat cs"
  by (simp add: stream_def pending_def deref_def new_reader_def)

lemma length_pending: "reader_ok b \<Longrightarrow> length (pending b) = wpos b - rpos b"
  by (auto simp: reader_ok_def pending_def deref_def)

lemma slide_props:
  assumes "reader_ok b"
  shows "reader_ok (slide b)" "pending (slide b) = pending b" "rpos (slide b) = 0"
    "wpos (slide b) = wpos b - rpos b" "length (store (slide b)) = length (store b)"
    "chunks (slide b) = chunks b" "final (slide b) = final b"
  using assms by (auto simp: slide_def reader_ok_def pending_def deref_def)

lemma fill_chunk:
  assumes ok: "reader_ok b" and c: "chunks b = c # cs" and room: "wpos b - rpos b < length (store b)"
  defines "n \<equiv> min (length c) (length (store b) - (wpos b - rpos b))"
  shows "reader_ok (fill b)" "pending (fill b) = pending b @ take n c"
    "chunks (fill b) = (if n < length c then drop n c # cs else cs)"
    "length (store (fill b)) = length (store b)" "final (fill b) = final b" "0 < n"
proof -
  note sl = slide_props [OF ok]
  from ok c have ne: "c \<noteq> []" by (auto simp: reader_ok_def)
  have n: "min (length c) (length (store (slide b)) - wpos (slide b)) = n" by (simp add: n_def sl)
  have le: "wpos (slide b) + n \<le> length (store b)" using room by (simp add: n_def sl)
  have "fill b = (slide b)\<lparr>store := take (wpos (slide b)) (store (slide b)) @ take n c
                    @ drop (wpos (slide b) + n) (store (slide b)),
                  wpos := wpos (slide b) + n, chunks := (if n < length c then drop n c # cs else cs)\<rparr>"
    using ne c by (simp add: fill_def sl numeral_eq_Suc n [symmetric] Let_def)
  note fb = this
  have n_le: "n \<le> length c" by (simp add: n_def)
  show "reader_ok (fill b)" using sl(1) ok c ne le n_le by (auto simp: fb reader_ok_def sl)
  have "take (wpos (slide b)) (store (slide b)) = pending b"
    using sl(2,3) by (simp add: pending_def deref_def)
  then show "pending (fill b) = pending b @ take n c"
    using n_le le length_pending [OF ok] by (simp add: fb pending_def [of "_\<lparr>chunks := _\<rparr>"] deref_def sl)
  show "chunks (fill b) = (if n < length c then drop n c # cs else cs)" by (simp add: fb)
  show "length (store (fill b)) = length (store b)" using n_le le sl by (simp add: fb)
  show "final (fill b) = final b" by (simp add: fb sl)
  show "0 < n" using ne room by (simp add: n_def)
qed

lemma stream_fill:
  assumes "reader_ok b" "chunks b = c # cs" "wpos b - rpos b < length (store b)"
  shows "stream (fill b) = stream b"
  using fill_chunk [OF assms] assms(2) by (auto simp: stream_def)

lemma fill_end:
  assumes "reader_ok b" "chunks b = []"
  shows "fill b = (slide b)\<lparr>rerr := Some (final b)\<rparr>"
  using assms slide_props [OF assms(1)] by (simp add: fill_def numeral_eq_Suc)

section \<open>Reading a line that fits the buffer\<close>

text \<open>What every read keeps: a well-formed reader, its size and its final error.\<close>

definition keeps :: "bufrd \<Rightarrow> bufrd \<Rightarrow> bool" where
  "keeps b b' \<longleftrightarrow> reader_ok b' \<and> length (store b') = length (store b) \<and> final b' = final b"

lemma keeps_trans: "keeps a b \<Longrightarrow> keeps b c \<Longrightarrow> keeps a c"
  by (simp add: keeps_def)

lemma keeps_fill:
  "reader_ok b \<Longrightarrow> chunks b = c # cs \<Longrightarrow> wpos b - rpos b < length (store b) \<Longrightarrow> keeps b (fill b)"
  by (simp add: keeps_def fill_chunk)

lemma index_byte_prefix: "c \<in> set p \<Longrightarrow> index_byte (p @ q) c = index_byte p c"
  by (induction p) auto

lemma read_slice_found:
  assumes "reader_ok b" and "index_byte (pending b) nl = Some i"
  shows "read_slice b = Some ((rpos b, rpos b + i + 1), None, b\<lparr>rpos := rpos b + i + 1\<rparr>)"
    and "deref (b\<lparr>rpos := rpos b + i + 1\<rparr>) (rpos b, rpos b + i + 1) = take (Suc i) (pending b)"
    and "stream (b\<lparr>rpos := rpos b + i + 1\<rparr>) = drop (Suc i) (stream b)"
    and "keeps b (b\<lparr>rpos := rpos b + i + 1\<rparr>)" and "rpos b + i + 1 \<le> length (store b)"
proof -
  from index_byte_Some [OF assms(2)] have i: "i < wpos b - rpos b"
    using length_pending [OF assms(1)] by simp
  show "read_slice b = Some ((rpos b, rpos b + i + 1), None, b\<lparr>rpos := rpos b + i + 1\<rparr>)"
    by (subst read_slice.simps) (simp add: assms(2))
  show "deref (b\<lparr>rpos := rpos b + i + 1\<rparr>) (rpos b, rpos b + i + 1) = take (Suc i) (pending b)"
    using i by (simp add: deref_def pending_def min_def)
  have "drop (Suc i) (pending b) = pending (b\<lparr>rpos := rpos b + i + 1\<rparr>)"
    by (simp add: pending_def deref_def drop_take add.commute)
  then show "stream (b\<lparr>rpos := rpos b + i + 1\<rparr>) = drop (Suc i) (stream b)"
    using i length_pending [OF assms(1)] by (simp add: stream_def)
  show "keeps b (b\<lparr>rpos := rpos b + i + 1\<rparr>)" and "rpos b + i + 1 \<le> length (store b)"
    using assms(1) i by (auto simp: keeps_def reader_ok_def)
qed

lemma read_slice_more:
  assumes "reader_ok b" "nl \<notin> set (pending b)" "length (pending b) < length (store b)"
  shows "read_slice b = read_slice (fill b)"
  using assms length_pending [OF assms(1)]
  by (subst read_slice.simps) (simp add: index_byte_None [THEN iffD2] reader_ok_def)

lemma read_slice_line:
  assumes "reader_ok b" "stream b = l @ nl # t" "nl \<notin> set l" "length l < length (store b)"
  shows "\<exists>lo b'. read_slice b = Some ((lo, lo + length l + 1), None, b')
     \<and> deref b' (lo, lo + length l + 1) = l @ [nl] \<and> stream b' = t \<and> keeps b b'
     \<and> lo + length l + 1 \<le> length (store b')"
  using assms
proof (induction "length (concat (chunks b))" arbitrary: b rule: less_induct)
  case less
  have idx: "index_byte (stream b) nl = Some (length l)" using less.prems by simp
  show ?case
  proof (cases "nl \<in> set (pending b)")
    case True
    then have i: "index_byte (pending b) nl = Some (length l)"
      using idx by (simp add: stream_def index_byte_prefix)
    have "take (Suc (length l)) (pending b) = take (Suc (length l)) (stream b)"
      using index_byte_Some [OF i] by (simp add: stream_def)
    then show ?thesis
      using read_slice_found [OF less.prems(1) i] less.prems(2) by (auto simp: keeps_def)
  next
    case False
    obtain c cs where c: "chunks b = c # cs"
      using False less.prems(2) by (cases "chunks b") (auto simp: stream_def)
    have "length (pending b) \<le> length l"
    proof (rule ccontr)
      assume "\<not> length (pending b) \<le> length l"
      then have "nl = pending b ! length l"
        using less.prems(2) by (metis nth_append nth_append_length stream_def linorder_not_le)
      with False \<open>\<not> _ \<le> _\<close> show False by (metis linorder_not_le nth_mem)
    qed
    with less.prems(4) have room: "length (pending b) < length (store b)" by simp
    then have room': "wpos b - rpos b < length (store b)" using length_pending [OF less.prems(1)] by simp
    note fc = fill_chunk [OF less.prems(1) c room']
    have "length (concat (chunks (fill b))) < length (concat (chunks b))"
      using fc(3,6) c by auto
    moreover have "stream (fill b) = l @ nl # t" using stream_fill [OF less.prems(1) c room'] less.prems(2) by simp
    moreover have "length l < length (store (fill b))" using less.prems(4) fc(4) by simp
    ultimately obtain lo b' where
      "read_slice (fill b) = Some ((lo, lo + length l + 1), None, b')"
      "deref b' (lo, lo + length l + 1) = l @ [nl]" "stream b' = t" "keeps (fill b) b'"
      "lo + length l + 1 \<le> length (store b')"
      using less.hyps [OF _ fc(1) _ less.prems(3)] by blast
    then show ?thesis
      using read_slice_more [OF less.prems(1) False room]
        keeps_trans [OF keeps_fill [OF less.prems(1) c room']] by auto
  qed
qed

lemma read_slice_end:
  assumes "reader_ok b" "nl \<notin> set (stream b)" "length (stream b) < length (store b)"
  shows "\<exists>lo b'. read_slice b = Some ((lo, lo + length (stream b)), Some (SliceError (final b)), b')
     \<and> deref b' (lo, lo + length (stream b)) = stream b \<and> stream b' = [] \<and> keeps b b'
     \<and> lo + length (stream b) \<le> length (store b')"
  using assms
proof (induction "length (concat (chunks b))" arbitrary: b rule: less_induct)
  case less
  have no: "nl \<notin> set (pending b)" and room: "length (pending b) < length (store b)"
    using less.prems(2,3) by (auto simp: stream_def)
  then have room': "wpos b - rpos b < length (store b)" using length_pending [OF less.prems(1)] by simp
  show ?case
  proof (cases "chunks b")
    case Nil
    let ?s = "(slide b)\<lparr>rerr := Some (final b)\<rparr>"
    let ?b = "(slide b)\<lparr>rpos := wpos (slide b), rerr := None\<rparr>"
    note sl = slide_props [OF less.prems(1)]
    have st: "stream b = pending b" using Nil by (simp add: stream_def)
    have "pending ?s = pending b" using sl(2) by (simp add: pending_def deref_def)
    then have "read_slice ?s = Some ((0, wpos (slide b)), Some (SliceError (final b)), ?b)"
      using no by (subst read_slice.simps) (simp add: index_byte_None [THEN iffD2] sl)
    moreover have "wpos (slide b) = length (stream b)"
      using st sl(4) length_pending [OF less.prems(1)] by simp
    moreover have "deref ?b (0, wpos (slide b)) = stream b"
      using st sl(2,3) by (simp add: pending_def deref_def)
    moreover have "stream ?b = []" using sl(6) Nil by (simp add: stream_def pending_def deref_def)
    moreover have "keeps b ?b" using sl(1,5,7) by (auto simp: keeps_def reader_ok_def)
    moreover have "wpos (slide b) \<le> length (store ?b)" using sl(1) by (simp add: reader_ok_def)
    ultimately have "read_slice ?s = Some ((0, 0 + length (stream b)), Some (SliceError (final b)), ?b)
       \<and> deref ?b (0, 0 + length (stream b)) = stream b \<and> stream ?b = [] \<and> keeps b ?b
       \<and> 0 + length (stream b) \<le> length (store ?b)"
      by simp
    then show ?thesis
      unfolding read_slice_more [OF less.prems(1) no room] fill_end [OF less.prems(1) Nil] by blast
  next
    case c: (Cons c cs)
    note fc = fill_chunk [OF less.prems(1) c room']
    have sf: "stream (fill b) = stream b" by (rule stream_fill [OF less.prems(1) c room'])
    have "length (concat (chunks (fill b))) < length (concat (chunks b))" using fc(3,6) c by auto
    then obtain lo b' where
      "read_slice (fill b) = Some ((lo, lo + length (stream b)), Some (SliceError (final b)), b')"
      "deref b' (lo, lo + length (stream b)) = stream b" "stream b' = []" "keeps (fill b) b'"
      "lo + length (stream b) \<le> length (store b')"
      using less.hyps [OF _ fc(1)] less.prems(2,3) sf fc(4,5) by (metis (no_types))
    then show ?thesis
      using read_slice_more [OF less.prems(1) no room]
        keeps_trans [OF keeps_fill [OF less.prems(1) c room']] by auto
  qed
qed

lemma deref_last:
  assumes "deref b (lo, lo + n + 1) = l @ [c]" "lo + n + 1 \<le> length (store b)" "length l = n"
  shows "store b ! (lo + n) = c" and "deref b (lo, lo + n) = l"
proof -
  have e: "take (Suc n) (drop lo (store b)) = l @ [c]" using assms(1) by (simp add: deref_def)
  then have "(take (Suc n) (drop lo (store b))) ! n = c" using assms(3) by (simp add: nth_append)
  then show "store b ! (lo + n) = c" using assms(2) by simp
  have "take n (take (Suc n) (drop lo (store b))) = l" using e assms(3) by simp
  then show "deref b (lo, lo + n) = l" by (simp add: deref_def min_def)
qed

lemma deref_nth:
  "deref b (lo, lo + n) = l \<Longrightarrow> lo + n \<le> length (store b) \<Longrightarrow> i < n \<Longrightarrow> store b ! (lo + i) = l ! i"
  by (auto simp: deref_def)

lemma deref_butlast:
  "deref b (lo, lo + n) = l \<Longrightarrow> lo + n \<le> length (store b) \<Longrightarrow> deref b (lo, lo + n - 1) = butlast l"
  by (auto simp: deref_def butlast_take)

lemma read_line_line:
  assumes "reader_ok b" "stream b = l @ nl # t" "nl \<notin> set l" "length l < length (store b)"
  shows "\<exists>s b'. read_line b = Some (Line s False, b') \<and> deref b' s = strip_cr l \<and> stream b' = t \<and> keeps b b'"
proof -
  obtain lo b' where r: "read_slice b = Some ((lo, lo + length l + 1), None, b')"
    and d: "deref b' (lo, lo + length l + 1) = l @ [nl]" and b': "stream b' = t" "keeps b b'"
    and le: "lo + length l + 1 \<le> length (store b')"
    using read_slice_line [OF assms] by blast
  note dl = deref_last [OF d le refl]
  show ?thesis
  proof (cases "l \<noteq> [] \<and> last l = cr")
    case True
    then obtain n where n: "length l = Suc n" by (cases l) auto
    then have c: "store b' ! (lo + n) = cr"
      using deref_nth [OF dl(2), of n] le True by (auto simp: last_conv_nth)
    moreover have "deref b' (lo, lo + n) = butlast l" using deref_butlast [OF dl(2)] le n by simp
    moreover have "read_line b = Some (Line (lo, lo + n) False, b')"
      using r dl(1) n c by (simp add: read_line_def)
    ultimately show ?thesis using b' True by (auto simp: strip_cr_def)
  next
    case False
    then have "\<not> (0 < length l \<and> store b' ! (lo + length l - Suc 0) = cr)"
      using deref_nth [OF dl(2), of "length l - 1"] le by (auto simp: last_conv_nth)
    then show ?thesis
      using r dl b' strip_cr_id [of l] False by (auto simp: read_line_def)
  qed
qed

lemma read_line_last:
  assumes "reader_ok b" "nl \<notin> set (stream b)" "length (stream b) < length (store b)" "stream b \<noteq> []"
  shows "\<exists>s b'. read_line b = Some (Line s False, b') \<and> deref b' s = stream b \<and> stream b' = [] \<and> keeps b b'"
proof -
  obtain lo b' where r: "read_slice b = Some ((lo, lo + length (stream b)), Some (SliceError (final b)), b')"
    and d: "deref b' (lo, lo + length (stream b)) = stream b" and b': "stream b' = []" "keeps b b'"
    and le: "lo + length (stream b) \<le> length (store b')"
    using read_slice_end [OF assms(1-3)] by blast
  have "store b' ! (lo + (length (stream b) - 1)) = stream b ! (length (stream b) - 1)"
    using deref_nth [OF d le] assms(4) by simp
  then have "store b' ! (lo + length (stream b) - 1) \<noteq> nl"
    using assms(2,4) by (metis Nat.add_diff_assoc Suc_leI diff_less last_conv_nth last_in_set length_greater_0_conv less_one One_nat_def)
  then show ?thesis using r d b' assms(4) by (auto simp: read_line_def)
qed

lemma read_line_end:
  assumes "reader_ok b" "stream b = []" "0 < length (store b)"
  shows "\<exists>b'. read_line b = Some (LineError (final b), b') \<and> stream b' = [] \<and> keeps b b'"
  using read_slice_end [of b] assms by (auto simp: read_line_def)

end
