(* ===== verification/Sse.thy ===== *)
theory Sse
  imports Bufio
begin

text \<open>
  \<open>pkg/sse/scanner.go\<close>: the event reader over \<open>bufio.Reader\<close> and the event encoders.
  \<open>read_event\<close> follows \<open>ReadEvent\<close> line by line, on the buffer of theory \<open>Bufio\<close>, so it has the
  code's aliasing: the first part of a line longer than the buffer is still a slice of the buffer
  when the next part is read into it.  \<open>scan_event\<close> is what the reader is meant to do, on the lines
  of the byte stream; the two agree whenever every line fits the buffer.
\<close>

section \<open>Events and the reader\<close>

record event =
  ev_Type :: bytes
  ev_Data :: bytes
  ev_ID :: bytes
  ev_Raw :: bytes

text \<open>\<open>NewReader\<close>: a buffer of 64 KiB over the underlying reader.\<close>

definition NewReader :: "bytes list \<Rightarrow> io_error \<Rightarrow> bufrd" where
  "NewReader cs e = new_reader (64 * 1024) cs e"

text \<open>The local variables of \<open>ReadEvent\<close>.\<close>

record scan =
  eventType :: bytes
  scanId :: bytes
  dataBuf :: bytes
  hasData :: bool

definition scan_init :: scan where
  "scan_init = \<lparr>eventType = [], scanId = [], dataBuf = [], hasData = False\<rparr>"

definition has_event :: "scan \<Rightarrow> bool" where
  "has_event a \<longleftrightarrow> hasData a \<or> eventType a \<noteq> [] \<or> scanId a \<noteq> []"

definition event_of :: "scan \<Rightarrow> event" where
  "event_of a = \<lparr>ev_Type = eventType a, ev_Data = dataBuf a, ev_ID = scanId a, ev_Raw = []\<rparr>"

text \<open>Field name and value of a line: one space after the colon is dropped.\<close>

definition split_field :: "bytes \<Rightarrow> bytes \<times> bytes" where
  "split_field l =
     (case index_byte l (CHR '':'') of
        None \<Rightarrow> (l, [])
      | Some i \<Rightarrow>
          (let v = drop (i + 1) l
           in (take i l, if v \<noteq> [] \<and> hd v = CHR '' '' then tl v else v)))"

definition apply_field :: "scan \<Rightarrow> bytes \<Rightarrow> bytes \<Rightarrow> scan" where
  "apply_field a field v =
     (if field = ''event'' then a\<lparr>eventType := v\<rparr>
      else if field = ''data''
      then a\<lparr>dataBuf := (if hasData a then dataBuf a @ [nl] else dataBuf a) @ v, hasData := True\<rparr>
      else if field = ''id'' then a\<lparr>scanId := v\<rparr>
      else a)"

text \<open>One complete line: an event to return, or the variables to go on with.\<close>

definition scan_line :: "scan \<Rightarrow> bytes \<Rightarrow> event + scan" where
  "scan_line a l =
     (if l = [] then (if has_event a then Inl (event_of a) else Inr a)
      else if hd l = CHR '':'' then Inr a
      else (let (field, v) = split_field l in Inr (apply_field a field v)))"

text \<open>At an error: the event collected so far if it is the end of input, else the error.\<close>

definition scan_error :: "scan \<Rightarrow> io_error \<Rightarrow> io_error + event" where
  "scan_error a e = (if e = EOF \<and> has_event a then Inr (event_of a) else Inl e)"

text \<open>
  The rest of a line longer than the buffer.  Each further part is copied behind what is already
  there; the first part is read from the buffer only after the second part has been read into it.
\<close>

partial_function (option) read_parts ::
  "bufrd \<Rightarrow> bytes \<Rightarrow> ((io_error + bytes) \<times> bufrd) option" where
  "read_parts b full =
     (case read_line b of
        None \<Rightarrow> None
      | Some (LineError e, b') \<Rightarrow> Some (Inl e, b')
      | Some (Line s pre, b') \<Rightarrow>
          if pre then read_parts b' (full @ deref b' s) else Some (Inr (full @ deref b' s), b'))"

definition read_full_line :: "bufrd \<Rightarrow> slice \<Rightarrow> bool \<Rightarrow> ((io_error + bytes) \<times> bufrd) option" where
  "read_full_line b s pre =
     (if \<not> pre then Some (Inr (deref b s), b)
      else (case read_line b of
              None \<Rightarrow> None
            | Some (LineError e, b') \<Rightarrow> Some (Inl e, b')
            | Some (Line s' pre', b') \<Rightarrow>
                if pre' then read_parts b' (deref b' s @ deref b' s')
                else Some (Inr (deref b' s @ deref b' s'), b')))"

partial_function (option) read_event_loop ::
  "bufrd \<Rightarrow> scan \<Rightarrow> ((io_error + event) \<times> bufrd) option" where
  "read_event_loop b a =
     (case read_line b of
        None \<Rightarrow> None
      | Some (LineError e, b') \<Rightarrow> Some (scan_error a e, b')
      | Some (Line s pre, b') \<Rightarrow>
          (case read_full_line b' s pre of
             None \<Rightarrow> None
           | Some (Inl e, b'') \<Rightarrow> Some (Inl e, b'')
           | Some (Inr l, b'') \<Rightarrow>
               (case scan_line a l of
                  Inl ev \<Rightarrow> Some (Inr ev, b'')
                | Inr a' \<Rightarrow> read_event_loop b'' a')))"

definition ReadEvent :: "bufrd \<Rightarrow> ((io_error + event) \<times> bufrd) option" where
  "ReadEvent b = read_event_loop b scan_init"

section \<open>The encoders\<close>

definition data_prefix :: bytes where "data_prefix = ''data: ''"
definition event_prefix :: bytes where "event_prefix = ''event: ''"
definition id_prefix :: bytes where "id_prefix = ''id: ''"

definition data_lines :: "bytes \<Rightarrow> bytes" where
  "data_lines d = concat (map (\<lambda>l. data_prefix @ l @ [nl]) (split_on nl d))"

definition EncodeEvent :: "event \<Rightarrow> bytes" where
  "EncodeEvent ev =
     (if ev_Type ev \<noteq> [] then event_prefix @ ev_Type ev @ [nl] else [])
     @ (if ev_ID ev \<noteq> [] then id_prefix @ ev_ID ev @ [nl] else [])
     @ (if ev_Data ev \<noteq> [] then data_lines (ev_Data ev) else ''data:'' @ [nl])
     @ [nl]"

definition EncodeData :: "bytes \<Rightarrow> bytes" where
  "EncodeData d = data_lines d @ [nl]"

definition EncodeDone :: bytes where
  "EncodeDone = ''data: [DONE]'' @ [nl, nl]"

definition TrimLeadingWhitespace :: "bytes \<Rightarrow> bytes" where
  "TrimLeadingWhitespace s = dropWhile (\<lambda>c. c = CHR '' '' \<or> c = CHR 0x09) s"

section \<open>Reading as a function of the lines\<close>

fun scan_event :: "io_error \<Rightarrow> scan \<Rightarrow> bytes list \<Rightarrow> (io_error + event) \<times> bytes list" where
  "scan_event e a [] = (scan_error a e, [])"
| "scan_event e a (l # ls) =
     (case scan_line a l of Inl ev \<Rightarrow> (Inr ev, ls) | Inr a' \<Rightarrow> scan_event e a' ls)"

text \<open>All the events of a stream that ends with the error \<open>e\<close>, and the error \<open>ReadEvent\<close> then gives.\<close>

lemma scan_event_length: "scan_event e a ls = (r, ls') \<Longrightarrow> ls \<noteq> [] \<Longrightarrow> length ls' < length ls"
  by (induction e a ls rule: scan_event.induct) (fastforce split: sum.splits)+

function scan_all :: "io_error \<Rightarrow> bytes list \<Rightarrow> event list" where
  "scan_all e ls =
     (case scan_event e scan_init ls of
        (Inl _, _) \<Rightarrow> []
      | (Inr ev, ls') \<Rightarrow> if ls = [] then [ev] else ev # scan_all e ls')"
  by pat_completeness auto
termination
proof (relation "measure (\<lambda>(e, ls). length ls)")
  fix e ls r ls' ev
  assume "(r, ls') = scan_event e scan_init ls" "r = Inr ev" "ls \<noteq> []"
  with scan_event_length [of e scan_init ls r ls'] have "length ls' < length ls" by metis
  then show "((e, ls'), e, ls) \<in> measure (\<lambda>(e, ls). length ls)" by simp
qed simp

declare scan_all.simps [simp del]

section \<open>The reader refines the function of the lines\<close>

lemma stream_cases:
  obtains (empty) "s = []" | (line) l t where "s = l @ nl # t" "nl \<notin> set l"
    | (last) "s \<noteq> []" "nl \<notin> set s"
  by (cases "nl \<in> set s") (auto dest: split_list_first)

lemma read_event_loop_step:
  assumes "read_line b = Some (Line s False, b')"
  shows "read_event_loop b a =
    (case scan_line a (deref b' s) of Inl ev \<Rightarrow> Some (Inr ev, b') | Inr a' \<Rightarrow> read_event_loop b' a')"
  by (subst read_event_loop.simps) (simp add: assms read_full_line_def)

text \<open>
  What reading one event means on the stream: the result of \<open>scan_event\<close>, and a reader left at
  the lines \<open>scan_event\<close> left.
\<close>

definition reads :: "bufrd \<Rightarrow> scan \<Rightarrow> ((io_error + event) \<times> bufrd) option \<Rightarrow> bool" where
  "reads b a res \<longleftrightarrow>
     (\<exists>b'. res = Some (fst (scan_event (final b) a (lines_of (stream b))), b')
         \<and> lines_of (stream b') = snd (scan_event (final b) a (lines_of (stream b)))
         \<and> keeps b b' \<and> short_lines (length (store b)) (stream b'))"

lemma reads_step:
  assumes "read_line b = Some (Line s False, b')" "keeps b b'"
    and "lines_of (stream b) = deref b' s # lines_of (stream b')"
    and "short_lines (length (store b)) (stream b')"
    and "\<And>a'. reads b' a' (read_event_loop b' a')"
  shows "reads b a (read_event_loop b a)"
proof (cases "scan_line a (deref b' s)")
  case (Inl ev)
  with assms show ?thesis by (auto simp: reads_def read_event_loop_step)
next
  case (Inr a')
  with assms(1,2,3) assms(5) [of a'] show ?thesis
    by (auto simp: reads_def read_event_loop_step keeps_def)
qed

lemma read_event_loop_reads:
  assumes "reader_ok b" "short_lines (length (store b)) (stream b)" "0 < length (store b)"
  shows "reads b a (read_event_loop b a)"
  using assms
proof (induction "length (stream b)" arbitrary: b a rule: less_induct)
  case less
  have again: "reads b' a' (read_event_loop b' a')"
    if "keeps b b'" "length (stream b') < length (stream b)" "short_lines (length (store b)) (stream b')"
    for b' a'
    by (rule less.hyps) (use that less.prems(3) in \<open>simp_all add: keeps_def flip: length_greater_0_conv\<close>)
  show ?case
  proof (cases "stream b" rule: stream_cases)
    case empty
    then show ?thesis
      using read_line_end [OF less.prems(1) empty less.prems(3)] less.prems(3)
      by (subst read_event_loop.simps) (auto simp: reads_def short_lines_def)
  next
    case (line l t)
    then have "length l < length (store b)" and sh: "short_lines (length (store b)) t"
      using less.prems(2) by (auto simp: short_lines_line)
    then obtain s b' where r: "read_line b = Some (Line s False, b')" and d: "deref b' s = strip_cr l"
      and t: "stream b' = t" and k: "keeps b b'"
      using read_line_line [OF less.prems(1) line] by blast
    have "reads b' a' (read_event_loop b' a')" for a'
      by (rule again [OF k]) (simp_all add: t line(1) sh)
    moreover have "lines_of (stream b) = deref b' s # lines_of (stream b')"
      by (simp add: line lines_of_line d t)
    ultimately show ?thesis using reads_step [OF r k] sh t by blast
  next
    case last
    then have "length (stream b) < length (store b)" using less.prems(2) by (simp add: short_lines_last)
    then obtain s b' where r: "read_line b = Some (Line s False, b')" and d: "deref b' s = stream b"
      and t: "stream b' = []" and k: "keeps b b'"
      using read_line_last [OF less.prems(1) last(2) _ last(1)] by blast
    have sh: "short_lines (length (store b)) (stream b')"
      using less.prems(3) by (simp add: short_lines_def t)
    then have "reads b' a' (read_event_loop b' a')" for a'
      by (rule again [OF k, rotated]) (simp add: t last(1))
    moreover have "lines_of (stream b) = deref b' s # lines_of (stream b')"
      by (simp add: lines_of_last last d t)
    ultimately show ?thesis using reads_step [OF r k] sh by blast
  qed
qed

section \<open>Encoding, then reading\<close>

definition clean_line :: "bytes \<Rightarrow> bool" where
  "clean_line l \<longleftrightarrow> nl \<notin> set l \<and> (l \<noteq> [] \<longrightarrow> last l \<noteq> cr)"

text \<open>What the wire format can carry: no line break inside the type or the id, no \<open>CR\<close> before a line break.\<close>

definition encodable :: "event \<Rightarrow> bool" where
  "encodable ev \<longleftrightarrow> clean_line (ev_Type ev) \<and> clean_line (ev_ID ev)
     \<and> list_all clean_line (split_on nl (ev_Data ev)) \<and> ev_Raw ev = []"

lemma lines_of_clean: "clean_line l \<Longrightarrow> lines_of (l @ nl # t) = l # lines_of t"
  by (auto simp: clean_line_def lines_of_line strip_cr_id)

lemma clean_line_prefix: "clean_line l \<Longrightarrow> p \<noteq> [] \<Longrightarrow> clean_line p \<Longrightarrow> clean_line (p @ l)"
  by (auto simp: clean_line_def last_append split: if_splits)

lemma lines_of_field:
  assumes "clean_line l" "p \<noteq> []" "clean_line p"
  shows "lines_of (p @ l @ nl # t) = (p @ l) # lines_of t"
  using lines_of_clean [OF clean_line_prefix [OF assms]] by simp

lemma clean_names [simp]: "clean_line data_prefix" "clean_line event_prefix" "clean_line id_prefix"
  "clean_line ''data:''" "data_prefix \<noteq> []" "event_prefix \<noteq> []" "id_prefix \<noteq> []"
  by (simp_all add: clean_line_def data_prefix_def event_prefix_def id_prefix_def)

lemma lines_of_data:
  "list_all clean_line ls \<Longrightarrow>
   lines_of (concat (map (\<lambda>l. data_prefix @ l @ [nl]) ls) @ t) = map (\<lambda>l. data_prefix @ l) ls @ lines_of t"
  by (induction ls) (simp_all add: lines_of_field)

lemma scan_fields:
  "scan_line a (event_prefix @ l) = Inr (a\<lparr>eventType := l\<rparr>)"
  "scan_line a (id_prefix @ l) = Inr (a\<lparr>scanId := l\<rparr>)"
  "scan_line a (data_prefix @ l) =
     Inr (a\<lparr>dataBuf := (if hasData a then dataBuf a @ [nl] else dataBuf a) @ l, hasData := True\<rparr>)"
  "scan_line a ''data:'' =
     Inr (a\<lparr>dataBuf := (if hasData a then dataBuf a @ [nl] else dataBuf a), hasData := True\<rparr>)"
  by (simp_all add: scan_line_def split_field_def apply_field_def data_prefix_def event_prefix_def
      id_prefix_def)

lemma scan_more_data:
  "scan_event e (a\<lparr>dataBuf := d, hasData := True\<rparr>) (map (\<lambda>l. data_prefix @ l) ls @ t)
     = scan_event e (a\<lparr>dataBuf := d @ concat (map (\<lambda>l. nl # l) ls), hasData := True\<rparr>) t"
  by (induction ls arbitrary: d) (simp_all add: scan_fields)

lemma join_concat: "join [c] (p # ps) = p @ concat (map (\<lambda>l. c # l) ps)"
  by (induction ps arbitrary: p) auto

lemma scan_data:
  assumes "\<not> hasData a" "dataBuf a = []" "ls \<noteq> []"
  shows "scan_event e a (map (\<lambda>l. data_prefix @ l) ls @ t)
       = scan_event e (a\<lparr>dataBuf := join [nl] ls, hasData := True\<rparr>) t"
  using assms by (cases ls) (simp_all add: scan_fields scan_more_data join_concat del: join.simps)

lemma scan_encoded_data:
  assumes "list_all clean_line (split_on nl d)" "\<not> hasData a" "dataBuf a = []"
  shows "scan_event e a (lines_of (data_lines d @ t))
       = scan_event e (a\<lparr>dataBuf := d, hasData := True\<rparr>) (lines_of t)"
  using assms by (simp add: data_lines_def lines_of_data scan_data join_split_on)

lemma lines_of_blank: "lines_of (nl # t) = [] # lines_of t"
  using lines_of_clean [of "[]"] by (simp add: clean_line_def)

lemma scan_blank: "has_event a \<Longrightarrow> scan_event e a (lines_of (nl # t)) = (Inr (event_of a), lines_of t)"
  by (simp add: lines_of_blank scan_line_def)

lemma scan_EncodeData:
  assumes "list_all clean_line (split_on nl d)"
  shows "scan_event e scan_init (lines_of (EncodeData d @ t))
       = (Inr \<lparr>ev_Type = [], ev_Data = d, ev_ID = [], ev_Raw = []\<rparr>, lines_of t)"
  using scan_encoded_data [OF assms, of scan_init]
  by (simp add: EncodeData_def scan_blank scan_init_def has_event_def event_of_def)

lemma scan_type_field:
  assumes "clean_line ty"
  shows "scan_event e scan_init (lines_of ((if ty \<noteq> [] then event_prefix @ ty @ [nl] else []) @ t))
       = scan_event e (scan_init\<lparr>eventType := ty\<rparr>) (lines_of t)"
  using assms by (auto simp: lines_of_field scan_fields scan_init_def)

lemma scan_id_field:
  assumes "clean_line i" "scanId a = []"
  shows "scan_event e a (lines_of ((if i \<noteq> [] then id_prefix @ i @ [nl] else []) @ t))
       = scan_event e (a\<lparr>scanId := i\<rparr>) (lines_of t)"
  using assms by (cases a) (auto simp: lines_of_field scan_fields)

lemma scan_data_field:
  assumes "list_all clean_line (split_on nl d)" "\<not> hasData a" "dataBuf a = []"
  shows "scan_event e a (lines_of ((if d \<noteq> [] then data_lines d else ''data:'' @ [nl]) @ t))
       = scan_event e (a\<lparr>dataBuf := d, hasData := True\<rparr>) (lines_of t)"
proof (cases "d = []")
  case True
  then show ?thesis
    using assms(2,3) lines_of_clean [OF clean_names(4), of t] scan_fields(4) [of a] by simp
qed (use scan_encoded_data [OF assms] in simp)

lemma scan_EncodeEvent:
  assumes "encodable ev"
  shows "scan_event e scan_init (lines_of (EncodeEvent ev @ t)) = (Inr ev, lines_of t)"
proof -
  let ?a1 = "scan_init\<lparr>eventType := ev_Type ev\<rparr>"
  let ?a2 = "?a1\<lparr>scanId := ev_ID ev\<rparr>"
  let ?a3 = "?a2\<lparr>dataBuf := ev_Data ev, hasData := True\<rparr>"
  note enc = assms [unfolded encodable_def]
  let ?T = "if ev_Type ev \<noteq> [] then event_prefix @ ev_Type ev @ [nl] else []"
  let ?I = "if ev_ID ev \<noteq> [] then id_prefix @ ev_ID ev @ [nl] else []"
  let ?D = "if ev_Data ev \<noteq> [] then data_lines (ev_Data ev) else ''data:'' @ [nl]"
  have "EncodeEvent ev @ t = ?T @ ?I @ ?D @ nl # t" by (simp add: EncodeEvent_def)
  then have "scan_event e scan_init (lines_of (EncodeEvent ev @ t))
      = scan_event e ?a1 (lines_of (?I @ ?D @ nl # t))"
    using scan_type_field [of "ev_Type ev" e] enc by (simp only:)
  also have "\<dots> = scan_event e ?a2 (lines_of (?D @ nl # t))"
    by (rule scan_id_field) (use enc in \<open>simp_all add: scan_init_def\<close>)
  also have "\<dots> = scan_event e ?a3 (lines_of (nl # t))"
    by (rule scan_data_field) (use enc in \<open>simp_all add: scan_init_def\<close>)
  also have "\<dots> = (Inr (event_of ?a3), lines_of t)"
    by (rule scan_blank) (simp add: has_event_def)
  also have "event_of ?a3 = ev" using enc by (simp add: event_of_def scan_init_def)
  finally show ?thesis .
qed

section \<open>Lines longer than the buffer\<close>

text \<open>
  A line of \<open>p @ q\<close> where \<open>p\<close> fills the buffer: \<open>ReadLine\<close> returns the whole buffer as a prefix,
  and the read of the second part overwrites the front of that buffer before the first part is
  copied.
\<close>

definition long_line :: "nat \<Rightarrow> bytes \<Rightarrow> bytes \<Rightarrow> bool" where
  "long_line sz p q \<longleftrightarrow> length p = sz \<and> nl \<notin> set p \<and> last p \<noteq> cr
     \<and> q \<noteq> [] \<and> nl \<notin> set q \<and> last q \<noteq> cr \<and> length q + 2 \<le> sz"

lemma long_lineD:
  assumes "long_line sz p q"
  shows "length p = sz" "nl \<notin> set p" "last p \<noteq> cr" "p \<noteq> []"
    and "q \<noteq> []" "nl \<notin> set q" "last q \<noteq> cr" "length q + 2 \<le> sz"
  using assms by (auto simp: long_line_def)

lemma first_read:
  assumes L: "long_line sz p q"
  shows "read_line (new_reader sz [p, q @ [nl, nl]] e) =
     Some (Line (0, sz) True, \<lparr>store = p, rpos = sz, wpos = sz, rerr = None, chunks = [q @ [nl, nl]], final = e\<rparr>)"
proof -
  note p = long_lineD(1-3) [OF L] and p_nonempty = long_lineD(4) [OF L]
  let ?b = "new_reader sz [p, q @ [nl, nl]] e"
  let ?f = "\<lparr>store = p, rpos = 0, wpos = sz, rerr = None, chunks = [q @ [nl, nl]], final = e\<rparr>"
  have "fill ?b = ?f"
    using p(1) p_nonempty by (simp add: fill_def slide_def new_reader_def numeral_eq_Suc)
  then have "read_slice ?b = read_slice ?f"
    using p(1) p_nonempty by (subst read_slice.simps) (auto simp: new_reader_def pending_def deref_def)
  also have "\<dots> = Some ((0, sz), Some BufferFull, ?f\<lparr>rpos := sz\<rparr>)"
    using p by (subst read_slice.simps) (simp add: pending_def deref_def index_byte_None [THEN iffD2])
  finally show ?thesis
    using p p_nonempty by (simp add: read_line_def last_conv_nth)
qed

lemma second_read:
  assumes L: "long_line sz p q"
  shows "read_line \<lparr>store = p, rpos = sz, wpos = sz, rerr = None, chunks = [q @ [nl, nl]], final = e\<rparr> =
     Some (Line (0, length q) False,
       \<lparr>store = q @ [nl, nl] @ drop (length q + 2) p, rpos = length q + 1, wpos = length q + 2,
        rerr = None, chunks = [], final = e\<rparr>)"
proof -
  note p = long_lineD(1-3) [OF L] and q = long_lineD(5-8) [OF L]
  let ?b = "\<lparr>store = p, rpos = sz, wpos = sz, rerr = None, chunks = [q @ [nl, nl]], final = e\<rparr>"
  let ?s = "q @ [nl, nl] @ drop (length q + 2) p"
  let ?f = "\<lparr>store = ?s, rpos = 0, wpos = length q + 2, rerr = None, chunks = [], final = e\<rparr>"
  have "0 < sz" using q(4) by simp
  then have sl: "slide ?b = ?b\<lparr>wpos := 0, rpos := 0\<rparr>"
    by (simp add: slide_def pending_def deref_def)
  have "fill ?b = ?f"
    using p(1) q(4) unfolding fill_def sl by (simp add: numeral_eq_Suc min_def)
  then have "read_slice ?b = read_slice ?f"
    using \<open>0 < sz\<close> p(1) by (subst read_slice.simps) (auto simp: pending_def deref_def)
  also have "\<dots> = Some ((0, length q + 1), None, ?f\<lparr>rpos := length q + 1\<rparr>)"
    using q by (subst read_slice.simps) (simp add: pending_def deref_def)
  finally show ?thesis
    using q by (auto simp: read_line_def nth_append last_conv_nth)
qed

lemma corrupted_line:
  assumes L: "long_line sz p q"
  shows "read_full_line \<lparr>store = p, rpos = sz, wpos = sz, rerr = None, chunks = [q @ [nl, nl]], final = e\<rparr> (0, sz) True =
     Some (Inr (q @ [nl, nl] @ drop (length q + 2) p @ q),
       \<lparr>store = q @ [nl, nl] @ drop (length q + 2) p, rpos = length q + 1, wpos = length q + 2,
        rerr = None, chunks = [], final = e\<rparr>)"
  using long_lineD [OF L] by (simp add: read_full_line_def second_read [OF L] deref_def)

text \<open>Such a line has no field name the reader knows: the name contains a line break.\<close>

lemma split_field_break:
  assumes "q \<noteq> []" "CHR '':'' \<notin> set q"
  shows "scan_line a (q @ nl # t) = Inr a"
proof -
  obtain f v where fv: "split_field (q @ nl # t) = (f, v)" by fastforce
  have "nl \<in> set f"
  proof (cases "index_byte (q @ nl # t) (CHR '':'')")
    case None
    with fv show ?thesis by (auto simp: split_field_def)
  next
    case (Some i)
    have "length q < i"
    proof (rule ccontr)
      assume "\<not> length q < i"
      then have "(q @ nl # t) ! i \<in> insert nl (set q)" by (auto simp: nth_append nth_Cons')
      moreover have "(q @ nl # t) ! i = CHR '':''"
        using index_byte_Some [OF Some] by (metis nth_append_length length_take less_imp_le min.absorb2)
      ultimately show False using assms(2) by auto
    qed
    then have "nl \<in> set (take i (q @ nl # t))" by (cases i) (auto simp: take_Cons' le_Suc_eq)
    with Some fv show ?thesis by (simp add: split_field_def Let_def)
  qed
  then have "f \<noteq> ''event''" "f \<noteq> ''data''" "f \<noteq> ''id''" by auto
  then show ?thesis using assms fv by (auto simp: scan_line_def apply_field_def hd_append)
qed

lemma long_event_lost:
  assumes L: "long_line sz p q" and "CHR '':'' \<notin> set q"
  shows "\<exists>b'. ReadEvent (new_reader sz [p, q @ [nl, nl]] e) = Some (Inl e, b')"
proof -
  let ?b2 = "\<lparr>store = q @ [nl, nl] @ drop (length q + 2) p, rpos = length q + 1, wpos = length q + 2,
        rerr = None, chunks = [], final = e\<rparr>"
  note q = long_lineD [OF L]
  have "ReadEvent (new_reader sz [p, q @ [nl, nl]] e) = read_event_loop ?b2 scan_init"
    using split_field_break [OF q(5) assms(2)]
    by (simp add: ReadEvent_def, subst read_event_loop.simps)
      (simp add: first_read [OF L] corrupted_line [OF L])
  moreover have st: "stream ?b2 = [nl]" by (simp add: stream_def pending_def deref_def)
  moreover have "reader_ok ?b2" using q(1,8) by (simp add: reader_ok_def)
  moreover have "short_lines (length (store ?b2)) (stream ?b2)" unfolding st by (simp add: short_lines_def)
  ultimately have "reads ?b2 scan_init (ReadEvent (new_reader sz [p, q @ [nl, nl]] e))"
    using read_event_loop_reads [of ?b2] by simp
  moreover have "scan_event (final ?b2) scan_init (lines_of (stream ?b2)) = (Inl e, [])"
    unfolding st by (simp add: lines_of_blank [of "[]", simplified] scan_line_def has_event_def
        scan_init_def scan_error_def)
  ultimately show ?thesis by (auto simp: reads_def)
qed

lemma NewReader_props:
  "final (NewReader cs e) = e" "length (store (NewReader cs e)) = 64 * 1024" "stream (NewReader cs e) = concat cs"
  "[] \<notin> set cs \<Longrightarrow> reader_ok (NewReader cs e)"
proof -
  show "final (NewReader cs e) = e" "length (store (NewReader cs e)) = 64 * 1024"
    by (simp_all add: NewReader_def new_reader_def)
  show "stream (NewReader cs e) = concat cs" unfolding NewReader_def by (rule stream_new)
  show "reader_ok (NewReader cs e)" if "[] \<notin> set cs"
    unfolding NewReader_def using that by (rule reader_ok_new)
qed

lemma ReadEvent_lines:
  assumes "[] \<notin> set cs" "short_lines (64 * 1024) (concat cs)"
    and "scan_event e scan_init (lines_of (concat cs)) = (r, ls)"
  shows "\<exists>b. ReadEvent (NewReader cs e) = Some (r, b) \<and> lines_of (stream b) = ls"
proof -
  have "reads (NewReader cs e) scan_init (read_event_loop (NewReader cs e) scan_init)"
    using assms(1,2) by (intro read_event_loop_reads) (simp_all add: NewReader_props del: length_greater_0_conv)
  then show ?thesis using assms(3) by (auto simp: reads_def NewReader_props ReadEvent_def)
qed

section \<open>Properties\<close>





text \<open>
  \<open>EncodeData\<close> round-trips in the same way: the payload comes back as the data of an event that has
  neither type nor id.
\<close>
theorem EncodeData_ReadEvent:
  assumes "list_all clean_line (split_on nl d)" "concat cs = EncodeData d @ t" "[] \<notin> set cs"
    and "short_lines (64 * 1024) (concat cs)"
  shows "\<exists>b. ReadEvent (NewReader cs e) = Some (Inr \<lparr>ev_Type = [], ev_Data = d, ev_ID = [], ev_Raw = []\<rparr>, b)
    \<and> lines_of (stream b) = lines_of t"
  using assms(3,4) scan_EncodeData [OF assms(1), of e t] unfolding assms(2)
  by (intro ReadEvent_lines) (simp_all add: assms(2))

theorem EncodeData_ReadEvent_witness:
  "\<exists>b. ReadEvent (NewReader [EncodeData ''x'', ''y''] EOF)
     = Some (Inr \<lparr>ev_Type = [], ev_Data = ''x'', ev_ID = [], ev_Raw = []\<rparr>, b)
   \<and> lines_of (stream b) = lines_of ''y''"
  by (rule EncodeData_ReadEvent)
    (simp_all add: clean_line_def EncodeData_def data_lines_def data_prefix_def short_lines_def)

text \<open>
  C38: an event with a line longer than the buffer is lost.  When a line starts with 65536 bytes \<open>p\<close> that
  arrive in one read and goes on with \<open>q\<close>, \<open>ReadEvent\<close> returns the error at the end of the stream and
  no event, although the lines hold one: the first part of the line is still a slice of the buffer when
  the second part is read into it.
\<close>
theorem ReadEvent_loses_long_line:
  assumes "long_line (64 * 1024) p q" "CHR '':'' \<notin> set q"
    and "take 6 p = data_prefix"
  shows "(\<exists>b. ReadEvent (NewReader [p, q @ [nl, nl]] e) = Some (Inl e, b))
    \<and> fst (scan_event e scan_init (lines_of (p @ q @ [nl, nl]))) =
        Inr \<lparr>ev_Type = [], ev_Data = drop 6 p @ q, ev_ID = [], ev_Raw = []\<rparr>"
proof -
  note l = long_lineD [OF assms(1)]
  have p: "p = data_prefix @ drop 6 p" using assms(3) by (metis append_take_drop_id)
  have clean: "clean_line (p @ q)" using l by (simp add: clean_line_def)
  have "lines_of (p @ q @ [nl, nl]) = (p @ q) # [[]]"
    using lines_of_clean [OF clean, of "[nl]"] lines_of_blank [of "[]"] by simp
  also have "p @ q = data_prefix @ (drop 6 p @ q)" using p by (metis append.assoc)
  finally have "lines_of (p @ q @ [nl, nl]) = [data_prefix @ (drop 6 p @ q), []]" .
  then show ?thesis
    using long_event_lost [OF assms(1,2)]
    by (simp add: NewReader_def scan_fields scan_line_def [of _ "[]"] scan_init_def has_event_def event_of_def)
qed

theorem ReadEvent_loses_long_line_witness:
  "(\<exists>b. ReadEvent (NewReader [data_prefix @ replicate 65530 (CHR ''x''), ''y'' @ [nl, nl]] EOF) = Some (Inl EOF, b))
    \<and> fst (scan_event EOF scan_init (lines_of ((data_prefix @ replicate 65530 (CHR ''x'')) @ ''y'' @ [nl, nl]))) =
        Inr \<lparr>ev_Type = [], ev_Data = drop 6 (data_prefix @ replicate 65530 (CHR ''x'')) @ ''y'', ev_ID = [], ev_Raw = []\<rparr>"
  by (rule ReadEvent_loses_long_line) (simp_all add: long_line_def data_prefix_def)

end
