(* ===== verification/Semantic_Parser.thy ===== *)
theory Semantic_Parser
  imports Json_Value Segment_View Sse
begin

text \<open>
  \<open>pkg/semantic/parser.go\<close>: events of both protocols to segments.  The parser's state is its protocol,
  the metadata it has seen so far and the last role of each choice; the metadata's \<open>Extra\<close> map lives in
  the heap, which is threaded through.  A \<open>rootMap\<close> is an association list from keys to the text of
  their values.  \<open>ParseEvent\<close> never returns an error, so it returns the segments alone.
\<close>

type_synonym raw_map = "(bytes \<times> bytes) list"

record parser =
  ps_protocol :: protocol
  ps_meta :: common_metadata
  ps_seenRoles :: "(int \<times> bytes) list"

definition zero_meta :: common_metadata where
  "zero_meta = \<lparr>md_ID = [], md_Object = [], md_Created = 0, md_Model = [], md_SystemFingerprint = [],
     md_ServiceTier = [], md_Extra = None\<rparr>"

text \<open>\<open>now\<close> is \<open>time.Now().Unix()\<close>.\<close>

definition NewParser :: "int \<Rightarrow> parser" where
  "NewParser now = \<lparr>ps_protocol = ProtocolAuto, ps_meta = zero_meta\<lparr>md_Created := now\<rparr>, ps_seenRoles = []\<rparr>"

definition SetProtocol :: "protocol \<Rightarrow> parser \<Rightarrow> parser" where
  "SetProtocol proto p = p\<lparr>ps_protocol := proto\<rparr>"

text \<open>The argument is \<open>None\<close> for the zero time.\<close>

definition SetStartTime :: "int option \<Rightarrow> parser \<Rightarrow> parser" where
  "SetStartTime t p =
     (case t of None \<Rightarrow> p | Some unix \<Rightarrow> p\<lparr>ps_meta := (ps_meta p)\<lparr>md_Created := unix\<rparr>\<rparr>)"

definition Metadata :: "parser \<Rightarrow> common_metadata" where
  "Metadata p = ps_meta p"

definition Model :: "parser \<Rightarrow> bytes" where
  "Model p = md_Model (ps_meta p)"

section \<open>Metadata of chat chunks\<close>

text \<open>A string member that is there, decodes and is not empty replaces the field.\<close>

definition set_string :: "raw_map \<Rightarrow> bytes \<Rightarrow> (bytes \<Rightarrow> common_metadata \<Rightarrow> common_metadata)
    \<Rightarrow> common_metadata \<Rightarrow> common_metadata" where
  "set_string root key upd m =
     (case map_of root key of
        None \<Rightarrow> m
      | Some raw \<Rightarrow> (case um_string raw of Some s \<Rightarrow> if s \<noteq> [] then upd s m else m | None \<Rightarrow> m))"

text \<open>\<open>created\<close> may be an integer, a float or a string of digits.\<close>

definition set_created :: "bytes \<Rightarrow> common_metadata \<Rightarrow> common_metadata" where
  "set_created raw m =
     (let from_string =
            (case um_string raw of
               Some s \<Rightarrow>
                 if s \<noteq> [] then (case ParseInt s of Some n \<Rightarrow> if n \<noteq> 0 then m\<lparr>md_Created := n\<rparr> else m | None \<Rightarrow> m)
                 else m
             | None \<Rightarrow> m);
          from_float =
            (case um_float raw of
               Some f \<Rightarrow> if \<not> f64_eq f f64_zero then m\<lparr>md_Created := int64_of_f64 f\<rparr> else from_string
             | None \<Rightarrow> from_string)
      in case um_int raw of
           Some c \<Rightarrow> if c \<noteq> 0 then m\<lparr>md_Created := c\<rparr> else from_float
         | None \<Rightarrow> from_float)"

definition known_keys :: "bytes list" where
  "known_keys = [''id'', ''object'', ''created'', ''model'', ''system_fingerprint'', ''service_tier'',
     ''choices'', ''usage'', ''error'']"

text \<open>One key that is not known goes into the shared map; the map is made even if its value does not decode.\<close>

definition add_extra :: "bytes \<times> bytes \<Rightarrow> heap \<times> common_metadata \<Rightarrow> heap \<times> common_metadata" where
  "add_extra kr hm =
     (case kr of (k, raw) \<Rightarrow>
        if k \<in> set known_keys then hm
        else (let (h, a) = heap_make (fst hm) (md_Extra (snd hm));
                  h = (case um_any raw of Some v \<Rightarrow> heap_put h a k v | None \<Rightarrow> h)
              in (h, (snd hm)\<lparr>md_Extra := Some a\<rparr>)))"

definition extract_fields :: "raw_map \<Rightarrow> common_metadata \<Rightarrow> common_metadata" where
  "extract_fields root m =
     (let m = set_string root ''id'' (\<lambda>s. md_ID_update (\<lambda>_. s)) m;
          m = set_string root ''object'' (\<lambda>s. md_Object_update (\<lambda>_. s)) m;
          m = (case map_of root ''created'' of Some raw \<Rightarrow> set_created raw m | None \<Rightarrow> m);
          m = set_string root ''model'' (\<lambda>s. md_Model_update (\<lambda>_. s)) m;
          m = set_string root ''system_fingerprint'' (\<lambda>s. md_SystemFingerprint_update (\<lambda>_. s)) m
      in set_string root ''service_tier'' (\<lambda>s. md_ServiceTier_update (\<lambda>_. s)) m)"

definition extractMetadata :: "raw_map \<Rightarrow> heap \<times> common_metadata \<Rightarrow> heap \<times> common_metadata" where
  "extractMetadata root hm = fold add_extra root (fst hm, extract_fields root (snd hm))"

section \<open>Choices\<close>

definition seen_role :: "parser \<Rightarrow> int \<Rightarrow> bytes" where
  "seen_role p i = (case map_of (ps_seenRoles p) i of Some r \<Rightarrow> r | None \<Rightarrow> [])"

definition parse_role :: "raw_map \<Rightarrow> int \<Rightarrow> parser \<Rightarrow> segment list \<times> parser" where
  "parse_role delta idx p =
     (case map_of delta ''role'' of
        None \<Rightarrow> ([], p)
      | Some raw \<Rightarrow>
          (case um_string raw of
             Some r \<Rightarrow>
               if r \<noteq> [] \<and> seen_role p idx \<noteq> r
               then ([Role \<lparr>ro_ChoiceIndex = idx, ro_Role = r, ro_Metadata = ps_meta p\<rparr>],
                     p\<lparr>ps_seenRoles := AList.update idx r (ps_seenRoles p)\<rparr>)
               else ([], p)
           | None \<Rightarrow> ([], p)))"

definition reasoning_keys :: "bytes list" where
  "reasoning_keys = [''reasoning_content'', ''reasoning'', ''reasoning_text'', ''thought'']"

text \<open>The first reasoning key whose value is a nonempty string.\<close>

fun parse_reasoning :: "raw_map \<Rightarrow> int \<Rightarrow> common_metadata \<Rightarrow> bytes list \<Rightarrow> segment list" where
  "parse_reasoning delta idx m [] = []"
| "parse_reasoning delta idx m (key # keys) =
     (case Option.bind (map_of delta key) um_string of
        Some r \<Rightarrow>
          if 0 < length r
          then [Reasoning \<lparr>rs_ChoiceIndex = idx, rs_FieldName = key, rs_Text = r, rs_Metadata = m\<rparr>]
          else parse_reasoning delta idx m keys
      | None \<Rightarrow> parse_reasoning delta idx m keys)"

definition parse_content :: "raw_map \<Rightarrow> int \<Rightarrow> common_metadata \<Rightarrow> segment list" where
  "parse_content delta idx m =
     (case Option.bind (map_of delta ''content'') um_string_ptr of
        Some (Some c) \<Rightarrow>
          if 0 < length c then [Content \<lparr>cs_ChoiceIndex = idx, cs_Text = c, cs_Metadata = m\<rparr>] else []
      | _ \<Rightarrow> [])"

definition accumulator_of :: "tool_call_delta \<Rightarrow> tool_call_accumulator" where
  "accumulator_of tc =
     \<lparr>tc_Index = td_Index tc, tc_ID = td_ID tc, tc_Type = td_Type tc,
      tc_FunctionName = (case td_Function tc of Some f \<Rightarrow> fd_Name f | None \<Rightarrow> []),
      tc_Arguments = (case td_Function tc of Some f \<Rightarrow> fd_Arguments f | None \<Rightarrow> [])\<rparr>"

text \<open>The loop over the list of calls: every index goes to \<open>Order\<close>, the last call of an index to \<open>Calls\<close>.\<close>

definition tool_segment :: "int \<Rightarrow> common_metadata \<Rightarrow> tool_call_delta list \<Rightarrow> tool_call_segment" where
  "tool_segment idx m tcs =
     fold (\<lambda>tc s. s\<lparr>ts_Order := ts_Order s @ [td_Index tc],
                     ts_Calls := AList.update (td_Index tc) (accumulator_of tc) (ts_Calls s)\<rparr>) tcs
       \<lparr>ts_ChoiceIndex = idx, ts_Order = [], ts_Calls = [], ts_Metadata = m\<rparr>"

definition parse_tools :: "raw_map \<Rightarrow> int \<Rightarrow> common_metadata \<Rightarrow> segment list" where
  "parse_tools delta idx m =
     (case map_of delta ''tool_calls'' of
        Some raw \<Rightarrow>
          if 0 < length raw \<and> raw \<noteq> lit_null
          then (case um_tool_calls raw of
                  Some tcs \<Rightarrow> if 0 < length tcs then [ToolCall (tool_segment idx m tcs)] else []
                | None \<Rightarrow> [])
          else []
      | None \<Rightarrow> [])"

definition known_delta_keys :: "bytes list" where
  "known_delta_keys = ''role'' # reasoning_keys @ [''content'', ''tool_calls'']"

text \<open>Whether the delta has an unknown member that decodes (\<open>len(extraDelta) > 0\<close>).\<close>

definition has_extra_delta :: "raw_map \<Rightarrow> bool" where
  "has_extra_delta delta =
     list_ex (\<lambda>(k, raw). k \<notin> set known_delta_keys \<and> um_any raw \<noteq> None) delta"

definition parse_delta :: "choice_chunk \<Rightarrow> parser \<Rightarrow> segment list \<times> parser" where
  "parse_delta choice p =
     (if 0 < length (cc_Delta choice) \<and> cc_Delta choice \<noteq> lit_null
      then (case um_map_raw (cc_Delta choice) of
              None \<Rightarrow> ([], p)
            | Some delta \<Rightarrow>
                (let idx = cc_Index choice; m = ps_meta p;
                     (role, p) = parse_role delta idx p;
                     segs = role @ parse_reasoning delta idx m reasoning_keys @ parse_content delta idx m
                              @ parse_tools delta idx m
                 in (if has_extra_delta delta \<and> length segs = 0
                     then [Raw \<lparr>rw_SegmentType = EventUnknown, rw_Data = cc_Delta choice, rw_Metadata = m\<rparr>]
                     else segs, p)))
      else ([], p))"

definition parse_finish :: "choice_chunk \<Rightarrow> common_metadata \<Rightarrow> segment list" where
  "parse_finish choice m =
     (case cc_FinishReason choice of
        Some r \<Rightarrow>
          if r \<noteq> [] \<and> r \<noteq> lit_null
          then [Finish \<lparr>fs_ChoiceIndex = cc_Index choice, fs_FinishReason = r, fs_Usage = GNil, fs_Metadata = m\<rparr>]
          else []
      | None \<Rightarrow> [])"

definition parseChoice :: "choice_chunk \<Rightarrow> parser \<Rightarrow> segment list \<times> parser" where
  "parseChoice choice p =
     (let (segs, p) = parse_delta choice p in (segs @ parse_finish choice (ps_meta p), p))"

fun parse_choices :: "choice_chunk list \<Rightarrow> parser \<Rightarrow> segment list \<times> parser" where
  "parse_choices [] p = ([], p)"
| "parse_choices (c # cs) p =
     (let (segs, p) = parseChoice c p; (segs', p) = parse_choices cs p in (segs @ segs', p))"

section \<open>Chat completion events\<close>

definition raw_event :: "event_type \<Rightarrow> bytes \<Rightarrow> parser \<Rightarrow> segment" where
  "raw_event ty data p = Raw \<lparr>rw_SegmentType = ty, rw_Data = data, rw_Metadata = ps_meta p\<rparr>"

definition done_marker :: bytes where "done_marker = ''[DONE]''"

definition parse_usage :: "raw_map \<Rightarrow> common_metadata \<Rightarrow> segment list" where
  "parse_usage root m =
     (case map_of root ''usage'' of
        Some raw \<Rightarrow>
          if 0 < length raw \<and> raw \<noteq> lit_null
          then (case um_any raw of Some u \<Rightarrow> [Usage \<lparr>us_Usage = u, us_Metadata = m\<rparr>] | None \<Rightarrow> [])
          else []
      | None \<Rightarrow> [])"

definition parse_root_choices :: "raw_map \<Rightarrow> parser \<Rightarrow> segment list \<times> parser" where
  "parse_root_choices root p =
     (case map_of root ''choices'' of
        Some raw \<Rightarrow>
          if 0 < length raw \<and> raw \<noteq> lit_null
          then (case um_choices raw of Some cs \<Rightarrow> parse_choices cs p | None \<Rightarrow> ([], p))
          else ([], p)
      | None \<Rightarrow> ([], p))"

definition parse_chat_root :: "bytes \<Rightarrow> raw_map \<Rightarrow> parser \<times> heap \<Rightarrow> segment list \<times> parser \<times> heap" where
  "parse_chat_root data root ph =
     (if map_of root ''error'' \<noteq> None then ([raw_event EventError data (fst ph)], ph)
      else (let (h, m) = extractMetadata root (snd ph, ps_meta (fst ph));
                p = (fst ph)\<lparr>ps_meta := m\<rparr>;
                (segs, p) = parse_root_choices root p;
                segs = segs @ parse_usage root m;
                segs = (if length segs = 0 then [raw_event EventUnknown data p] else segs)
            in (segs, p, h)))"

definition parseChatCompletionsEvent :: "event \<Rightarrow> parser \<times> heap \<Rightarrow> segment list \<times> parser \<times> heap" where
  "parseChatCompletionsEvent ev ph =
     (let data = trim_space (ev_Data ev)
      in if length data = 0 then ([], ph)
         else if data = done_marker then ([raw_event EventDone data (fst ph)], ph)
         else (case um_map_raw data of
                 None \<Rightarrow> ([raw_event EventUnknown data (fst ph)], ph)
               | Some root \<Rightarrow> parse_chat_root data root ph))"

section \<open>Responses events\<close>

definition extractResponsesMetadata :: "raw_map \<Rightarrow> common_metadata \<Rightarrow> common_metadata" where
  "extractResponsesMetadata root m =
     (let set_ID = (\<lambda>s. md_ID_update (\<lambda>_. s)); set_Model = (\<lambda>s. md_Model_update (\<lambda>_. s));
          m = set_string root ''response_id'' set_ID m;
          m = set_string root ''id'' set_ID m;
          m = set_string root ''model'' set_Model m
      in case map_of root ''response'' of
           None \<Rightarrow> m
         | Some raw \<Rightarrow>
             if 0 < length raw \<and> raw \<noteq> lit_null
             then (case um_map_raw raw of
                     None \<Rightarrow> m
                   | Some resp \<Rightarrow>
                       (let m = set_string resp ''id'' set_ID m;
                            m = set_string resp ''model'' set_Model m
                        in case Option.bind (map_of resp ''created_at'') um_int of
                             Some c \<Rightarrow> if c \<noteq> 0 then m\<lparr>md_Created := c\<rparr> else m
                           | None \<Rightarrow> m))
             else m)"

text \<open>A member decoded into a field that was zero: zero again if it is missing or does not decode.\<close>

definition get_string :: "raw_map \<Rightarrow> bytes \<Rightarrow> bytes" where
  "get_string root key = (case Option.bind (map_of root key) um_string of Some s \<Rightarrow> s | None \<Rightarrow> [])"

definition get_int :: "raw_map \<Rightarrow> bytes \<Rightarrow> int" where
  "get_int root key = (case Option.bind (map_of root key) um_int of Some i \<Rightarrow> i | None \<Rightarrow> 0)"

definition get_int_ptr :: "raw_map \<Rightarrow> bytes \<Rightarrow> int option" where
  "get_int_ptr root key = Option.bind (map_of root key) um_int"

definition collect_extra :: "bytes list \<Rightarrow> raw_map \<Rightarrow> gomap" where
  "collect_extra known root =
     fold (\<lambda>(k, raw) m. if k \<in> set known then m
        else (case um_any raw of Some v \<Rightarrow> AList.update k v m | None \<Rightarrow> m)) root []"

definition text_types :: "bytes list" where
  "text_types = [''response.output_text.delta'', ''response.refusal.delta'']"

definition reasoning_types :: "bytes list" where
  "reasoning_types = [''response.reasoning_text.delta'', ''response.reasoning_summary_text.delta'']"

definition tool_types :: "bytes list" where
  "tool_types = [''response.function_call_arguments.delta'', ''response.custom_tool_call_input.delta'',
     ''response.mcp_call_arguments.delta'', ''response.code_interpreter_call_code.delta'',
     ''response.shell_call_command.delta'', ''response.shell_call_output_content.delta'']"

definition text_known :: "bytes list" where
  "text_known = [''type'', ''item_id'', ''output_index'', ''content_index'', ''delta'', ''sequence_number'',
     ''response_id'', ''logprobs'']"

definition reasoning_known :: "bytes list" where
  "reasoning_known = [''type'', ''item_id'', ''output_index'', ''summary_index'', ''content_index'', ''delta'',
     ''sequence_number'', ''response_id'']"

definition tool_known :: "bytes list" where
  "tool_known = [''type'', ''item_id'', ''output_index'', ''call_id'', ''delta'', ''sequence_number'',
     ''response_id'']"

definition get_logprobs :: "raw_map \<Rightarrow> bool \<times> goval list option" where
  "get_logprobs root =
     (case map_of root ''logprobs'' of
        Some raw \<Rightarrow>
          if 0 < length raw \<and> raw \<noteq> lit_null
          then (True, stored_slice raw)
          else (False, None)
      | None \<Rightarrow> (False, None))"

definition text_segment :: "bytes \<Rightarrow> event \<Rightarrow> raw_map \<Rightarrow> common_metadata \<Rightarrow> response_text_segment" where
  "text_segment ty ev root m =
     \<lparr>rt_EventType = ty, rt_ResponseID = get_string root ''response_id'', rt_ItemID = get_string root ''item_id'',
      rt_OutputIndex = get_int root ''output_index'', rt_ContentIndex = get_int root ''content_index'',
      rt_SequenceNumber = get_int root ''sequence_number'', rt_Delta = get_string root ''delta'',
      rt_HasLogprobs = fst (get_logprobs root), rt_Logprobs = snd (get_logprobs root), rt_SSEID = ev_ID ev,
      rt_Extra = collect_extra text_known root, rt_Metadata = m\<rparr>"

definition reasoning_segment_of :: "bytes \<Rightarrow> event \<Rightarrow> raw_map \<Rightarrow> common_metadata \<Rightarrow> response_reasoning_segment" where
  "reasoning_segment_of ty ev root m =
     \<lparr>rr_EventType = ty, rr_ResponseID = get_string root ''response_id'', rr_ItemID = get_string root ''item_id'',
      rr_OutputIndex = get_int root ''output_index'', rr_ContentIndex = get_int_ptr root ''content_index'',
      rr_SummaryIndex = get_int_ptr root ''summary_index'',
      rr_SequenceNumber = get_int root ''sequence_number'', rr_Delta = get_string root ''delta'',
      rr_SSEID = ev_ID ev, rr_Extra = collect_extra reasoning_known root, rr_Metadata = m\<rparr>"

definition tool_segment_of :: "bytes \<Rightarrow> event \<Rightarrow> raw_map \<Rightarrow> common_metadata \<Rightarrow> response_tool_segment" where
  "tool_segment_of ty ev root m =
     \<lparr>rc_EventType = ty, rc_ResponseID = get_string root ''response_id'', rc_ItemID = get_string root ''item_id'',
      rc_OutputIndex = get_int root ''output_index'', rc_CallID = get_string root ''call_id'',
      rc_SequenceNumber = get_int root ''sequence_number'', rc_Delta = get_string root ''delta'',
      rc_SSEID = ev_ID ev, rc_Extra = collect_extra tool_known root, rc_Metadata = m\<rparr>"

text \<open>Usage and model of any other event: from \<open>response\<close>, else from the root and the metadata.\<close>

definition control_usage :: "raw_map \<Rightarrow> goval" where
  "control_usage root =
     (let resp = (case map_of root ''response'' of
                    Some raw \<Rightarrow> if 0 < length raw \<and> raw \<noteq> lit_null then um_map_any raw else None
                  | None \<Rightarrow> None);
          u = (case Option.bind resp (\<lambda>r. map_of r ''usage'') of Some u \<Rightarrow> u | None \<Rightarrow> GNil)
      in if u \<noteq> GNil then u
         else (case map_of root ''usage'' of
                 Some raw \<Rightarrow>
                   if 0 < length raw \<and> raw \<noteq> lit_null then stored_any raw else GNil
               | None \<Rightarrow> GNil))"

definition control_model :: "raw_map \<Rightarrow> common_metadata \<Rightarrow> bytes" where
  "control_model root m =
     (let resp = (case map_of root ''response'' of
                    Some raw \<Rightarrow> if 0 < length raw \<and> raw \<noteq> lit_null then um_map_any raw else None
                  | None \<Rightarrow> None);
          s = (case Option.bind resp (\<lambda>r. map_of r ''model'') of Some (GStr s) \<Rightarrow> s | _ \<Rightarrow> [])
      in if s \<noteq> [] then s else md_Model m)"

definition control_event :: "bytes \<Rightarrow> event \<Rightarrow> bytes \<Rightarrow> parser \<Rightarrow> response_control_segment" where
  "control_event ty ev data p =
     \<lparr>ct_EventType = ty, ct_ID = ev_ID ev, ct_Data = data, ct_Usage = GNil, ct_Model = [],
      ct_IsDone = False, ct_IsError = False, ct_Metadata = ps_meta p\<rparr>"

definition responses_type :: "event \<Rightarrow> raw_map \<Rightarrow> bytes" where
  "responses_type ev root = (if ev_Type ev = [] then get_string root ''type'' else ev_Type ev)"

definition parse_responses_root :: "event \<Rightarrow> bytes \<Rightarrow> raw_map \<Rightarrow> parser \<Rightarrow> segment \<times> parser" where
  "parse_responses_root ev data root p =
     (let ty = responses_type ev root;
          p = p\<lparr>ps_meta := extractResponsesMetadata root (ps_meta p)\<rparr>; m = ps_meta p
      in (if ty = ''error'' \<or> ty = ''response.failed'' \<or> map_of root ''error'' \<noteq> None
          then ResponseControl ((control_event ty ev data p)\<lparr>ct_IsError := True\<rparr>)
          else if ty \<in> set text_types then ResponseText (text_segment ty ev root m)
          else if ty \<in> set reasoning_types then ResponseReasoning (reasoning_segment_of ty ev root m)
          else if ty \<in> set tool_types then ResponseTool (tool_segment_of ty ev root m)
          else ResponseControl ((control_event ty ev data p)\<lparr>ct_Usage := control_usage root,
                 ct_Model := control_model root m\<rparr>), p))"

definition parseResponsesEvent :: "event \<Rightarrow> parser \<times> heap \<Rightarrow> segment list \<times> parser \<times> heap" where
  "parseResponsesEvent ev ph =
     (let data = trim_space (ev_Data ev); p = fst ph
      in if length data = 0 then ([], ph)
         else if data = done_marker
         then ([ResponseControl ((control_event (ev_Type ev) ev data p)\<lparr>ct_IsDone := True\<rparr>)], ph)
         else (case um_map_raw data of
                 None \<Rightarrow> ([ResponseControl (control_event (ev_Type ev) ev data p)], ph)
               | Some root \<Rightarrow>
                   (let (seg, p) = parse_responses_root ev data root p in ([seg], p, snd ph))))"

section \<open>Choosing the protocol\<close>

definition response_prefix :: bytes where "response_prefix = ''response.''"

definition response_data_prefix :: "bytes \<Rightarrow> bytes" where
  "response_data_prefix sep =
     CHR ''{'' # quote # ''type'' @ quote # CHR '':'' # sep @ quote # response_prefix"

definition isResponsesEvent :: "event \<Rightarrow> bool" where
  "isResponsesEvent ev =
     (if has_prefix (ev_Type ev) response_prefix then True
      else (let data = trim_space (ev_Data ev)
            in if has_prefix data (response_data_prefix []) \<or> has_prefix data (response_data_prefix '' '') then True
               else (case um_probe data of Some ty \<Rightarrow> has_prefix ty response_prefix | None \<Rightarrow> False)))"

definition ParseEvent :: "event \<Rightarrow> parser \<times> heap \<Rightarrow> segment list \<times> parser \<times> heap" where
  "ParseEvent ev ph =
     (case ps_protocol (fst ph) of
        ProtocolChatCompletions \<Rightarrow> parseChatCompletionsEvent ev ph
      | ProtocolResponses \<Rightarrow> parseResponsesEvent ev ph
      | ProtocolAuto \<Rightarrow>
          if isResponsesEvent ev then parseResponsesEvent ev ph else parseChatCompletionsEvent ev ph)"

fun parse_events :: "event list \<Rightarrow> parser \<times> heap \<Rightarrow> segment list list \<times> parser \<times> heap" where
  "parse_events [] ph = ([], ph)"
| "parse_events (ev # evs) ph =
     (let (segs, ph) = ParseEvent ev ph; (rest, ph) = parse_events evs ph in (segs # rest, ph))"

end
