(* ===== verification/Serializer.thy ===== *)
theory Serializer
  imports Semantic_Parser
begin

text \<open>
  \<open>pkg/semantic/serializer.go\<close>: segments back to server-sent events.  A \<open>map[string]interface{}\<close> is
  built by updates in the order of the code, so a later key replaces an earlier one; \<open>json.Marshal\<close> sorts
  the keys.  \<open>now\<close> is \<open>time.Now().Unix()\<close>.  \<open>None\<close> is the nil dereference of a tool call that
  \<open>Order\<close> names and \<open>Calls\<close> lacks.
\<close>

record serializer =
  modelOverride :: bytes

definition NewSerializer :: serializer where
  "NewSerializer = \<lparr>modelOverride = []\<rparr>"

definition SetModelOverride :: "bytes \<Rightarrow> serializer \<Rightarrow> serializer" where
  "SetModelOverride model s = s\<lparr>modelOverride := model\<rparr>"

abbreviation put :: "bytes \<Rightarrow> goval \<Rightarrow> gomap \<Rightarrow> gomap" where
  "put k v m \<equiv> AList.update k v m"

definition put_string :: "bytes \<Rightarrow> bytes \<Rightarrow> gomap \<Rightarrow> gomap" where
  "put_string k s m = (if s \<noteq> [] then put k (GStr s) m else m)"

definition chunk_object :: bytes where "chunk_object = ''chat.completion.chunk''"

definition baseMap :: "serializer \<Rightarrow> heap \<Rightarrow> int \<Rightarrow> common_metadata \<Rightarrow> gomap" where
  "baseMap s h now meta =
     (let m = put_string ''id'' (md_ID meta) [];
          m = put ''object'' (GStr (if md_Object meta \<noteq> [] then md_Object meta else chunk_object)) m;
          m = put ''created'' (GInt (if md_Created meta \<noteq> 0 then md_Created meta else now)) m;
          model = (if modelOverride s \<noteq> [] then modelOverride s else md_Model meta);
          m = put_string ''model'' model m;
          m = put_string ''system_fingerprint'' (md_SystemFingerprint meta) m;
          m = put_string ''service_tier'' (md_ServiceTier meta) m
      in put_all m (heap_get h (md_Extra meta)))"

text \<open>\<open>data, _ := json.Marshal(root)\<close>: no data if it fails.\<close>

definition marshal_or_nil :: "goval \<Rightarrow> bytes" where
  "marshal_or_nil v = (case json_marshal v of Some d \<Rightarrow> d | None \<Rightarrow> [])"

definition encode_root :: "gomap \<Rightarrow> bytes" where
  "encode_root root = EncodeData (marshal_or_nil (GObj root))"

definition choice_of :: "int \<Rightarrow> gomap \<Rightarrow> gomap" where
  "choice_of idx delta = [(''index'', GInt idx), (''delta'', GObj delta)]"

definition with_choice :: "gomap \<Rightarrow> gomap \<Rightarrow> gomap" where
  "with_choice root choice = put ''choices'' (GArr [GObj choice]) root"

definition serializeReasoning :: "serializer \<Rightarrow> heap \<Rightarrow> int \<Rightarrow> reasoning_segment \<Rightarrow> bytes" where
  "serializeReasoning s h now seg =
     encode_root (with_choice (baseMap s h now (rs_Metadata seg))
       (choice_of (rs_ChoiceIndex seg) [(rs_FieldName seg, GStr (rs_Text seg))]))"

definition serializeContent :: "serializer \<Rightarrow> heap \<Rightarrow> int \<Rightarrow> content_segment \<Rightarrow> bytes" where
  "serializeContent s h now seg =
     encode_root (with_choice (baseMap s h now (cs_Metadata seg))
       (choice_of (cs_ChoiceIndex seg) [(''content'', GStr (cs_Text seg))]))"

definition tool_item :: "tool_call_accumulator \<Rightarrow> gomap" where
  "tool_item call =
     (let item = [(''index'', GInt (tc_Index call)),
            (''function'', GObj [(''name'', GStr (tc_FunctionName call)), (''arguments'', GStr (tc_Arguments call))])];
          item = put_string ''id'' (tc_ID call) item
      in put_string ''type'' (tc_Type call) item)"

definition serializeToolCall :: "serializer \<Rightarrow> heap \<Rightarrow> int \<Rightarrow> tool_call_segment \<Rightarrow> bytes option" where
  "serializeToolCall s h now seg =
     map_option (\<lambda>calls. encode_root (with_choice (baseMap s h now (ts_Metadata seg))
         (choice_of (ts_ChoiceIndex seg) [(''tool_calls'', GArr (map (GObj \<circ> tool_item) calls))])))
       (those (map (map_of (ts_Calls seg)) (ts_Order seg)))"

definition serializeRole :: "serializer \<Rightarrow> heap \<Rightarrow> int \<Rightarrow> role_segment \<Rightarrow> bytes" where
  "serializeRole s h now seg =
     encode_root (with_choice (baseMap s h now (ro_Metadata seg))
       (choice_of (ro_ChoiceIndex seg) [(''role'', GStr (ro_Role seg))]))"

definition serializeFinish :: "serializer \<Rightarrow> heap \<Rightarrow> int \<Rightarrow> finish_segment \<Rightarrow> bytes" where
  "serializeFinish s h now seg =
     encode_root (with_choice (baseMap s h now (fs_Metadata seg))
       (put ''finish_reason'' (GStr (fs_FinishReason seg)) (choice_of (fs_ChoiceIndex seg) [])))"

definition serializeUsage :: "serializer \<Rightarrow> heap \<Rightarrow> int \<Rightarrow> usage_segment \<Rightarrow> bytes" where
  "serializeUsage s h now seg =
     encode_root (put ''usage'' (us_Usage seg) (put ''choices'' (GArr []) (baseMap s h now (us_Metadata seg))))"

definition serializeRaw :: "raw_segment \<Rightarrow> bytes" where
  "serializeRaw seg = (if rw_SegmentType seg = EventDone then EncodeDone else EncodeData (rw_Data seg))"

definition encode_delta :: "bytes \<Rightarrow> bytes \<Rightarrow> gomap \<Rightarrow> bytes" where
  "encode_delta ty sseid m =
     EncodeEvent \<lparr>ev_Type = ty, ev_Data = marshal_or_nil (GObj m), ev_ID = sseid, ev_Raw = []\<rparr>"

definition serializeResponseTextDelta :: "response_text_segment \<Rightarrow> bytes" where
  "serializeResponseTextDelta seg =
     (let m = put_all [] (rt_Extra seg);
          m = put ''type'' (GStr (rt_EventType seg)) m;
          m = put ''item_id'' (GStr (rt_ItemID seg)) m;
          m = put ''output_index'' (GInt (rt_OutputIndex seg)) m;
          m = put ''content_index'' (GInt (rt_ContentIndex seg)) m;
          m = put ''delta'' (GStr (rt_Delta seg)) m;
          m = put ''sequence_number'' (GInt (rt_SequenceNumber seg)) m;
          m = put_string ''response_id'' (rt_ResponseID seg) m;
          m = (if rt_HasLogprobs seg
               then put ''logprobs'' (case rt_Logprobs seg of Some vs \<Rightarrow> GArr vs | None \<Rightarrow> GNil) m else m)
      in encode_delta (rt_EventType seg) (rt_SSEID seg) m)"

definition put_int_ptr :: "bytes \<Rightarrow> int option \<Rightarrow> gomap \<Rightarrow> gomap" where
  "put_int_ptr k i m = (case i of Some i \<Rightarrow> put k (GInt i) m | None \<Rightarrow> m)"

definition serializeResponseReasoningDelta :: "response_reasoning_segment \<Rightarrow> bytes" where
  "serializeResponseReasoningDelta seg =
     (let m = put_all [] (rr_Extra seg);
          m = put ''type'' (GStr (rr_EventType seg)) m;
          m = put ''item_id'' (GStr (rr_ItemID seg)) m;
          m = put ''output_index'' (GInt (rr_OutputIndex seg)) m;
          m = put_int_ptr ''summary_index'' (rr_SummaryIndex seg) m;
          m = put_int_ptr ''content_index'' (rr_ContentIndex seg) m;
          m = put ''delta'' (GStr (rr_Delta seg)) m;
          m = put ''sequence_number'' (GInt (rr_SequenceNumber seg)) m;
          m = put_string ''response_id'' (rr_ResponseID seg) m
      in encode_delta (rr_EventType seg) (rr_SSEID seg) m)"

definition serializeResponseToolCallDelta :: "response_tool_segment \<Rightarrow> bytes" where
  "serializeResponseToolCallDelta seg =
     (let m = put_all [] (rc_Extra seg);
          m = put ''type'' (GStr (rc_EventType seg)) m;
          m = put ''item_id'' (GStr (rc_ItemID seg)) m;
          m = put ''output_index'' (GInt (rc_OutputIndex seg)) m;
          m = put ''delta'' (GStr (rc_Delta seg)) m;
          m = put ''sequence_number'' (GInt (rc_SequenceNumber seg)) m;
          m = put_string ''call_id'' (rc_CallID seg) m;
          m = put_string ''response_id'' (rc_ResponseID seg) m
      in encode_delta (rc_EventType seg) (rc_SSEID seg) m)"

definition serializeResponseControl :: "response_control_segment \<Rightarrow> bytes" where
  "serializeResponseControl seg =
     (if ct_IsDone seg then EncodeDone
      else EncodeEvent \<lparr>ev_Type = ct_EventType seg, ev_Data = ct_Data seg, ev_ID = ct_ID seg, ev_Raw = []\<rparr>)"

fun SerializeSegment :: "serializer \<Rightarrow> heap \<Rightarrow> int \<Rightarrow> segment \<Rightarrow> bytes option" where
  "SerializeSegment s h now (Reasoning v) = Some (serializeReasoning s h now v)"
| "SerializeSegment s h now (Content v) = Some (serializeContent s h now v)"
| "SerializeSegment s h now (ToolCall v) = serializeToolCall s h now v"
| "SerializeSegment s h now (Role v) = Some (serializeRole s h now v)"
| "SerializeSegment s h now (Finish v) = Some (serializeFinish s h now v)"
| "SerializeSegment s h now (Usage v) = Some (serializeUsage s h now v)"
| "SerializeSegment s h now (Raw v) = Some (serializeRaw v)"
| "SerializeSegment s h now (ResponseText v) = Some (serializeResponseTextDelta v)"
| "SerializeSegment s h now (ResponseReasoning v) = Some (serializeResponseReasoningDelta v)"
| "SerializeSegment s h now (ResponseTool v) = Some (serializeResponseToolCallDelta v)"
| "SerializeSegment s h now (ResponseControl v) = Some (serializeResponseControl v)"

end
