(* ===== verification/Round_Trip.thy ===== *)
theory Round_Trip
  imports Json_Laws Serializer
begin

text \<open>
  Writing, then reading, at the level of values and of segments.  \<open>jtext v\<close> is what \<open>json.Marshal\<close> writes for
  \<open>v\<close> and \<open>jv v\<close> what that text is read as.  A root map that was written is read back as the map of its
  members' texts, so the parser's lookups in it are lookups in what the serializer put there.
\<close>

section \<open>Values\<close>

definition clean_float :: "float64 \<Rightarrow> bool" where
  "clean_float f \<longleftrightarrow> (case f of F64 s m e \<Rightarrow> True | _ \<Rightarrow> False)
     \<and> scan_number (json_float f) = Some (json_float f, []) \<and> parse_float64 (json_float f) = Some f"

text \<open>
  Values \<open>Marshal\<close> writes so that they can be read: strings are UTF-8, keys distinct, and floats survive
  their decimal form (which can be computed for each float).
\<close>

fun writable :: "goval \<Rightarrow> bool" where
  "writable GNil \<longleftrightarrow> True"
| "writable (GBool b) \<longleftrightarrow> True"
| "writable (GFloat f) \<longleftrightarrow> clean_float f"
| "writable (GInt i) \<longleftrightarrow> True"
| "writable (GStr s) \<longleftrightarrow> valid_utf8 s"
| "writable (GArr vs) \<longleftrightarrow> list_all writable vs"
| "writable (GObj kvs) \<longleftrightarrow> distinct (map fst kvs) \<and> list_all (\<lambda>(k, v). valid_utf8 k \<and> writable v) kvs"

fun gdepth :: "goval \<Rightarrow> nat" where
  "gdepth (GArr vs) = Suc (Max (insert 0 (set (map gdepth vs))))"
| "gdepth (GObj kvs) = Suc (Max (insert 0 (set (map (\<lambda>(k, v). gdepth v) kvs))))"
| "gdepth _ = 0"

definition jtext :: "goval \<Rightarrow> bytes" where
  "jtext v = the (json_marshal v)"

fun jv :: "goval \<Rightarrow> jval" where
  "jv GNil = JNull"
| "jv (GBool b) = JBool b"
| "jv (GFloat f) = JNum (json_float f)"
| "jv (GInt i) = JNum (int_digits i)"
| "jv (GStr s) = JStr s"
| "jv (GArr vs) = JArr (map (\<lambda>v. (jtext v, jv v)) vs)"
| "jv (GObj kvs) = JObj (sort_key fst (map (\<lambda>(k, v). (k, jtext v, jv v)) kvs))"

lemma those_map_Some: "list_all (\<lambda>x. f x = Some (g x)) xs \<Longrightarrow> those (map f xs) = Some (map g xs)"
  by (induction xs) auto

lemma Max_insert_0: "(x :: nat) \<in> set xs \<Longrightarrow> x \<le> Max (insert 0 (set xs))"
  by (intro Max_ge) auto

lemma zip_maps: "zip (map f xs) (map g xs) = map (\<lambda>x. (f x, g x)) xs"
  by (induction xs) auto

lemma marshal_reads:
  "writable v \<Longrightarrow> json_marshal v = Some (jtext v) \<and> reads_as (jtext v) (jv v) (gdepth v)"
proof (induction v)
  case GNil
  then show ?case by (simp add: jtext_def reads_literals)
next
  case (GBool b)
  then show ?case by (cases b) (simp_all add: jtext_def reads_literals)
next
  case (GFloat f)
  then show ?case by (cases f) (simp_all add: jtext_def clean_float_def reads_number)
next
  case (GInt i)
  then show ?case by (simp add: jtext_def reads_number scan_int_digits)
next
  case (GStr s)
  then show ?case by (simp add: jtext_def reads_string)
next
  case (GArr vs)
  have each: "json_marshal v = Some (jtext v) \<and> reads_as (jtext v) (jv v) (gdepth v)" if "v \<in> set vs" for v
    using GArr.IH [OF that] GArr.prems that by (simp add: list_all_iff)
  then have m: "json_marshal (GArr vs) = Some (array_text (map jtext vs))"
    by (simp add: those_map_Some [where g = jtext] list_all_iff)
  let ?k = "Max (insert 0 (set (map gdepth vs)))"
  have "list_all2 (\<lambda>t v. reads_as t v ?k) (map jtext vs) (map jv vs)"
    unfolding list_all2_map1 list_all2_map2 list_all2_same
    using each reads_as_mono Max_insert_0 [of _ "map gdepth vs"] by fastforce
  from reads_array [OF this] have "reads_as (array_text (map jtext vs)) (jv (GArr vs)) (gdepth (GArr vs))"
    by (simp only: zip_maps jv.simps gdepth.simps)
  moreover have "jtext (GArr vs) = array_text (map jtext vs)" unfolding jtext_def [of "GArr vs"] m by simp
  ultimately show ?case using m by (simp only:)
next
  case (GObj kvs)
  have each: "valid_utf8 k \<and> json_marshal v = Some (jtext v) \<and> reads_as (jtext v) (jv v) (gdepth v)"
    if "(k, v) \<in> set kvs" for k v
    using GObj.IH [OF that, of v] GObj.prems that by (auto simp: list_all_iff)
  let ?ms = "map (\<lambda>(k, v). (k, jtext v, jv v)) kvs"
  have "those (map (\<lambda>(k, v). map_option (Pair k) (json_marshal v)) kvs) = Some (map unread ?ms)"
    by (subst those_map_Some [where g = "\<lambda>(k, v). (k, jtext v)"]) (auto simp: list_all_iff each)
  then have m: "json_marshal (GObj kvs) = Some (object_text (map unread ?ms))" by simp
  let ?k = "Max (insert 0 (set (map (\<lambda>(k, v). gdepth v) kvs)))"
  have "gdepth v \<le> ?k" if "(k, v) \<in> set kvs" for k v
    using that by (intro Max_insert_0) force
  then have "list_all (member_ok ?k) ?ms"
    using each reads_as_mono by (fastforce simp: list_all_iff member_ok_def)
  from reads_object [OF this] have "reads_as (object_text (map unread ?ms)) (jv (GObj kvs)) (gdepth (GObj kvs))"
    by (simp only: jv.simps gdepth.simps)
  moreover have "jtext (GObj kvs) = object_text (map unread ?ms)" unfolding jtext_def m by simp
  ultimately show ?case using m by (simp only:)
qed

lemma json_parse_jtext: "writable v \<Longrightarrow> gdepth v \<le> 10000 \<Longrightarrow> json_parse (jtext v) = Some (jv v)"
  using marshal_reads [of v] reads_as_json_parse by blast

lemma marshal_or_nil_jtext: "writable v \<Longrightarrow> marshal_or_nil v = jtext v"
  using marshal_reads [of v] by (simp add: marshal_or_nil_def)

lemma jtext_nonempty: "writable v \<Longrightarrow> jtext v \<noteq> []"
  using marshal_reads [of v] reads_as_nonempty by blast

section \<open>Reading scalars and values back\<close>

lemma um_jtext_string:
  assumes "valid_utf8 s"
  shows "um_string (jtext (GStr s)) = Some s" "um_string_ptr (jtext (GStr s)) = Some (Some s)"
  using json_parse_jtext [of "GStr s"] assms by (simp_all add: um_string_def um_string_ptr_def)

lemma um_jtext_int:
  "int64_range i \<Longrightarrow> um_int (jtext (GInt i)) = Some i"
  using json_parse_jtext [of "GInt i"] by (simp add: um_int_def parse_int_digits)

text \<open>Values that came from JSON hold no Go integers; reading sorts the keys of their objects.\<close>

fun from_json :: "goval \<Rightarrow> bool" where
  "from_json (GInt i) \<longleftrightarrow> False"
| "from_json (GArr vs) \<longleftrightarrow> list_all from_json vs"
| "from_json (GObj kvs) \<longleftrightarrow> list_all (\<lambda>(k, v). from_json v) kvs"
| "from_json _ \<longleftrightarrow> True"

fun canon :: "goval \<Rightarrow> goval" where
  "canon (GArr vs) = GArr (map canon vs)"
| "canon (GObj kvs) = GObj (sort_key fst (map (\<lambda>(k, v). (k, canon v)) kvs))"
| "canon v = v"

lemma insort_key_map_snd:
  "insort_key fst (k, f x) (map (\<lambda>(k, x). (k, f x)) xs) = map (\<lambda>(k, x). (k, f x)) (insort_key fst (k, x) xs)"
  by (induction xs) auto

lemma sort_key_map_snd:
  "sort_key fst (map (\<lambda>(k, x). (k, f x)) xs) = map (\<lambda>(k, x). (k, f x)) (sort_key fst xs)"
  by (induction xs) (auto simp: insort_key_map_snd)

lemma map_fst_case [simp]: "map fst (map (\<lambda>(k, x). (k, f x)) xs) = map fst xs"
  by (induction xs) auto

lemma distinct_sorted_members:
  "distinct (map fst m) \<Longrightarrow> distinct (map fst (map (\<lambda>(k, v). (k, f v)) (sort_key fst m)))"
  by (simp only: map_fst_case) (simp add: distinct_map)

lemma any_jv: "writable v \<Longrightarrow> from_json v \<Longrightarrow> any_ok (jv v) \<and> any_val (jv v) = canon v"
proof (induction v)
  case (GFloat f)
  then show ?case by (simp add: clean_float_def)
next
  case (GArr vs)
  then show ?case by (auto simp: list_all_iff)
next
  case (GObj kvs)
  have each: "any_ok (jv v) \<and> any_val (jv v) = canon v" if "(k, v) \<in> set kvs" for k v
    using GObj.IH [OF that, of v] GObj.prems that by (auto simp: list_all_iff)
  have d: "distinct (map fst kvs)" using GObj.prems by simp
  have jv: "jv (GObj kvs) = JObj (map (\<lambda>(k, v). (k, jtext v, jv v)) (sort_key fst kvs))"
    using sort_key_map_snd [of "\<lambda>v. (jtext v, jv v)" kvs] by simp
  have "map (\<lambda>(k, raw, v). (k, any_val v)) (map (\<lambda>(k, v). (k, jtext v, jv v)) (sort_key fst kvs))
      = map (\<lambda>(k, v). (k, canon v)) (sort_key fst kvs)"
    using each by auto
  moreover have "distinct (map fst ([] @ map (\<lambda>(k, v). (k, canon v)) (sort_key fst kvs)))"
    unfolding append_Nil by (rule distinct_sorted_members [OF d])
  ultimately have "any_val (jv (GObj kvs)) = GObj (map (\<lambda>(k, v). (k, canon v)) (sort_key fst kvs))"
    unfolding jv by (simp only: any_val.simps put_all_fresh append_Nil)
  moreover have "any_ok (jv (GObj kvs))" unfolding jv using each by (auto simp: list_all_iff)
  ultimately show ?case by (simp only: canon.simps sort_key_map_snd)
qed simp_all

lemma um_any_jtext:
  assumes "writable v" "from_json v" "gdepth v \<le> 10000"
  shows "um_any (jtext v) = Some (canon v)"
  using json_parse_jtext [OF assms(1,3)] any_jv [OF assms(1,2)] by (simp add: um_any_def)

text \<open>A written object as a map of texts: looking a key up is looking up what was put there.\<close>

lemma um_map_raw_jtext:
  assumes "writable (GObj m)" "gdepth (GObj m) \<le> 10000"
  obtains root where "um_map_raw (jtext (GObj m)) = Some root"
    "\<And>k. map_of root k = map_option jtext (map_of m k)" "distinct (map fst root)"
    "root = map (\<lambda>(k, v). (k, jtext v)) (sort_key fst m)"
proof -
  have d: "distinct (map fst m)" using assms(1) by simp
  have jv: "jv (GObj m) = JObj (map (\<lambda>(k, v). (k, jtext v, jv v)) (sort_key fst m))"
    using sort_key_map_snd [of "\<lambda>v. (jtext v, jv v)" m] by simp
  let ?root = "map (\<lambda>(k, v). (k, jtext v)) (sort_key fst m)"
  have "map (\<lambda>(k, r, v). (k, r)) (map (\<lambda>(k, v). (k, jtext v, jv v)) (sort_key fst m)) = ?root" by auto
  moreover have dr: "distinct (map fst ?root)" by (rule distinct_sorted_members [OF d])
  moreover have "put_all [] ?root = ?root" using put_all_fresh [of "[]" ?root] dr by (simp only: append_Nil)
  ultimately have um: "um_map_raw (jtext (GObj m)) = Some ?root"
    using json_parse_jtext [OF assms] unfolding jv by (simp only: um_map_raw_def option.case jval.case)
  have "map_of ?root k = map_option jtext (map_of m k)" for k
    using map_of_sorted [OF d] by (simp add: map_of_map)
  with um dr that show thesis by blast
qed

section \<open>Written texts are one line\<close>

definition printable :: "bytes \<Rightarrow> bool" where
  "printable t \<longleftrightarrow> (\<forall>c \<in> set t. 32 \<le> byte c)"

lemma printable_append [simp]: "printable (s @ t) \<longleftrightarrow> printable s \<and> printable t"
  by (auto simp: printable_def)

lemma printable_Cons [simp]: "printable (c # t) \<longleftrightarrow> 32 \<le> byte c \<and> printable t"
  by (auto simp: printable_def)

lemma printable_Nil [simp]: "printable []"
  by (simp add: printable_def)

lemma hex_char_printable: "n < 16 \<Longrightarrow> 32 \<le> byte (hex_char n)"
  by (auto simp: hex_char_def)

lemma u_escape_printable: "printable (u_escape r)"
  by (simp add: u_escape_def hex_char_printable)

lemma escape_char_printable: "printable (escape_char c)"
  by (cases rule: escape_char_cases [of c])
    (auto simp: u_escape_printable simple_escape_def split: if_splits)

lemma escape_string_printable: "printable (escape_string s)"
proof (induction s rule: escape_string.induct)
  case (1 s)
  show ?case
  proof (cases s)
    case Nil
    then show ?thesis by (simp add: escape_string.simps)
  next
    case (Cons c t)
    show ?thesis
    proof (cases "byte c < 128")
      case True
      with 1(1) [OF Cons] Cons show ?thesis
        by (subst escape_string.simps) (simp add: escape_char_printable)
    next
      case False
      have "printable (take (snd (decode_rune s)) s)" if "good_rune s"
        using good_rune_wide(4) [OF that Cons False] by (auto simp: printable_def)
      with 1(2) [OF Cons False] Cons False show ?thesis
        by (subst escape_string.simps) (auto simp: u_escape_printable)
    qed
  qed
qed

lemma digits_printable: "printable (digits_prefix s)"
  by (auto simp: printable_def digits_prefix_def is_digit_def dest: set_takeWhileD)

lemma number_printable:
  assumes "scan_number s = Some (t, u)"
  shows "printable t"
proof -
  have "printable (minus_sign s)" for s by (auto simp: minus_sign_def split: list.splits)
  moreover have "printable (int_part s)" for s
    by (auto simp: int_part_def digits_printable split: list.splits)
  moreover have "printable f" if "frac_part s = Some f" for s f
    using that by (auto simp: frac_part_def digits_printable split: list.splits if_splits)
  moreover have "printable e" if "exp_part s = Some e" for s e
    using that by (auto simp: exp_part_def exp_sign_def Let_def digits_printable split: list.splits if_splits)
  ultimately show ?thesis using assms
    by (auto simp: scan_number_def Let_def split: if_splits option.splits)
qed

lemma join_printable: "\<forall>t \<in> set ts. printable t \<Longrightarrow> printable (join '','' ts)"
proof (induction ts)
  case (Cons t ts)
  then show ?case by (cases ts) simp_all
qed simp

lemma jtext_printable: "writable v \<Longrightarrow> printable (jtext v)"
proof (induction v)
  case (GFloat f)
  then show ?case using number_printable by (cases f) (auto simp: jtext_def clean_float_def)
next
  case (GInt i)
  then show ?case using number_printable [OF scan_int_digits] by (simp add: jtext_def)
next
  case (GArr vs)
  have "json_marshal v = Some (jtext v)" if "v \<in> set vs" for v
    using GArr.prems marshal_reads that by (auto simp: list_all_iff)
  then have "jtext (GArr vs) = array_text (map jtext vs)"
    by (simp add: jtext_def [of "GArr vs"] those_map_Some [where g = jtext] list_all_iff)
  moreover have "printable (join '','' (map jtext vs))"
    using GArr by (intro join_printable) (auto simp: list_all_iff)
  ultimately show ?case by (simp add: array_text_def)
next
  case (GObj kvs)
  have each: "json_marshal v = Some (jtext v)" "printable (jtext v)" if "(k, v) \<in> set kvs" for k v
    using GObj.prems GObj.IH [OF that, of v] marshal_reads that by (auto simp: list_all_iff)
  then have "those (map (\<lambda>(k, v). map_option (Pair k) (json_marshal v)) kvs) = Some (map (\<lambda>(k, v). (k, jtext v)) kvs)"
    by (intro those_map_Some) (auto simp: list_all_iff)
  then have "jtext (GObj kvs) = object_text (map (\<lambda>(k, v). (k, jtext v)) kvs)"
    by (simp add: jtext_def [of "GObj kvs"])
  moreover have "printable (join '','' (map member_text (sort_key fst (map (\<lambda>(k, v). (k, jtext v)) kvs))))"
    using each by (intro join_printable)
      (auto simp: member_text_def quote_string_def escape_string_printable)
  ultimately show ?case by (simp add: object_text_def)
qed (simp_all add: jtext_def lit_null_def lit_true_def lit_false_def quote_string_def escape_string_printable)

lemma printable_clean:
  assumes "printable t"
  shows "split_on nl t = [t]" "clean_line t"
proof -
  have "nl \<notin> set t" "cr \<notin> set t" using assms by (auto simp: printable_def)
  then show "split_on nl t = [t]" "clean_line t"
    by (auto simp: split_on_fresh clean_line_def dest: last_in_set)
qed

lemma jtext_object_shape:
  assumes "writable (GObj m)"
  shows "\<exists>u. jtext (GObj m) = CHR ''{'' # u @ ''}''"
proof -
  from marshal_reads [OF assms] have "json_marshal (GObj m) = Some (jtext (GObj m))" by blast
  then obtain z where "object_text z = jtext (GObj m)" by auto
  then have "jtext (GObj m) = object_text z" by (rule sym)
  then show ?thesis by (simp add: object_text_def)
qed

lemma trim_jtext_object:
  assumes "writable (GObj m)"
  shows "trim_space (jtext (GObj m)) = jtext (GObj m)" "jtext (GObj m) \<noteq> done_marker" "jtext (GObj m) \<noteq> []"
    "jtext (GObj m) \<noteq> lit_null"
proof -
  obtain u where u: "jtext (GObj m) = CHR ''{'' # u @ ''}''" using jtext_object_shape [OF assms] by blast
  show "trim_space (jtext (GObj m)) = jtext (GObj m)"
    by (rule trim_space_id) (simp_all add: u ascii_space_def)
  show "jtext (GObj m) \<noteq> done_marker" "jtext (GObj m) \<noteq> []" "jtext (GObj m) \<noteq> lit_null"
    by (simp_all add: u done_marker_def lit_null_def)
qed

end
