(* ===== verification/Chat_Trip.thy ===== *)
theory Chat_Trip
  imports Round_Trip
begin

text \<open>
  Chat completion segments, written by the serializer and read by a parser: each comes back as it was,
  with the metadata of the parser that read it.
\<close>

section \<open>The choice of a written chunk\<close>

lemma sorted_choice:
  "sort_key fst [(''index'', a), (''delta'', b)] = [(''delta'', b), (''index'', a)]"
  "sort_key fst [(''index'', a), (''delta'', b), (''finish_reason'', c)]
     = [(''delta'', b), (''finish_reason'', c), (''index'', a)]"
  by simp_all

lemma names_choice:
  "names ''index'' ''index''" "\<not> names ''index'' ''delta''" "names ''delta'' ''delta''"
  "\<not> names ''index'' ''finish_reason''" "\<not> names ''delta'' ''finish_reason''"
  "names ''finish_reason'' ''finish_reason''"
  by (simp_all add: names_def)

definition writable_to :: "nat \<Rightarrow> goval \<Rightarrow> bool" where
  "writable_to d v \<longleftrightarrow> writable v \<and> gdepth v \<le> d"

lemma writable_to_obj:
  "writable_to (Suc d) (GObj kvs) \<longleftrightarrow>
     distinct (map fst kvs) \<and> list_all (\<lambda>(k, v). valid_utf8 k \<and> writable_to d v) kvs"
  by (auto simp: writable_to_def list_all_iff)

lemma writable_to_arr: "writable_to (Suc d) (GArr vs) \<longleftrightarrow> list_all (writable_to d) vs"
  by (auto simp: writable_to_def list_all_iff)

lemma writable_to_leaf [simp]:
  "writable_to d (GStr s) \<longleftrightarrow> valid_utf8 s" "writable_to d (GInt i)" "writable_to d GNil" "writable_to d (GBool b)"
  by (simp_all add: writable_to_def)

lemma writable_to_mono: "writable_to d v \<Longrightarrow> d \<le> d' \<Longrightarrow> writable_to d' v"
  by (simp add: writable_to_def)

lemma writable_to_parse: "writable_to d v \<Longrightarrow> d \<le> 10000 \<Longrightarrow> json_parse (jtext v) = Some (jv v)"
  by (simp add: writable_to_def json_parse_jtext)

lemma valid_utf8_literals [simp]:
  "valid_utf8 ''index''" "valid_utf8 ''delta''" "valid_utf8 ''finish_reason''" "valid_utf8 ''choices''"
  "valid_utf8 ''usage''" "valid_utf8 ''content''" "valid_utf8 ''role''" "valid_utf8 ''tool_calls''"
  "valid_utf8 ''id''" "valid_utf8 ''type''" "valid_utf8 ''function''" "valid_utf8 ''name''"
  "valid_utf8 ''arguments''"
  by simp_all

lemma um_choices_written:
  assumes "writable_to d (GObj delta)" "Suc (Suc d) \<le> 10000" "int64_range idx"
  shows "um_choices (jtext (GArr [GObj (choice_of idx delta)]))
    = Some [\<lparr>cc_Index = idx, cc_Delta = jtext (GObj delta), cc_FinishReason = None\<rparr>]"
proof -
  have "writable_to (Suc (Suc d)) (GArr [GObj (choice_of idx delta)])"
    using assms(1) by (simp add: writable_to_arr writable_to_obj [of "Suc d"] choice_of_def)
      (simp add: writable_to_def)
  from writable_to_parse [OF this assms(2)]
  have "json_parse (jtext (GArr [GObj (choice_of idx delta)])) = Some (jv (GArr [GObj (choice_of idx delta)]))" .
  then show ?thesis
    using assms(3)
    by (simp add: um_choices_def um_structs_def um_struct_def choice_of_def choice_member_def
        names_choice zero_choice_def set_field_def keep_or_def parse_int_digits)
qed

lemma um_choices_finish:
  assumes "valid_utf8 r" "int64_range idx"
  shows "um_choices (jtext (GArr [GObj (put ''finish_reason'' (GStr r) (choice_of idx []))]))
    = Some [\<lparr>cc_Index = idx, cc_Delta = jtext (GObj []), cc_FinishReason = Some r\<rparr>]"
proof -
  let ?v = "GArr [GObj (put ''finish_reason'' (GStr r) (choice_of idx []))]"
  have "writable ?v" "gdepth ?v \<le> 10000" using assms(1) by (simp_all add: choice_of_def)
  from json_parse_jtext [OF this] show ?thesis using assms(2)
    by (simp add: um_choices_def um_structs_def um_struct_def choice_of_def choice_member_def
        names_choice zero_choice_def set_field_def keep_or_def parse_int_digits)
qed

section \<open>Tool calls\<close>

definition call_ok :: "tool_call_accumulator \<Rightarrow> bool" where
  "call_ok c \<longleftrightarrow> int64_range (tc_Index c) \<and> valid_utf8 (tc_ID c) \<and> valid_utf8 (tc_Type c)
     \<and> valid_utf8 (tc_FunctionName c) \<and> valid_utf8 (tc_Arguments c)"

definition delta_of :: "tool_call_accumulator \<Rightarrow> tool_call_delta" where
  "delta_of c = \<lparr>td_Index = tc_Index c, td_ID = tc_ID c, td_Type = tc_Type c,
     td_Function = Some \<lparr>fd_Name = tc_FunctionName c, fd_Arguments = tc_Arguments c\<rparr>\<rparr>"

lemma accumulator_of_delta_of [simp]: "accumulator_of (delta_of c) = c"
  by (simp add: accumulator_of_def delta_of_def)

lemma names_tool:
  "names ''index'' ''index''" "\<not> names ''index'' ''id''" "\<not> names ''index'' ''type''"
  "\<not> names ''index'' ''function''" "names ''id'' ''id''" "\<not> names ''id'' ''type''" "\<not> names ''id'' ''function''"
  "names ''type'' ''type''" "\<not> names ''type'' ''function''" "names ''function'' ''function''"
  "names ''name'' ''name''" "\<not> names ''name'' ''arguments''" "names ''arguments'' ''arguments''"
  by (simp_all add: names_def)

lemma writable_tool_item: "call_ok c \<Longrightarrow> writable_to (Suc (Suc 0)) (GObj (tool_item c))"
  by (auto simp: writable_to_obj tool_item_def call_ok_def put_string_def Let_def)

lemma um_struct_tool_item:
  assumes "call_ok c"
  shows "um_struct tool_member zero_tool members_of (jv (GObj (tool_item c))) = Some (delta_of c)"
  using assms
  by (cases "tc_ID c = []"; cases "tc_Type c = []")
    (simp_all add: um_struct_def tool_item_def put_string_def call_ok_def Let_def tool_member_def names_tool
      zero_tool_def set_field_def keep_or_def parse_int_digits tool_function_def function_member_def delta_of_def)

lemma writable_tool_items:
  "list_all call_ok cs \<Longrightarrow> writable_to (Suc (Suc (Suc 0))) (GArr (map (GObj \<circ> tool_item) cs))"
  using writable_tool_item by (simp add: writable_to_arr list_all_iff)

lemma um_tool_calls_written:
  assumes "list_all call_ok cs"
  shows "um_tool_calls (jtext (GArr (map (GObj \<circ> tool_item) cs))) = Some (map delta_of cs)"
proof -
  have "json_parse (jtext (GArr (map (GObj \<circ> tool_item) cs))) = Some (jv (GArr (map (GObj \<circ> tool_item) cs)))"
    by (rule writable_to_parse [OF writable_tool_items [OF assms]]) simp
  moreover have "those (map (\<lambda>c. um_struct tool_member zero_tool members_of (jv (GObj (tool_item c)))) cs)
      = Some (map delta_of cs)"
    using assms um_struct_tool_item by (intro those_map_Some) (simp add: list_all_iff)
  ultimately show ?thesis by (simp add: um_tool_calls_def um_structs_def comp_def)
qed

lemma update_fresh: "k \<notin> fst ` set m \<Longrightarrow> AList.update k v m = m @ [(k, v)]"
  by (induction m) auto

lemma tool_segment_fresh:
  assumes "distinct (ts_Order s @ map td_Index tcs)" "set (map fst (ts_Calls s)) = set (ts_Order s)"
  shows "fold (\<lambda>tc s. s\<lparr>ts_Order := ts_Order s @ [td_Index tc],
                     ts_Calls := AList.update (td_Index tc) (accumulator_of tc) (ts_Calls s)\<rparr>) tcs s
    = s\<lparr>ts_Order := ts_Order s @ map td_Index tcs,
        ts_Calls := ts_Calls s @ map (\<lambda>tc. (td_Index tc, accumulator_of tc)) tcs\<rparr>"
  using assms
proof (induction tcs arbitrary: s)
  case (Cons tc tcs)
  have "td_Index tc \<notin> fst ` set (ts_Calls s)" using Cons.prems by auto
  then have u: "AList.update (td_Index tc) (accumulator_of tc) (ts_Calls s)
      = ts_Calls s @ [(td_Index tc, accumulator_of tc)]"
    by (rule update_fresh)
  show ?case
    using Cons.prems by (simp add: u Cons.IH)
qed simp

lemma tool_segment_delta_of:
  assumes "distinct (map tc_Index cs)"
  shows "tool_segment idx m (map delta_of cs)
    = \<lparr>ts_ChoiceIndex = idx, ts_Order = map tc_Index cs, ts_Calls = map (\<lambda>c. (tc_Index c, c)) cs, ts_Metadata = m\<rparr>"
proof -
  have i: "td_Index (delta_of c) = tc_Index c" for c by (simp add: delta_of_def)
  show ?thesis
    unfolding tool_segment_def using assms
    by (subst tool_segment_fresh) (simp_all add: comp_def i)
qed

section \<open>The root of a written chunk\<close>

definition written :: "gomap \<Rightarrow> raw_map" where
  "written m = map (\<lambda>(k, v). (k, jtext v)) (sort_key fst m)"

lemma um_map_raw_written:
  assumes "writable_to 10000 (GObj m)"
  shows "um_map_raw (jtext (GObj m)) = Some (written m)" "map_of (written m) k = map_option jtext (map_of m k)"
proof -
  have "writable (GObj m)" "gdepth (GObj m) \<le> 10000" using assms by (simp_all add: writable_to_def)
  from um_map_raw_jtext [OF this] show "um_map_raw (jtext (GObj m)) = Some (written m)"
    "map_of (written m) k = map_option jtext (map_of m k)"
    unfolding written_def by metis+
qed

lemma in_set_update: "x \<in> set (AList.update k v m) \<Longrightarrow> x = (k, v) \<or> x \<in> set m"
  by (induction m) (auto split: if_splits)

lemma writable_put:
  assumes "writable_to (Suc d) (GObj m)" "valid_utf8 k" "writable_to d v"
  shows "writable_to (Suc d) (GObj (put k v m))"
  using assms by (auto simp: writable_to_obj list_all_iff distinct_update dest: in_set_update)

definition data_event :: "bytes \<Rightarrow> event" where
  "data_event d = \<lparr>ev_Type = [], ev_Data = d, ev_ID = [], ev_Raw = []\<rparr>"

lemma parse_chat_written:
  assumes "writable_to 10000 (GObj m)"
  shows "parseChatCompletionsEvent (data_event (jtext (GObj m))) ph
    = parse_chat_root (jtext (GObj m)) (written m) ph"
proof -
  have "writable (GObj m)" using assms by (simp add: writable_to_def)
  note t = trim_jtext_object [OF this]
  show ?thesis
    using t um_map_raw_written(1) [OF assms] by (simp add: parseChatCompletionsEvent_def data_event_def)
qed

lemma jtext_not_null: "writable v \<Longrightarrow> v \<noteq> GNil \<Longrightarrow> jtext v \<noteq> lit_null"
proof -
  assume w: "writable v" and "v \<noteq> GNil"
  show ?thesis
  proof
    assume "jtext v = lit_null"
    then have "reads_as lit_null (jv v) (gdepth v)" using marshal_reads [OF w] by simp
    moreover have "reads_as lit_null JNull 0" by (rule reads_literals)
    ultimately have "jv v = JNull"
      using reads_as_parse [of lit_null "jv v" "gdepth v" "2 * length lit_null + 1" "gdepth v" "[]"]
        reads_as_parse [of lit_null JNull 0 "2 * length lit_null + 1" "gdepth v" "[]"] by simp
    with \<open>v \<noteq> GNil\<close> show False by (cases v) auto
  qed
qed

text \<open>What a segment's metadata contribute to a root, if they can be written and hold no key of another meaning.\<close>

definition base_ok :: "gomap \<Rightarrow> bool" where
  "base_ok R \<longleftrightarrow> writable_to 10000 (GObj R) \<and> map_of R ''error'' = None \<and> map_of R ''usage'' = None"

lemma writable_with_choice:
  assumes "writable_to (Suc (Suc d)) (GObj R)" "writable_to d (GObj c)"
  shows "writable_to (Suc (Suc d)) (GObj (with_choice R c))"
proof -
  have "writable_to (Suc d) (GArr [GObj c])" using assms(2) by (simp only: writable_to_arr list.pred_inject)
  with assms(1) show ?thesis unfolding with_choice_def by (intro writable_put) simp_all
qed

lemma writable_choice_of:
  "writable_to d (GObj delta) \<Longrightarrow> writable_to (Suc d) (GObj (choice_of idx delta))"
  unfolding choice_of_def by (simp only: writable_to_obj list.pred_inject) simp

lemma read_choice:
  assumes "base_ok R" "writable_to 10000 (GObj (with_choice R c))"
    "um_choices (jtext (GArr [GObj c])) = Some [cc]"
    "extractMetadata (written (with_choice R c)) (h, ps_meta p) = (h', m)"
    "parseChoice cc (p\<lparr>ps_meta := m\<rparr>) = (segs, p')" "segs \<noteq> []"
  shows "parseChatCompletionsEvent (data_event (marshal_or_nil (GObj (with_choice R c)))) (p, h) = (segs, p', h')"
proof -
  let ?root = "with_choice R c"
  have w: "writable (GObj ?root)" using assms(2) by (simp add: writable_to_def)
  have wc: "writable (GArr [GObj c])"
  proof -
    have "map_of ?root ''choices'' = Some (GArr [GObj c])" by (simp add: with_choice_def update_conv')
    then have "(''choices'', GArr [GObj c]) \<in> set ?root" by (rule map_of_SomeD)
    moreover have "list_all (\<lambda>(k, v). valid_utf8 k \<and> writable v) ?root" using w by (simp only: writable.simps)
    ultimately show ?thesis unfolding list_all_iff by blast
  qed
  note look = um_map_raw_written(2) [OF assms(2)]
  have lk: "map_of (written ?root) ''error'' = None" "map_of (written ?root) ''usage'' = None"
    "map_of (written ?root) ''choices'' = Some (jtext (GArr [GObj c]))"
    using assms(1) unfolding look by (simp_all add: with_choice_def update_conv' base_ok_def)
  have "jtext (GArr [GObj c]) \<noteq> []" "jtext (GArr [GObj c]) \<noteq> lit_null"
    using wc jtext_nonempty jtext_not_null by blast+
  then show ?thesis
    using assms(3-6) lk
    by (simp add: marshal_or_nil_jtext [OF w] parse_chat_written [OF assms(2)] parse_chat_root_def
        parse_root_choices_def parse_usage_def)
qed

section \<open>Segments that a chat stream can carry\<close>

fun seg_meta :: "segment \<Rightarrow> common_metadata" where
  "seg_meta (Reasoning v) = rs_Metadata v"
| "seg_meta (Content v) = cs_Metadata v"
| "seg_meta (ToolCall v) = ts_Metadata v"
| "seg_meta (Role v) = ro_Metadata v"
| "seg_meta (Finish v) = fs_Metadata v"
| "seg_meta (Usage v) = us_Metadata v"
| "seg_meta (Raw v) = rw_Metadata v"
| "seg_meta (ResponseText v) = rt_Metadata v"
| "seg_meta (ResponseReasoning v) = rr_Metadata v"
| "seg_meta (ResponseTool v) = rc_Metadata v"
| "seg_meta (ResponseControl v) = ct_Metadata v"

text \<open>The calls of a segment in the order they are written, each under its own index.\<close>

definition calls_in_order :: "tool_call_segment \<Rightarrow> tool_call_accumulator list" where
  "calls_in_order t = map (the \<circ> map_of (ts_Calls t)) (ts_Order t)"

definition tool_clean :: "tool_call_segment \<Rightarrow> bool" where
  "tool_clean t \<longleftrightarrow> tool_ok t \<and> ts_Order t \<noteq> [] \<and> int64_range (ts_ChoiceIndex t)
     \<and> list_all (\<lambda>(i, c). tc_Index c = i \<and> call_ok c) (ts_Calls t)"

text \<open>An event of the upstream that is passed on as it came: the end marker, or an error object.\<close>

definition raw_clean :: "raw_segment \<Rightarrow> bool" where
  "raw_clean v \<longleftrightarrow>
     (case rw_SegmentType v of
        EventDone \<Rightarrow> rw_Data v = done_marker
      | EventError \<Rightarrow>
          list_all clean_line (split_on nl (rw_Data v)) \<and> trim_space (rw_Data v) = rw_Data v
          \<and> rw_Data v \<noteq> [] \<and> rw_Data v \<noteq> done_marker
          \<and> (case um_map_raw (rw_Data v) of Some root \<Rightarrow> map_of root ''error'' \<noteq> None | None \<Rightarrow> False)
      | _ \<Rightarrow> False)"

fun clean_segment :: "segment \<Rightarrow> bool" where
  "clean_segment (Reasoning v) \<longleftrightarrow> rs_FieldName v \<in> set reasoning_keys \<and> rs_Text v \<noteq> []
     \<and> valid_utf8 (rs_Text v) \<and> int64_range (rs_ChoiceIndex v)"
| "clean_segment (Content v) \<longleftrightarrow> cs_Text v \<noteq> [] \<and> valid_utf8 (cs_Text v) \<and> int64_range (cs_ChoiceIndex v)"
| "clean_segment (ToolCall v) \<longleftrightarrow> tool_clean v"
| "clean_segment (Role v) \<longleftrightarrow> ro_Role v \<noteq> [] \<and> valid_utf8 (ro_Role v) \<and> int64_range (ro_ChoiceIndex v)"
| "clean_segment (Finish v) \<longleftrightarrow> fs_FinishReason v \<noteq> [] \<and> fs_FinishReason v \<noteq> lit_null
     \<and> valid_utf8 (fs_FinishReason v) \<and> int64_range (fs_ChoiceIndex v) \<and> fs_Usage v = GNil"
| "clean_segment (Usage v) \<longleftrightarrow> us_Usage v \<noteq> GNil \<and> writable_to 9999 (us_Usage v) \<and> from_json (us_Usage v)"
| "clean_segment (Raw v) \<longleftrightarrow> raw_clean v"
| "clean_segment _ \<longleftrightarrow> False"

text \<open>A segment as another parser reads it: with that parser's metadata, and maps in the order of their keys.\<close>

fun reread :: "common_metadata \<Rightarrow> segment \<Rightarrow> segment" where
  "reread m (Reasoning v) = Reasoning (v\<lparr>rs_Metadata := m\<rparr>)"
| "reread m (Content v) = Content (v\<lparr>cs_Metadata := m\<rparr>)"
| "reread m (ToolCall v) =
     ToolCall (v\<lparr>ts_Calls := map (\<lambda>c. (tc_Index c, c)) (calls_in_order v), ts_Metadata := m\<rparr>)"
| "reread m (Role v) = Role (v\<lparr>ro_Metadata := m\<rparr>)"
| "reread m (Finish v) = Finish (v\<lparr>fs_Metadata := m\<rparr>)"
| "reread m (Usage v) = Usage \<lparr>us_Usage = canon (us_Usage v), us_Metadata = m\<rparr>"
| "reread m (Raw v) = Raw (v\<lparr>rw_Metadata := m\<rparr>)"
| "reread m s = s"

text \<open>A role is news to a parser that has not seen it last for its choice.\<close>

fun fresh_role :: "(int \<times> bytes) list \<Rightarrow> segment \<Rightarrow> bool" where
  "fresh_role seen (Role v) \<longleftrightarrow> map_of seen (ro_ChoiceIndex v) \<noteq> Some (ro_Role v)"
| "fresh_role seen _ \<longleftrightarrow> True"

fun after_role :: "segment \<Rightarrow> (int \<times> bytes) list \<Rightarrow> (int \<times> bytes) list" where
  "after_role (Role v) seen = AList.update (ro_ChoiceIndex v) (ro_Role v) seen"
| "after_role _ seen = seen"

section \<open>Reading each kind of delta\<close>

lemma written_single [simp]: "written [(k, v)] = [(k, jtext v)]"
  by (simp add: written_def)

lemma parseChoice_written:
  assumes "writable_to 10000 (GObj [(k, v)])" "k \<in> set known_delta_keys"
  shows "parseChoice \<lparr>cc_Index = idx, cc_Delta = jtext (GObj [(k, v)]), cc_FinishReason = None\<rparr> p
    = (let (role, p') = parse_role [(k, jtext v)] idx p
       in (role @ parse_reasoning [(k, jtext v)] idx (ps_meta p) reasoning_keys
             @ parse_content [(k, jtext v)] idx (ps_meta p) @ parse_tools [(k, jtext v)] idx (ps_meta p), p'))"
proof -
  have "writable (GObj [(k, v)])" using assms(1) by (simp add: writable_to_def)
  note t = trim_jtext_object [OF this]
  show ?thesis
    using t assms(2) um_map_raw_written(1) [OF assms(1)]
    by (simp add: parseChoice_def parse_delta_def parse_finish_def Let_def has_extra_delta_def split: prod.split)
qed

lemma parse_role_other: "k \<noteq> ''role'' \<Longrightarrow> parse_role [(k, t)] idx p = ([], p)"
  by (simp add: parse_role_def)

lemma parse_content_other: "k \<noteq> ''content'' \<Longrightarrow> parse_content [(k, t)] idx m = []"
  by (simp add: parse_content_def)

lemma parse_tools_other: "k \<noteq> ''tool_calls'' \<Longrightarrow> parse_tools [(k, t)] idx m = []"
  by (simp add: parse_tools_def)

lemma parse_reasoning_other: "k \<notin> set keys \<Longrightarrow> parse_reasoning [(k, t)] idx m keys = []"
  by (induction keys) auto

lemma parse_reasoning_found:
  "k \<in> set keys \<Longrightarrow> valid_utf8 s \<Longrightarrow> s \<noteq> [] \<Longrightarrow>
   parse_reasoning [(k, jtext (GStr s))] idx m keys
     = [Reasoning \<lparr>rs_ChoiceIndex = idx, rs_FieldName = k, rs_Text = s, rs_Metadata = m\<rparr>]"
  by (induction keys) (auto simp: um_jtext_string)

lemmas parse_others = parse_role_other parse_content_other parse_tools_other parse_reasoning_other

lemma reasoning_key_other:
  "k \<in> set reasoning_keys \<Longrightarrow> k \<noteq> ''role'' \<and> k \<noteq> ''content'' \<and> k \<noteq> ''tool_calls'' \<and> k \<in> set known_delta_keys"
  by (auto simp: reasoning_keys_def known_delta_keys_def)

lemma not_reasoning_key [simp]:
  "''role'' \<notin> set reasoning_keys" "''content'' \<notin> set reasoning_keys" "''tool_calls'' \<notin> set reasoning_keys"
  by (simp_all add: reasoning_keys_def)

lemma known_deltas [simp]:
  "''role'' \<in> set known_delta_keys" "''content'' \<in> set known_delta_keys" "''tool_calls'' \<in> set known_delta_keys"
  by (simp_all add: known_delta_keys_def)

definition choice_string :: "int \<Rightarrow> bytes \<Rightarrow> bytes \<Rightarrow> choice_chunk" where
  "choice_string idx k s = \<lparr>cc_Index = idx, cc_Delta = jtext (GObj [(k, GStr s)]), cc_FinishReason = None\<rparr>"

lemma parse_string_choice:
  assumes "k \<in> set known_delta_keys" "valid_utf8 k" "valid_utf8 s"
  shows "parseChoice (choice_string idx k s) p
    = (let (role, p') = parse_role [(k, jtext (GStr s))] idx p
       in (role @ parse_reasoning [(k, jtext (GStr s))] idx (ps_meta p) reasoning_keys
             @ parse_content [(k, jtext (GStr s))] idx (ps_meta p) @ parse_tools [(k, jtext (GStr s))] idx (ps_meta p), p'))"
  unfolding choice_string_def by (rule parseChoice_written) (use assms in \<open>simp_all add: writable_to_def\<close>)

lemma read_reasoning:
  assumes "k \<in> set reasoning_keys" "valid_utf8 k" "valid_utf8 s" "s \<noteq> []"
  shows "parseChoice (choice_string idx k s) p
    = ([Reasoning \<lparr>rs_ChoiceIndex = idx, rs_FieldName = k, rs_Text = s, rs_Metadata = ps_meta p\<rparr>], p)"
  using assms reasoning_key_other [OF assms(1)]
  by (simp add: parse_string_choice parse_others parse_reasoning_found)

lemma read_content:
  assumes "valid_utf8 s" "s \<noteq> []"
  shows "parseChoice (choice_string idx ''content'' s) p
    = ([Content \<lparr>cs_ChoiceIndex = idx, cs_Text = s, cs_Metadata = ps_meta p\<rparr>], p)"
  using assms by (simp add: parse_string_choice parse_others) (simp add: parse_content_def um_jtext_string)

lemma read_role:
  assumes "valid_utf8 s" "s \<noteq> []" "seen_role p idx \<noteq> s"
  shows "parseChoice (choice_string idx ''role'' s) p
    = ([Role \<lparr>ro_ChoiceIndex = idx, ro_Role = s, ro_Metadata = ps_meta p\<rparr>],
       p\<lparr>ps_seenRoles := AList.update idx s (ps_seenRoles p)\<rparr>)"
  using assms by (simp add: parse_string_choice parse_others) (simp add: parse_role_def um_jtext_string)

lemma read_tools:
  assumes "list_all call_ok cs" "distinct (map tc_Index cs)" "cs \<noteq> []"
  shows "parseChoice \<lparr>cc_Index = idx, cc_Delta = jtext (GObj [(''tool_calls'', GArr (map (GObj \<circ> tool_item) cs))]),
        cc_FinishReason = None\<rparr> p
    = ([ToolCall \<lparr>ts_ChoiceIndex = idx, ts_Order = map tc_Index cs, ts_Calls = map (\<lambda>c. (tc_Index c, c)) cs,
          ts_Metadata = ps_meta p\<rparr>], p)"
proof -
  let ?v = "GArr (map (GObj \<circ> tool_item) cs)"
  note w = writable_tool_items [OF assms(1)]
  then have wv: "writable ?v" by (simp only: writable_to_def)
  have "writable_to (Suc (Suc (Suc (Suc 0)))) (GObj [(''tool_calls'', ?v)])"
    using w by (simp only: writable_to_obj list.pred_inject) simp
  then have "writable_to 10000 (GObj [(''tool_calls'', ?v)])" by (rule writable_to_mono) simp
  from parseChoice_written [OF this] show ?thesis
    using assms jtext_nonempty [OF wv] jtext_not_null [OF wv]
    by (simp add: parse_others del: jv.simps)
      (simp add: parse_tools_def um_tool_calls_written tool_segment_delta_of)
qed

lemma read_finish:
  assumes "r \<noteq> []" "r \<noteq> lit_null"
  shows "parseChoice \<lparr>cc_Index = idx, cc_Delta = jtext (GObj []), cc_FinishReason = Some r\<rparr> p
    = ([Finish \<lparr>fs_ChoiceIndex = idx, fs_FinishReason = r, fs_Usage = GNil, fs_Metadata = ps_meta p\<rparr>], p)"
proof -
  have "writable (GObj [])" by simp
  note t = trim_jtext_object [OF this]
  have "um_map_raw (jtext (GObj [])) = Some []"
    using um_map_raw_written(1) [of "[]"] by (simp add: writable_to_def written_def)
  with t assms show ?thesis
    by (simp add: parseChoice_def parse_delta_def parse_finish_def has_extra_delta_def parse_role_def
        parse_content_def parse_tools_def reasoning_keys_def)
qed

section \<open>Every kind of segment comes back\<close>

definition is_raw :: "segment \<Rightarrow> bool" where
  "is_raw seg = (case seg of Raw v \<Rightarrow> True | _ \<Rightarrow> False)"

text \<open>A segment the chat serializer can write so that a parser reads it back.\<close>

definition carriable :: "serializer \<Rightarrow> heap \<Rightarrow> int \<Rightarrow> segment \<Rightarrow> bool" where
  "carriable s h now seg \<longleftrightarrow> clean_segment seg \<and> (is_raw seg \<or> base_ok (baseMap s h now (seg_meta seg)))"

definition comes_back :: "bytes \<Rightarrow> segment \<Rightarrow> parser \<Rightarrow> heap \<Rightarrow> bool" where
  "comes_back out seg p h \<longleftrightarrow>
     (\<exists>d p' h'. out = EncodeData d \<and> list_all clean_line (split_on nl d)
        \<and> parseChatCompletionsEvent (data_event d) (p, h) = ([reread (ps_meta p') seg], p', h')
        \<and> ps_protocol p' = ps_protocol p \<and> ps_seenRoles p' = after_role seg (ps_seenRoles p))"

definition root_reads :: "gomap \<Rightarrow> segment \<Rightarrow> parser \<Rightarrow> heap \<Rightarrow> bool" where
  "root_reads R seg p h \<longleftrightarrow>
     (\<exists>p' h'. parseChatCompletionsEvent (data_event (jtext (GObj R))) (p, h) = ([reread (ps_meta p') seg], p', h')
        \<and> ps_protocol p' = ps_protocol p \<and> ps_seenRoles p' = after_role seg (ps_seenRoles p))"

lemma encode_root_comes_back:
  assumes "writable_to 10000 (GObj R)" "root_reads R seg p h"
  shows "comes_back (encode_root R) seg p h"
proof -
  have w: "writable (GObj R)" using assms(1) by (simp only: writable_to_def)
  have "list_all clean_line (split_on nl (jtext (GObj R)))"
    using printable_clean [OF jtext_printable [OF w]] by (simp only: list.pred_inject)
  with assms(2) show ?thesis
    unfolding comes_back_def root_reads_def encode_root_def marshal_or_nil_jtext [OF w] by blast
qed

lemma choice_comes_back:
  assumes "base_ok R" "writable_to 9998 (GObj c)" "um_choices (jtext (GArr [GObj c])) = Some [cc]"
    "\<And>m. \<exists>q. parseChoice cc (p\<lparr>ps_meta := m\<rparr>) = ([reread m seg], q) \<and> ps_meta q = m
       \<and> ps_protocol q = ps_protocol p \<and> ps_seenRoles q = after_role seg (ps_seenRoles p)"
  shows "comes_back (encode_root (with_choice R c)) seg p h"
proof (rule encode_root_comes_back)
  show w: "writable_to 10000 (GObj (with_choice R c))"
    using writable_with_choice [of 9998 R c] assms(1,2) by (simp add: base_ok_def)
  obtain h' m where e: "extractMetadata (written (with_choice R c)) (h, ps_meta p) = (h', m)" by fastforce
  obtain q where q: "parseChoice cc (p\<lparr>ps_meta := m\<rparr>) = ([reread m seg], q)" "ps_meta q = m"
    "ps_protocol q = ps_protocol p" "ps_seenRoles q = after_role seg (ps_seenRoles p)"
    using assms(4) by blast
  have "writable (GObj (with_choice R c))" using w by (simp only: writable_to_def)
  from read_choice [OF assms(1) w assms(3) e q(1)] marshal_or_nil_jtext [OF this] q
  show "root_reads (with_choice R c) seg p h" by (simp add: root_reads_def)
qed

lemma string_choice_comes_back:
  assumes "base_ok R" "int64_range idx" "valid_utf8 k" "valid_utf8 v"
    "\<And>m. \<exists>q. parseChoice (choice_string idx k v) (p\<lparr>ps_meta := m\<rparr>) = ([reread m seg], q) \<and> ps_meta q = m
       \<and> ps_protocol q = ps_protocol p \<and> ps_seenRoles q = after_role seg (ps_seenRoles p)"
  shows "comes_back (encode_root (with_choice R (choice_of idx [(k, GStr v)]))) seg p h"
proof (rule choice_comes_back [OF assms(1) _ _ assms(5)])
  have "writable_to 1 (GObj [(k, GStr v)])" using assms(3,4) by (simp add: writable_to_def)
  then show "writable_to 9998 (GObj (choice_of idx [(k, GStr v)]))"
    by (rule writable_to_mono [OF writable_choice_of]) simp
  show "um_choices (jtext (GArr [GObj (choice_of idx [(k, GStr v)])])) = Some [choice_string idx k v]"
    unfolding choice_string_def
    by (rule um_choices_written [OF \<open>writable_to 1 (GObj [(k, GStr v)])\<close>]) (use assms(2) in simp_all)
qed

lemma reasoning_keys_utf8: "k \<in> set reasoning_keys \<Longrightarrow> valid_utf8 k"
  by (auto simp: reasoning_keys_def)

lemma reasoning_comes_back:
  assumes "clean_segment (Reasoning v)" "base_ok (baseMap s h0 now (rs_Metadata v))"
  shows "comes_back (serializeReasoning s h0 now v) (Reasoning v) p h"
  unfolding serializeReasoning_def
  by (rule string_choice_comes_back [OF assms(2)])
    (use assms(1) in \<open>simp_all add: read_reasoning reasoning_keys_utf8\<close>)

lemma content_comes_back:
  assumes "clean_segment (Content v)" "base_ok (baseMap s h0 now (cs_Metadata v))"
  shows "comes_back (serializeContent s h0 now v) (Content v) p h"
  unfolding serializeContent_def
  by (rule string_choice_comes_back [OF assms(2)]) (use assms(1) in \<open>simp_all add: read_content\<close>)

lemma seen_role_fresh:
  "fresh_role (ps_seenRoles p) (Role v) \<Longrightarrow> ro_Role v \<noteq> [] \<Longrightarrow>
   seen_role (p\<lparr>ps_meta := m\<rparr>) (ro_ChoiceIndex v) \<noteq> ro_Role v"
  by (auto simp: seen_role_def split: option.split)

lemma role_comes_back:
  assumes "clean_segment (Role v)" "base_ok (baseMap s h0 now (ro_Metadata v))" "fresh_role (ps_seenRoles p) (Role v)"
  shows "comes_back (serializeRole s h0 now v) (Role v) p h"
  unfolding serializeRole_def
  by (rule string_choice_comes_back [OF assms(2)])
    (use assms(1) seen_role_fresh [OF assms(3)] in \<open>simp_all add: read_role\<close>)

lemma finish_comes_back:
  assumes "clean_segment (Finish v)" "base_ok (baseMap s h0 now (fs_Metadata v))"
  shows "comes_back (serializeFinish s h0 now v) (Finish v) p h"
  unfolding serializeFinish_def
proof (rule choice_comes_back [OF assms(2)])
  let ?c = "put ''finish_reason'' (GStr (fs_FinishReason v)) (choice_of (fs_ChoiceIndex v) [])"
  show "um_choices (jtext (GArr [GObj ?c])) = Some [\<lparr>cc_Index = fs_ChoiceIndex v, cc_Delta = jtext (GObj []),
      cc_FinishReason = Some (fs_FinishReason v)\<rparr>]"
    using assms(1) by (intro um_choices_finish) simp_all
  show "writable_to 9998 (GObj ?c)" using assms(1) by (simp add: writable_to_def choice_of_def)
qed (use assms(1) in \<open>cases v, simp add: read_finish\<close>)

lemma calls_in_order:
  assumes "tool_clean t"
  shows "those (map (map_of (ts_Calls t)) (ts_Order t)) = Some (calls_in_order t)"
    "list_all call_ok (calls_in_order t)" "map tc_Index (calls_in_order t) = ts_Order t"
    "distinct (map tc_Index (calls_in_order t))" "calls_in_order t \<noteq> []"
proof -
  have ok: "distinct (ts_Order t)" "set (ts_Order t) = fst ` set (ts_Calls t)" "ts_Order t \<noteq> []"
    "\<forall>(i, c) \<in> set (ts_Calls t). tc_Index c = i \<and> call_ok c"
    using assms by (auto simp: tool_clean_def tool_ok_def list_all_iff)
  have each: "\<exists>c. map_of (ts_Calls t) i = Some c \<and> tc_Index c = i \<and> call_ok c" if "i \<in> set (ts_Order t)" for i
  proof -
    from that ok(2) obtain c where c: "map_of (ts_Calls t) i = Some c"
      by (cases "map_of (ts_Calls t) i") (auto simp: map_of_eq_None_iff)
    with map_of_SomeD [OF c] ok(4) show ?thesis by auto
  qed
  show "those (map (map_of (ts_Calls t)) (ts_Order t)) = Some (calls_in_order t)"
    unfolding calls_in_order_def comp_def by (rule those_map_Some) (use each in \<open>force simp: list_all_iff\<close>)
  show "list_all call_ok (calls_in_order t)"
    using each by (force simp: calls_in_order_def list_all_iff)
  show i: "map tc_Index (calls_in_order t) = ts_Order t"
    unfolding calls_in_order_def map_map by (rule map_idI) (use each in force)
  show "distinct (map tc_Index (calls_in_order t))" "calls_in_order t \<noteq> []"
    using ok by (simp_all add: i) (simp add: calls_in_order_def)
qed

lemma tool_comes_back:
  assumes "clean_segment (ToolCall v)" "base_ok (baseMap s h0 now (ts_Metadata v))"
  shows "\<exists>out. serializeToolCall s h0 now v = Some out \<and> comes_back out (ToolCall v) p h"
proof -
  let ?d = "[(''tool_calls'', GArr (map (GObj \<circ> tool_item) (calls_in_order v)))]"
  have clean: "tool_clean v" "int64_range (ts_ChoiceIndex v)" using assms(1) by (simp_all add: tool_clean_def)
  note co = calls_in_order [OF clean(1)]
  have "serializeToolCall s h0 now v
      = Some (encode_root (with_choice (baseMap s h0 now (ts_Metadata v)) (choice_of (ts_ChoiceIndex v) ?d)))"
    by (simp add: serializeToolCall_def co(1))
  moreover have "comes_back (encode_root (with_choice (baseMap s h0 now (ts_Metadata v))
      (choice_of (ts_ChoiceIndex v) ?d))) (ToolCall v) p h"
  proof (rule choice_comes_back [OF assms(2)])
    have w: "writable_to (Suc (Suc (Suc (Suc 0)))) (GObj ?d)"
      using writable_tool_items [OF co(2)] by (simp only: writable_to_obj list.pred_inject) simp
    then show "writable_to 9998 (GObj (choice_of (ts_ChoiceIndex v) ?d))"
      by (rule writable_to_mono [OF writable_choice_of]) simp
    show "um_choices (jtext (GArr [GObj (choice_of (ts_ChoiceIndex v) ?d)]))
        = Some [\<lparr>cc_Index = ts_ChoiceIndex v, cc_Delta = jtext (GObj ?d), cc_FinishReason = None\<rparr>]"
      by (rule um_choices_written [OF w _ clean(2)]) simp
  qed (use co in \<open>cases v, simp add: read_tools\<close>)
  ultimately show ?thesis by blast
qed

lemma usage_comes_back:
  assumes "clean_segment (Usage v)" "base_ok (baseMap s h0 now (us_Metadata v))"
  shows "comes_back (serializeUsage s h0 now v) (Usage v) p h"
  unfolding serializeUsage_def
proof (rule encode_root_comes_back)
  let ?u = "us_Usage v"
  let ?R = "put ''usage'' ?u (put ''choices'' (GArr []) (baseMap s h0 now (us_Metadata v)))"
  have u: "?u \<noteq> GNil" "writable_to 9999 ?u" "from_json ?u" using assms(1) by simp_all
  have wu: "writable ?u" "gdepth ?u \<le> 10000" using u(2) by (simp_all add: writable_to_def)
  have "writable_to (Suc 9999) (GObj ?R)"
    by (intro writable_put) (use assms(2) u in \<open>simp_all add: base_ok_def writable_to_def\<close>)
  then show w: "writable_to 10000 (GObj ?R)" by simp
  have lk: "map_of (written ?R) ''error'' = None" "map_of (written ?R) ''usage'' = Some (jtext ?u)"
    "map_of (written ?R) ''choices'' = Some (jtext (GArr []))"
    using assms(2) unfolding um_map_raw_written(2) [OF w] by (simp_all add: update_conv' base_ok_def)
  have "um_choices (jtext (GArr [])) = Some []"
    using json_parse_jtext [of "GArr []"] by (simp add: um_choices_def um_structs_def)
  moreover obtain h' m where "extractMetadata (written ?R) (h, ps_meta p) = (h', m)" by fastforce
  moreover have "jtext (GArr []) \<noteq> []" "jtext (GArr []) \<noteq> lit_null"
    using jtext_nonempty [of "GArr []"] jtext_not_null [of "GArr []"] by simp_all
  ultimately show "root_reads ?R (Usage v) p h"
    using lk um_any_jtext [OF wu(1) u(3) wu(2)] jtext_nonempty [OF wu(1)] jtext_not_null [OF wu(1) u(1)]
    by (simp add: root_reads_def parse_chat_written [OF w] parse_chat_root_def parse_root_choices_def parse_usage_def)
qed

lemma raw_comes_back:
  assumes "clean_segment (Raw v)"
  shows "comes_back (serializeRaw v) (Raw v) p h"
proof (cases "rw_SegmentType v = EventDone")
  case True
  then have d: "rw_Data v = done_marker" using assms by (simp add: raw_clean_def)
  have "trim_space done_marker = done_marker" by (rule trim_space_id) (simp_all add: done_marker_def ascii_space_def)
  moreover have "EncodeDone = EncodeData done_marker" "list_all clean_line (split_on nl done_marker)"
    by (simp_all add: EncodeDone_def EncodeData_def data_lines_def data_prefix_def done_marker_def clean_line_def)
  ultimately show ?thesis
    using True d unfolding comes_back_def
    by (cases v, intro exI [of _ done_marker] exI [of _ p] exI [of _ h])
      (simp add: serializeRaw_def parseChatCompletionsEvent_def data_event_def raw_event_def done_marker_def)
next
  case False
  with assms have e: "rw_SegmentType v = EventError" "list_all clean_line (split_on nl (rw_Data v))"
    "trim_space (rw_Data v) = rw_Data v" "rw_Data v \<noteq> []" "rw_Data v \<noteq> done_marker"
    and r: "case um_map_raw (rw_Data v) of Some root \<Rightarrow> map_of root ''error'' \<noteq> None | None \<Rightarrow> False"
    by (auto simp: raw_clean_def split: event_type.splits)
  from r obtain root where "um_map_raw (rw_Data v) = Some root" "map_of root ''error'' \<noteq> None"
    by (cases "um_map_raw (rw_Data v)") auto
  with e show ?thesis
    unfolding comes_back_def
    by (cases v, intro exI [of _ "rw_Data v"] exI [of _ p] exI [of _ h])
      (simp add: serializeRaw_def parseChatCompletionsEvent_def data_event_def raw_event_def parse_chat_root_def)
qed

lemma segment_comes_back:
  assumes "carriable s h0 now seg" "fresh_role (ps_seenRoles p) seg"
  shows "\<exists>out. SerializeSegment s h0 now seg = Some out \<and> comes_back out seg p h"
  using assms
  by (cases seg)
    (auto simp: carriable_def is_raw_def intro!: reasoning_comes_back content_comes_back tool_comes_back
      role_comes_back finish_comes_back usage_comes_back raw_comes_back)

section \<open>A whole stream comes back\<close>

fun announced :: "(int \<times> bytes) list \<Rightarrow> segment list \<Rightarrow> bool" where
  "announced seen [] \<longleftrightarrow> True"
| "announced seen (seg # segs) \<longleftrightarrow> fresh_role seen seg \<and> announced (after_role seg seen) segs"

lemma scan_all_EncodeData:
  assumes "list_all clean_line (split_on nl d)"
  shows "scan_all e (lines_of (EncodeData d @ t)) = data_event d # scan_all e (lines_of t)"
proof -
  have "lines_of (EncodeData d @ t) \<noteq> []"
  proof
    assume "lines_of (EncodeData d @ t) = []"
    then show False using scan_EncodeData [OF assms, of e t] by (simp add: scan_error_def has_event_def scan_init_def)
  qed
  then show ?thesis
    using scan_EncodeData [OF assms, of e t] by (subst scan_all.simps) (simp add: data_event_def)
qed

definition one_back :: "segment \<Rightarrow> segment list \<Rightarrow> bool" where
  "one_back seg got \<longleftrightarrow> (\<exists>m. got = [reread m seg])"

lemma one_back_reread: "one_back seg [reread m seg]"
  by (auto simp: one_back_def)

text \<open>
  A segment is written with the heap and the time of that moment: the heap changes while the stream runs,
  since all segments refer to the parser's map of extra fields.
\<close>

type_synonym writes = "((heap \<times> int) \<times> segment) list"

definition serialize_all :: "serializer \<Rightarrow> writes \<Rightarrow> bytes list option" where
  "serialize_all s ws = those (map (\<lambda>((h, now), seg). SerializeSegment s h now seg) ws)"

definition all_carriable :: "serializer \<Rightarrow> writes \<Rightarrow> bool" where
  "all_carriable s ws \<longleftrightarrow> list_all (\<lambda>((h, now), seg). carriable s h now seg) ws"

lemma stream_comes_back:
  assumes "all_carriable s ws" "announced (ps_seenRoles p) (map snd ws)" "ps_protocol p = ProtocolChatCompletions"
  shows "\<exists>outs. serialize_all s ws = Some outs
    \<and> list_all2 one_back (map snd ws) (fst (parse_events (scan_all e (lines_of (concat outs))) (p, h1)))"
  using assms
proof (induction ws arbitrary: p h1)
  case Nil
  then show ?case
    by (simp add: serialize_all_def lines_of_Nil scan_all.simps scan_error_def has_event_def scan_init_def)
next
  case (Cons w ws)
  obtain h now seg where w: "w = ((h, now), seg)" by (metis surj_pair)
  obtain out where out: "SerializeSegment s h now seg = Some out" and cb: "comes_back out seg p h1"
    using segment_comes_back [of s h now seg p h1] Cons.prems by (auto simp: w all_carriable_def)
  from cb obtain d p' h' where d: "out = EncodeData d" "list_all clean_line (split_on nl d)"
    "parseChatCompletionsEvent (data_event d) (p, h1) = ([reread (ps_meta p') seg], p', h')"
    "ps_protocol p' = ps_protocol p" "ps_seenRoles p' = after_role seg (ps_seenRoles p)"
    unfolding comes_back_def by blast
  obtain outs where outs: "serialize_all s ws = Some outs"
    "list_all2 one_back (map snd ws) (fst (parse_events (scan_all e (lines_of (concat outs))) (p', h')))"
    using Cons.IH [of p' h'] Cons.prems d by (auto simp: w all_carriable_def)
  have "ParseEvent (data_event d) (p, h1) = ([reread (ps_meta p') seg], p', h')"
    using d Cons.prems by (simp add: ParseEvent_def)
  then show ?case
    using out outs d(1,2) one_back_reread [of seg "ps_meta p'"]
    by (auto simp: scan_all_EncodeData serialize_all_def w split: prod.split)
qed

section \<open>Properties\<close>

text \<open>
  C27: a chat stream survives the proxy's serializer.  Every segment that the chat format can carry is
  serialized without panic, and the concatenation of the outputs, read as server-sent events and parsed
  by any chat parser, whatever metadata and extra fields it has seen so far, gives one event per
  segment, each parsed to exactly that segment: same choice, field, text, role, tool calls, finish reason
  and usage, in the same order.  Only the metadata are those of the parser that reads.
\<close>
theorem chat_stream_round_trip:
  assumes "all_carriable s ws" "announced (ps_seenRoles p) (map snd ws)" "ps_protocol p = ProtocolChatCompletions"
  shows "\<exists>outs. serialize_all s ws = Some outs
    \<and> list_all2 one_back (map snd ws) (fst (parse_events (scan_all e (lines_of (concat outs))) (p, h1)))"
  by (rule stream_comes_back [OF assms])

definition trip_meta :: common_metadata where
  "trip_meta = \<lparr>md_ID = ''c1'', md_Object = [], md_Created = 5, md_Model = ''m'', md_SystemFingerprint = [],
     md_ServiceTier = [], md_Extra = Some 0\<rparr>"

definition trip_heap :: heap where
  "trip_heap = [[(''provider'', GStr ''p'')]]"

definition trip_call :: tool_call_accumulator where
  "trip_call = \<lparr>tc_Index = 0, tc_ID = ''k'', tc_Type = ''function'', tc_FunctionName = ''f'', tc_Arguments = ''{}''\<rparr>"

definition trip_stream :: "segment list" where
  "trip_stream =
     [Role \<lparr>ro_ChoiceIndex = 0, ro_Role = ''assistant'', ro_Metadata = trip_meta\<rparr>,
      Reasoning \<lparr>rs_ChoiceIndex = 0, rs_FieldName = ''reasoning'', rs_Text = ''hm'', rs_Metadata = trip_meta\<rparr>,
      Content \<lparr>cs_ChoiceIndex = 0, cs_Text = ''a <b>'' @ [nl], cs_Metadata = trip_meta\<rparr>,
      ToolCall \<lparr>ts_ChoiceIndex = 0, ts_Order = [0], ts_Calls = [(0, trip_call)], ts_Metadata = trip_meta\<rparr>,
      Finish \<lparr>fs_ChoiceIndex = 0, fs_FinishReason = ''stop'', fs_Usage = GNil, fs_Metadata = trip_meta\<rparr>,
      Usage \<lparr>us_Usage = GObj [(''note'', GStr ''n'')], us_Metadata = trip_meta\<rparr>,
      Raw \<lparr>rw_SegmentType = EventDone, rw_Data = done_marker, rw_Metadata = trip_meta\<rparr>]"

lemma trip_base: "base_ok (baseMap NewSerializer trip_heap 7 trip_meta)"
  by (simp add: base_ok_def baseMap_def NewSerializer_def trip_heap_def trip_meta_def put_string_def Let_def
      chunk_object_def heap_get_def writable_to_def)

definition trip_writes :: writes where
  "trip_writes = map (Pair (trip_heap, 7)) trip_stream"

lemma trip_carriable: "all_carriable NewSerializer trip_writes"
  by (simp add: all_carriable_def trip_writes_def trip_stream_def carriable_def trip_base is_raw_def
      reasoning_keys_def tool_clean_def tool_ok_def trip_call_def call_ok_def lit_null_def writable_to_def raw_clean_def)

theorem chat_stream_round_trip_witness:
  "\<exists>outs. serialize_all NewSerializer trip_writes = Some outs
    \<and> list_all2 one_back (map snd trip_writes) (fst (parse_events (scan_all EOF (lines_of (concat outs)))
        (SetProtocol ProtocolChatCompletions (NewParser 9), [])))"
  by (rule chat_stream_round_trip [OF trip_carriable])
    (simp_all add: trip_writes_def trip_stream_def SetProtocol_def NewParser_def)

end
