(* ===== verification/Metadata_Trip.thy ===== *)
theory Metadata_Trip
  imports Chat_Trip
begin

text \<open>
  The metadata of chat chunks: what one chunk changes in a parser's metadata and in its shared map of
  extra fields, and what of a segment's metadata reaches the parser that reads the serialized chunk.
\<close>

section \<open>The shared map\<close>

definition extra_read :: "raw_map \<Rightarrow> bytes \<Rightarrow> goval option" where
  "extra_read root k = (if k \<in> set known_keys then None else Option.bind (map_of root k) um_any)"

definition extras :: "heap \<times> common_metadata \<Rightarrow> bytes \<Rightarrow> goval option" where
  "extras hm = map_of (heap_get (fst hm) (md_Extra (snd hm)))"

definition hm_ok :: "heap \<times> common_metadata \<Rightarrow> bool" where
  "hm_ok hm \<longleftrightarrow> meta_ok (fst hm) (snd hm)"

text \<open>Everything of the metadata but the reference to the map.\<close>

definition plain :: "common_metadata \<Rightarrow> common_metadata" where
  "plain m = m\<lparr>md_Extra := None\<rparr>"

lemma add_extra_effect:
  assumes "hm_ok hm"
  shows "hm_ok (add_extra (k, raw) hm)" "plain (snd (add_extra (k, raw) hm)) = plain (snd hm)"
    "extras (add_extra (k, raw) hm) =
       (if k \<in> set known_keys then extras hm
        else case um_any raw of Some v \<Rightarrow> (extras hm)(k \<mapsto> v) | None \<Rightarrow> extras hm)"
proof -
  obtain h m where hm: "hm = (h, m)" by (cases hm)
  obtain h1 a where mk: "heap_make h (md_Extra m) = (h1, a)" by fastforce
  have ok: "case md_Extra m of None \<Rightarrow> True | Some a \<Rightarrow> a < length h"
    using assms by (simp add: hm hm_ok_def meta_ok_def)
  note mk_ok = heap_make_ok [OF mk ok]
  show "hm_ok (add_extra (k, raw) hm)" "plain (snd (add_extra (k, raw) hm)) = plain (snd hm)"
    "extras (add_extra (k, raw) hm) =
       (if k \<in> set known_keys then extras hm
        else case um_any raw of Some v \<Rightarrow> (extras hm)(k \<mapsto> v) | None \<Rightarrow> extras hm)"
    using mk_ok assms
    by (auto simp: add_extra_def hm mk Let_def hm_ok_def meta_ok_def plain_def extras_def update_conv'
        split: option.splits)
qed

lemma fold_add_extra:
  assumes "hm_ok hm" "distinct (map fst root)"
  shows "hm_ok (fold add_extra root hm) \<and> plain (snd (fold add_extra root hm)) = plain (snd hm)
    \<and> extras (fold add_extra root hm) = extras hm ++ extra_read root"
  using assms
proof (induction root arbitrary: hm)
  case Nil
  then show ?case by (simp add: extra_read_def map_add_def fun_eq_iff)
next
  case (Cons kr root)
  obtain k raw where kr: "kr = (k, raw)" by (cases kr)
  note e = add_extra_effect [OF Cons.prems(1), of k raw]
  have fresh: "map_of root k = None" using Cons.prems(2) by (simp add: kr map_of_eq_None_iff)
  have "extras (add_extra (k, raw) hm) ++ extra_read root = extras hm ++ extra_read (kr # root)"
    using fresh by (auto simp: e(3) extra_read_def kr map_add_def fun_eq_iff split: option.splits)
  with Cons.IH [OF e(1)] Cons.prems(2) e(2) show ?case by (simp add: kr)
qed

lemma set_string_Extra: "(\<And>s m. md_Extra (upd s m) = md_Extra m) \<Longrightarrow> md_Extra (set_string root k upd m) = md_Extra m"
  by (simp add: set_string_def split: option.split)

lemma extract_fields_Extra: "md_Extra (extract_fields root m) = md_Extra m"
  by (simp add: extract_fields_def Let_def set_string_Extra set_created_def split: option.split)

lemma extractMetadata_effect:
  assumes "hm_ok hm" "distinct (map fst root)"
  shows "hm_ok (extractMetadata root hm)"
    "plain (snd (extractMetadata root hm)) = plain (extract_fields root (snd hm))"
    "extras (extractMetadata root hm) = extras hm ++ extra_read root"
proof -
  let ?hm = "(fst hm, extract_fields root (snd hm))"
  have "hm_ok ?hm" "extras ?hm = extras hm"
    using assms(1) by (simp_all add: hm_ok_def meta_ok_def extras_def extract_fields_Extra)
  with fold_add_extra [OF this(1) assms(2)]
  show "hm_ok (extractMetadata root hm)"
    "plain (snd (extractMetadata root hm)) = plain (extract_fields root (snd hm))"
    "extras (extractMetadata root hm) = extras hm ++ extra_read root"
    by (simp_all add: extractMetadata_def)
qed

section \<open>What the serializer writes of the metadata\<close>

definition or_else :: "bytes \<Rightarrow> bytes \<Rightarrow> bytes" where
  "or_else s t = (if s \<noteq> [] then s else t)"

text \<open>Metadata that can be written: UTF-8 strings, and extra fields with keys of their own.\<close>

definition meta_clean :: "heap \<Rightarrow> common_metadata \<Rightarrow> bool" where
  "meta_clean h m \<longleftrightarrow> valid_utf8 (md_ID m) \<and> valid_utf8 (md_Object m) \<and> valid_utf8 (md_Model m)
     \<and> valid_utf8 (md_SystemFingerprint m) \<and> valid_utf8 (md_ServiceTier m) \<and> int64_range (md_Created m)
     \<and> distinct (map fst (heap_get h (md_Extra m)))
     \<and> list_all (\<lambda>(k, v). k \<notin> set known_keys \<and> valid_utf8 k \<and> writable_to 9999 v \<and> from_json v)
         (heap_get h (md_Extra m))"

lemma extra_not_known:
  "meta_clean h m \<Longrightarrow> k \<in> set known_keys \<Longrightarrow> map_of (heap_get h (md_Extra m)) k = None"
  by (force simp: meta_clean_def list_all_iff map_of_eq_None_iff)

lemma map_of_put_string: "map_of (put_string k s m) k' = (if k' = k \<and> s \<noteq> [] then Some (GStr s) else map_of m k')"
  by (simp add: put_string_def update_conv')

lemma map_of_baseMap:
  assumes "meta_clean h m"
  shows "map_of (baseMap s h now m) k =
    (case map_of (heap_get h (md_Extra m)) k of Some v \<Rightarrow> Some v | None \<Rightarrow>
       if k = ''service_tier'' \<and> md_ServiceTier m \<noteq> [] then Some (GStr (md_ServiceTier m))
       else if k = ''system_fingerprint'' \<and> md_SystemFingerprint m \<noteq> [] then Some (GStr (md_SystemFingerprint m))
       else if k = ''model'' \<and> or_else (modelOverride s) (md_Model m) \<noteq> []
       then Some (GStr (or_else (modelOverride s) (md_Model m)))
       else if k = ''created'' then Some (GInt (if md_Created m \<noteq> 0 then md_Created m else now))
       else if k = ''object'' then Some (GStr (or_else (md_Object m) chunk_object))
       else if k = ''id'' \<and> md_ID m \<noteq> [] then Some (GStr (md_ID m))
       else None)"
proof -
  have "distinct (map fst (heap_get h (md_Extra m)))" using assms by (simp add: meta_clean_def)
  then show ?thesis
    by (cases "map_of (heap_get h (md_Extra m)) k")
      (simp_all add: baseMap_def Let_def map_of_put_all map_add_def map_of_put_string update_conv' or_else_def
        cong: if_cong split del: if_split)
qed

text \<open>Such metadata make a root that is written and read.\<close>

lemma writable_put_string:
  "writable_to (Suc d) (GObj m) \<Longrightarrow> valid_utf8 k \<Longrightarrow> valid_utf8 s \<Longrightarrow> writable_to (Suc d) (GObj (put_string k s m))"
  by (simp add: put_string_def writable_put)

lemma writable_put_all:
  "writable_to (Suc d) (GObj m) \<Longrightarrow> list_all (\<lambda>(k, v). valid_utf8 k \<and> writable_to d v) kvs \<Longrightarrow>
   writable_to (Suc d) (GObj (put_all m kvs))"
  by (induction kvs arbitrary: m) (auto simp: writable_put)

lemma valid_utf8_fields [simp]:
  "valid_utf8 ''object''" "valid_utf8 ''created''" "valid_utf8 ''model''" "valid_utf8 ''system_fingerprint''"
  "valid_utf8 ''service_tier''" "valid_utf8 chunk_object"
  by (simp_all add: chunk_object_def)

lemma base_ok_baseMap:
  assumes "meta_clean h m" "valid_utf8 (modelOverride s)"
  shows "base_ok (baseMap s h now m)"
proof -
  have e: "list_all (\<lambda>(k, v). valid_utf8 k \<and> writable_to 9999 v) (heap_get h (md_Extra m))"
    using assms(1) by (auto simp: meta_clean_def list_all_iff)
  have "writable_to (Suc 9999) (GObj [])" by (simp add: writable_to_def)
  then have "writable_to (Suc 9999) (GObj (baseMap s h now m))"
    unfolding baseMap_def Let_def using assms(1)
    by (intro writable_put_all [OF _ e] writable_put_string writable_put) (simp_all add: meta_clean_def assms(2))
  moreover have "map_of (baseMap s h now m) ''error'' = None" "map_of (baseMap s h now m) ''usage'' = None"
    using extra_not_known [OF assms(1)] by (simp_all add: map_of_baseMap [OF assms(1)] known_keys_def)
  ultimately show ?thesis by (simp add: base_ok_def)
qed

section \<open>What the reader takes of it\<close>

lemma set_string_written:
  assumes "writable_to 10000 (GObj R)" "map_of R key = (if v \<noteq> [] then Some (GStr v) else None)" "valid_utf8 v"
  shows "set_string (written R) key upd m = (if v \<noteq> [] then upd v m else m)"
  using assms(2,3) by (simp add: set_string_def um_map_raw_written(2) [OF assms(1)] um_jtext_string)

lemma set_created_written:
  "int64_range i \<Longrightarrow> i \<noteq> 0 \<Longrightarrow> set_created (jtext (GInt i)) m = m\<lparr>md_Created := i\<rparr>"
  by (simp add: set_created_def um_jtext_int Let_def)

text \<open>The metadata \<open>m\<close> of a parser after it has read a chunk written with the metadata \<open>new\<close>.\<close>

definition updated_meta :: "serializer \<Rightarrow> int \<Rightarrow> common_metadata \<Rightarrow> common_metadata \<Rightarrow> common_metadata" where
  "updated_meta s now new m =
     \<lparr>md_ID = or_else (md_ID new) (md_ID m),
      md_Object = or_else (md_Object new) chunk_object,
      md_Created = (if md_Created new \<noteq> 0 then md_Created new else now),
      md_Model = or_else (modelOverride s) (or_else (md_Model new) (md_Model m)),
      md_SystemFingerprint = or_else (md_SystemFingerprint new) (md_SystemFingerprint m),
      md_ServiceTier = or_else (md_ServiceTier new) (md_ServiceTier m),
      md_Extra = md_Extra m\<rparr>"

lemma extract_fields_written:
  assumes "meta_clean h new" "valid_utf8 (modelOverride s)" "int64_range now" "now \<noteq> 0"
    and w: "writable_to 10000 (GObj R)"
    and R: "\<And>k. k \<in> set known_keys \<Longrightarrow> k \<noteq> ''choices'' \<Longrightarrow> k \<noteq> ''usage'' \<Longrightarrow> map_of R k = map_of (baseMap s h now new) k"
  shows "extract_fields (written R) m = updated_meta s now new m"
proof -
  let ?i = "if md_Created new \<noteq> 0 then md_Created new else now"
  let ?model = "or_else (modelOverride s) (md_Model new)" and ?object = "or_else (md_Object new) chunk_object"
  have obj: "?object \<noteq> []" by (simp add: or_else_def chunk_object_def)
  have b: "map_of R ''id'' = (if md_ID new \<noteq> [] then Some (GStr (md_ID new)) else None)"
    "map_of R ''object'' = (if ?object \<noteq> [] then Some (GStr ?object) else None)"
    "map_of R ''created'' = Some (GInt ?i)"
    "map_of R ''model'' = (if ?model \<noteq> [] then Some (GStr ?model) else None)"
    "map_of R ''system_fingerprint'' = (if md_SystemFingerprint new \<noteq> [] then Some (GStr (md_SystemFingerprint new)) else None)"
    "map_of R ''service_tier'' = (if md_ServiceTier new \<noteq> [] then Some (GStr (md_ServiceTier new)) else None)"
    using obj extra_not_known [OF assms(1)]
    by (simp_all add: R map_of_baseMap [OF assms(1)] known_keys_def)
  have v: "valid_utf8 (md_ID new)" "valid_utf8 ?object" "valid_utf8 ?model" "valid_utf8 (md_SystemFingerprint new)"
    "valid_utf8 (md_ServiceTier new)" "int64_range ?i" "?i \<noteq> 0"
    using assms(1-4) by (auto simp: meta_clean_def or_else_def)
  note str = set_string_written [OF w b(1) v(1)] set_string_written [OF w b(2) v(2)]
    set_string_written [OF w b(4) v(3)] set_string_written [OF w b(5) v(4)] set_string_written [OF w b(6) v(5)]
  have "map_of (written R) ''created'' = Some (jtext (GInt ?i))"
    using um_map_raw_written(2) [OF w, of "''created''"] b(3) by simp
  then show ?thesis
    using obj v(6,7) unfolding extract_fields_def str Let_def
    by (cases m) (simp add: set_created_written updated_meta_def, simp add: or_else_def)
qed

lemma extra_read_written:
  assumes "meta_clean h new" and w: "writable_to 10000 (GObj R)"
    and R: "\<And>k. k \<notin> set known_keys \<Longrightarrow> map_of R k = map_of (baseMap s h now new) k"
  shows "extra_read (written R) = map_option canon \<circ> map_of (heap_get h (md_Extra new))"
proof
  fix k
  let ?x = "map_of (heap_get h (md_Extra new)) k"
  show "extra_read (written R) k = (map_option canon \<circ> map_of (heap_get h (md_Extra new))) k"
  proof (cases "k \<in> set known_keys")
    case True
    then show ?thesis using extra_not_known [OF assms(1)] by (simp add: extra_read_def)
  next
    case False
    then have "map_of R k = ?x"
      by (simp add: R map_of_baseMap [OF assms(1)] known_keys_def split: option.split)
    moreover have "um_any (jtext v) = Some (canon v)" if "?x = Some v" for v
    proof -
      have "writable_to 9999 v" "from_json v"
        using map_of_SomeD [OF that] assms(1) by (auto simp: meta_clean_def list_all_iff)
      then show ?thesis by (intro um_any_jtext) (simp_all add: writable_to_def)
    qed
    ultimately show ?thesis
      using False by (cases ?x) (simp_all add: extra_read_def um_map_raw_written(2) [OF w])
  qed
qed

lemma written_distinct: "distinct (map fst m) \<Longrightarrow> distinct (map fst (written m))"
  unfolding written_def by (rule distinct_sorted_members)

section \<open>Properties\<close>

text \<open>
  C29: the metadata survive the proxy.  When a parser reads the chunk that the serializer wrote for a
  choice (whatever the choice), its identifier, object, creation time, model (the override, if one is
  set), fingerprint and tier become those of the segment where the segment has them and stay otherwise,
  and its extra fields are extended by the segment's, with the keys of nested objects in order.
\<close>
theorem metadata_round_trip:
  assumes "meta_clean h new" "valid_utf8 (modelOverride s)" "int64_range now" "now \<noteq> 0"
    and "hm_ok hm" "writable_to 9998 (GObj choice)"
  shows "let hm' = extractMetadata (written (with_choice (baseMap s h now new) choice)) hm
    in plain (snd hm') = plain (updated_meta s now new (snd hm))
       \<and> extras hm' = extras hm ++ (map_option canon \<circ> extras (h, new)) \<and> hm_ok hm'"
proof -
  let ?R = "with_choice (baseMap s h now new) choice"
  have base: "base_ok (baseMap s h now new)" by (rule base_ok_baseMap [OF assms(1,2)])
  then have w: "writable_to 10000 (GObj ?R)"
    using writable_with_choice [of 9998 "baseMap s h now new" choice] assms(6) by (simp add: base_ok_def)
  have R: "map_of ?R k = map_of (baseMap s h now new) k" if "k \<noteq> ''choices''" for k
    using that by (simp add: with_choice_def)
  have "distinct (map fst ?R)" using w by (simp add: writable_to_def)
  note e = extractMetadata_effect [OF assms(5) written_distinct [OF this]]
  have "extract_fields (written ?R) (snd hm) = updated_meta s now new (snd hm)"
    by (rule extract_fields_written [OF assms(1-4) w]) (simp add: R)
  moreover have "extra_read (written ?R) = map_option canon \<circ> map_of (heap_get h (md_Extra new))"
    by (rule extra_read_written [OF assms(1) w, where s = s and now = now]) (auto intro: R simp: known_keys_def)
  ultimately show ?thesis
    using e unfolding Let_def by (simp add: extras_def)
qed

theorem metadata_round_trip_witness:
  "let hm' = extractMetadata (written (with_choice (baseMap (SetModelOverride ''o'' NewSerializer) trip_heap 7 trip_meta)
          (choice_of 0 [(''content'', GStr ''x'')]))) ([], zero_meta)
    in plain (snd hm') = plain (updated_meta (SetModelOverride ''o'' NewSerializer) 7 trip_meta (snd ([] :: heap, zero_meta)))
       \<and> extras hm' = extras ([], zero_meta) ++ (map_option canon \<circ> extras (trip_heap, trip_meta)) \<and> hm_ok hm'"
  by (rule metadata_round_trip)
    (simp_all add: meta_clean_def trip_meta_def trip_heap_def heap_get_def SetModelOverride_def NewSerializer_def
      hm_ok_def meta_ok_def zero_meta_def writable_to_def choice_of_def known_keys_def)

text \<open>
  What a chat chunk does to the metadata.  Keys the parser knows never enter the shared map of extra
  fields; every other key of the chunk whose value decodes does, the chunk's value winning, and the map
  is well-formed afterwards; the plain fields change as the six known keys say, and by nothing else.
\<close>
theorem extractMetadata_spec:
  assumes "hm_ok hm" "distinct (map fst root)"
  shows "let hm' = extractMetadata root hm
    in hm_ok hm' \<and> plain (snd hm') = plain (extract_fields root (snd hm))
       \<and> (\<forall>k. extras hm' k =
             (if k \<in> set known_keys \<or> Option.bind (map_of root k) um_any = None then extras hm k
              else Option.bind (map_of root k) um_any))"
  using extractMetadata_effect [OF assms]
  by (auto simp: Let_def extra_read_def map_add_def split: option.split)

theorem extractMetadata_spec_witness:
  "let hm' = extractMetadata [(''id'', ''1''), (''x'', lit_true)] ([], zero_meta)
    in hm_ok hm' \<and> plain (snd hm') = plain (extract_fields [(''id'', ''1''), (''x'', lit_true)] (snd ([] :: heap, zero_meta)))
       \<and> (\<forall>k. extras hm' k =
             (if k \<in> set known_keys \<or> Option.bind (map_of [(''id'', ''1''), (''x'', lit_true)] k) um_any = None
              then extras ([], zero_meta) k
              else Option.bind (map_of [(''id'', ''1''), (''x'', lit_true)] k) um_any))"
  by (rule extractMetadata_spec) (simp_all add: hm_ok_def meta_ok_def zero_meta_def)

end
