(* ===== verification/Parser_Laws.thy ===== *)
theory Parser_Laws
  imports Chat_Trip
begin

text \<open>
  What every run of the parser guarantees: no event is lost, roles are announced once, the tool calls of
  a chunk are grouped as the code groups them.
\<close>

section \<open>Roles\<close>

fun news :: "(int \<times> bytes) list \<Rightarrow> segment list \<Rightarrow> (int \<times> bytes) list" where
  "news seen [] = seen"
| "news seen (seg # segs) = news (after_role seg seen) segs"

lemma announced_append: "announced seen (xs @ ys) \<longleftrightarrow> announced seen xs \<and> announced (news seen xs) ys"
  by (induction xs arbitrary: seen) auto

lemma news_append: "news seen (xs @ ys) = news (news seen xs) ys"
  by (induction xs arbitrary: seen) auto

text \<open>Segments that announce no role.\<close>

fun roleless :: "segment \<Rightarrow> bool" where
  "roleless (Role v) = False"
| "roleless _ = True"

lemma roleless_announced: "list_all roleless segs \<Longrightarrow> announced seen segs \<and> news seen segs = seen"
proof (induction segs)
  case (Cons seg segs)
  then show ?case by (cases seg) simp_all
qed simp

lemma roleless_parts:
  "list_all roleless (parse_reasoning delta idx m keys)" "list_all roleless (parse_content delta idx m)"
  "list_all roleless (parse_tools delta idx m)" "list_all roleless (parse_finish choice m)"
  "list_all roleless (parse_usage root m)"
  by (induction keys) (auto simp: parse_content_def parse_tools_def parse_finish_def parse_usage_def
      split: option.split)

definition role_step :: "parser \<Rightarrow> segment list \<Rightarrow> parser \<Rightarrow> bool" where
  "role_step p segs p' \<longleftrightarrow> announced (ps_seenRoles p) segs \<and> ps_seenRoles p' = news (ps_seenRoles p) segs
     \<and> ps_protocol p' = ps_protocol p"

lemma role_step_meta [simp]: "role_step (p\<lparr>ps_meta := m\<rparr>) segs q = role_step p segs q"
  by (simp add: role_step_def)

lemma role_step_Nil [simp]: "role_step p [] p"
  by (simp add: role_step_def)

lemma role_step_trans: "role_step p xs q \<Longrightarrow> role_step q ys r \<Longrightarrow> role_step p (xs @ ys) r"
  by (simp add: role_step_def announced_append news_append)

lemma role_step_roleless:
  "list_all roleless segs \<Longrightarrow> ps_seenRoles p' = ps_seenRoles p \<Longrightarrow> ps_protocol p' = ps_protocol p \<Longrightarrow> role_step p segs p'"
  using roleless_announced [of segs "ps_seenRoles p"] by (simp add: role_step_def)

lemma parse_role_step:
  assumes "parse_role delta idx p = (segs, p')"
  shows "role_step p segs p'"
  using assms by (auto simp: parse_role_def role_step_def seen_role_def split: option.splits if_splits)

lemma parse_delta_step:
  assumes "parse_delta choice p = (segs, p')"
  shows "role_step p segs p'"
proof (cases "0 < length (cc_Delta choice) \<and> cc_Delta choice \<noteq> lit_null \<and> um_map_raw (cc_Delta choice) \<noteq> None")
  case False
  with assms show ?thesis by (auto simp: parse_delta_def role_step_def split: if_splits)
next
  case True
  then obtain delta where delta: "um_map_raw (cc_Delta choice) = Some delta" by auto
  obtain role q where r: "parse_role delta (cc_Index choice) p = (role, q)" by fastforce
  let ?more = "parse_reasoning delta (cc_Index choice) (ps_meta p) reasoning_keys
    @ parse_content delta (cc_Index choice) (ps_meta p) @ parse_tools delta (cc_Index choice) (ps_meta p)"
  have p': "p' = q" and segs: "segs = role @ ?more \<or> role @ ?more = [] \<and> list_all roleless segs"
    using assms True delta r by (auto simp: parse_delta_def Let_def split: if_splits)
  have "role_step q ?more q" by (rule role_step_roleless) (simp_all add: roleless_parts)
  from role_step_trans [OF parse_role_step [OF r] this] have "role_step p (role @ ?more) q" by simp
  then show ?thesis using segs p' by (auto simp: role_step_def roleless_announced)
qed

lemma parseChoice_step:
  assumes "parseChoice choice p = (segs, p')"
  shows "role_step p segs p'"
proof -
  obtain xs q where d: "parse_delta choice p = (xs, q)" by fastforce
  have "role_step q (parse_finish choice (ps_meta q)) q" by (rule role_step_roleless) (simp_all add: roleless_parts)
  from role_step_trans [OF parse_delta_step [OF d] this] show ?thesis
    using assms by (auto simp: parseChoice_def d)
qed

lemma parse_choices_step: "parse_choices cs p = (segs, p') \<Longrightarrow> role_step p segs p'"
proof (induction cs arbitrary: p segs p')
  case Nil
  then show ?case by (simp add: role_step_def)
next
  case (Cons c cs)
  obtain xs q where c: "parseChoice c p = (xs, q)" by fastforce
  obtain ys r where cs: "parse_choices cs q = (ys, r)" by fastforce
  with role_step_trans [OF parseChoice_step [OF c] Cons.IH [OF cs]] Cons.prems c show ?case by simp
qed

lemma parse_chat_root_step:
  assumes "parse_chat_root data root (p, h) = (segs, p', h')"
  shows "role_step p segs p'"
proof (cases "map_of root ''error'' = None")
  case False
  with assms show ?thesis by (auto simp: parse_chat_root_def role_step_def raw_event_def)
next
  case True
  obtain h1 m where e: "extractMetadata root (h, ps_meta p) = (h1, m)" by fastforce
  let ?p = "p\<lparr>ps_meta := m\<rparr>"
  obtain xs q where c: "parse_root_choices root ?p = (xs, q)" by fastforce
  have "role_step p [] ?p" by (simp add: role_step_def)
  then have "role_step p xs q"
    using c parse_choices_step [of _ ?p xs q] by (auto simp: parse_root_choices_def split: option.splits if_splits)
  moreover have "role_step q (parse_usage root m) q" by (rule role_step_roleless) (simp_all add: roleless_parts)
  ultimately have "role_step p (xs @ parse_usage root m) q" by (rule role_step_trans)
  then show ?thesis
    using assms True e c by (auto simp: parse_chat_root_def raw_event_def role_step_def split: if_splits)
qed

lemma ParseEvent_step:
  assumes "ParseEvent ev (p, h) = (segs, p', h')"
  shows "role_step p segs p'"
proof -
  have chat: "role_step p segs p'" if "parseChatCompletionsEvent ev (p, h) = (segs, p', h')"
    using that parse_chat_root_step
    by (auto simp: parseChatCompletionsEvent_def Let_def role_step_def raw_event_def split: if_splits option.splits)
  moreover have "role_step p segs p'" if "parseResponsesEvent ev (p, h) = (segs, p', h')"
  proof (rule role_step_roleless)
    show "list_all roleless segs" "ps_seenRoles p' = ps_seenRoles p" "ps_protocol p' = ps_protocol p"
      using that by (auto simp: parseResponsesEvent_def parse_responses_root_def Let_def
          split: if_splits option.splits)
  qed
  ultimately show ?thesis using assms by (auto simp: ParseEvent_def split: protocol.splits if_splits)
qed

lemma parse_events_step: "parse_events evs (p, h) = (ls, p', h') \<Longrightarrow> role_step p (concat ls) p'"
proof (induction evs arbitrary: p h ls p' h')
  case Nil
  then show ?case by (simp add: role_step_def)
next
  case (Cons ev evs)
  obtain segs q h1 where ev: "ParseEvent ev (p, h) = (segs, q, h1)" by (metis prod_cases3)
  obtain ls' q' h2 where evs: "parse_events evs (q, h1) = (ls', q', h2)" by (metis prod_cases3)
  from role_step_trans [OF ParseEvent_step [OF ev] Cons.IH [OF evs]] Cons.prems ev evs show ?case by auto
qed

section \<open>No event is lost\<close>

lemma ParseEvent_some:
  assumes "ParseEvent ev (p, h) = (segs, p', h')" "trim_space (ev_Data ev) \<noteq> []"
  shows "segs \<noteq> []"
proof -
  have "segs \<noteq> []" if "parseChatCompletionsEvent ev (p, h) = (segs, p', h')"
    using that assms(2)
    by (auto simp: parseChatCompletionsEvent_def parse_chat_root_def Let_def split: if_splits option.splits prod.splits)
  moreover have "segs \<noteq> []" if "parseResponsesEvent ev (p, h) = (segs, p', h')"
    using that assms(2) by (auto simp: parseResponsesEvent_def Let_def split: if_splits option.splits prod.splits)
  ultimately show ?thesis using assms(1) by (auto simp: ParseEvent_def split: protocol.splits if_splits)
qed

lemma ParseEvent_none:
  assumes "trim_space (ev_Data ev) = []"
  shows "ParseEvent ev ph = ([], ph)"
  using assms by (simp add: ParseEvent_def parseChatCompletionsEvent_def parseResponsesEvent_def split: protocol.split)

section \<open>Tool calls of one chunk\<close>

lemma fold_tool_segment:
  "let s' = fold (\<lambda>tc s. s\<lparr>ts_Order := ts_Order s @ [td_Index tc],
                     ts_Calls := AList.update (td_Index tc) (accumulator_of tc) (ts_Calls s)\<rparr>) tcs s
   in ts_Order s' = ts_Order s @ map td_Index tcs
      \<and> map_of (ts_Calls s') = map_of (ts_Calls s) ++ map_of (rev (map (\<lambda>tc. (td_Index tc, accumulator_of tc)) tcs))
      \<and> (distinct (map fst (ts_Calls s)) \<longrightarrow> distinct (map fst (ts_Calls s')))
      \<and> fst ` set (ts_Calls s') = fst ` set (ts_Calls s) \<union> td_Index ` set tcs
      \<and> ts_ChoiceIndex s' = ts_ChoiceIndex s \<and> ts_Metadata s' = ts_Metadata s"
proof (induction tcs arbitrary: s)
  case (Cons tc tcs)
  let ?s = "s\<lparr>ts_Order := ts_Order s @ [td_Index tc],
    ts_Calls := AList.update (td_Index tc) (accumulator_of tc) (ts_Calls s)\<rparr>"
  from Cons.IH [of ?s] show ?case
    by (auto simp: Let_def distinct_update dom_update map_add_def update_conv' fun_eq_iff split: option.split)
qed (simp add: Let_def)

lemma tool_segment_parts:
  "ts_Order (tool_segment idx m tcs) = map td_Index tcs"
  "map_of (ts_Calls (tool_segment idx m tcs)) = map_of (rev (map (\<lambda>tc. (td_Index tc, accumulator_of tc)) tcs))"
  "distinct (map fst (ts_Calls (tool_segment idx m tcs)))"
  "fst ` set (ts_Calls (tool_segment idx m tcs)) = td_Index ` set tcs"
  "ts_ChoiceIndex (tool_segment idx m tcs) = idx" "ts_Metadata (tool_segment idx m tcs) = m"
  using fold_tool_segment [of tcs "\<lparr>ts_ChoiceIndex = idx, ts_Order = [], ts_Calls = [], ts_Metadata = m\<rparr>"]
  by (simp_all add: tool_segment_def Let_def)

lemma announced_parsed: "announced (ps_seenRoles p) (concat (fst (parse_events evs (p, h))))"
proof -
  obtain ls p' h' where "parse_events evs (p, h) = (ls, p', h')" by (metis prod_cases3)
  from this parse_events_step [OF this] show ?thesis by (simp add: role_step_def)
qed

section \<open>Properties\<close>

text \<open>
  C31: no event is lost in the parser.  In every protocol mode an event gives no segment exactly when its
  data are blank, and then the parser stays as it was; anything else, undecodable data included, gives
  at least one segment.
\<close>
theorem ParseEvent_loses_nothing:
  "fst (ParseEvent ev ph) = [] \<longleftrightarrow> trim_space (ev_Data ev) = []"
proof -
  obtain segs p' h' where e: "ParseEvent ev ph = (segs, p', h')" by (metis prod_cases3)
  obtain p h where ph: "ph = (p, h)" by (cases ph)
  show ?thesis
    using ParseEvent_some [OF e [unfolded ph]] ParseEvent_none [of ev ph] e by auto
qed


text \<open>
  The tool calls of a chunk.  \<open>Order\<close> lists every index in the order of the chunk and \<open>Calls\<close> holds
  the last call of each index; the segment is well-formed for merging exactly when no index repeats
  within the chunk.
\<close>
theorem tool_segment_grouping:
  "ts_Order (tool_segment idx m tcs) = map td_Index tcs
   \<and> map_of (ts_Calls (tool_segment idx m tcs)) = map_of (rev (map (\<lambda>tc. (td_Index tc, accumulator_of tc)) tcs))
   \<and> (tool_ok (tool_segment idx m tcs) \<longleftrightarrow> distinct (map td_Index tcs))"
  by (simp add: tool_ok_def tool_segment_parts)

text \<open>
  C33: an unrecognised delta loses its envelope.  When a delta holds only members the parser does not know,
  the parser makes a raw segment of the bare delta, and what the serializer then sends is that delta
  alone: no \<open>choices\<close>, no index, no identifier or model.
\<close>
theorem unknown_delta_unwrapped:
  assumes "um_map_raw (cc_Delta c) = Some delta" "cc_Delta c \<noteq> lit_null" "cc_Delta c \<noteq> []"
    and "list_all (\<lambda>(k, raw). k \<notin> set known_delta_keys) delta" "list_ex (\<lambda>(k, raw). um_any raw \<noteq> None) delta"
    and "cc_FinishReason c = None"
  shows "\<exists>v. parseChoice c p = ([Raw v], p) \<and> SerializeSegment s h now (Raw v) = Some (EncodeData (cc_Delta c))"
proof -
  have none: "map_of delta k = None" if "k \<in> set known_delta_keys" for k
    using assms(4) that by (force simp: list_all_iff map_of_eq_None_iff)
  then have "parse_reasoning delta idx m reasoning_keys = []" for idx m
    by (simp add: reasoning_keys_def known_delta_keys_def)
  moreover have "parse_role delta idx q = ([], q)" "parse_content delta idx m = []" "parse_tools delta idx m = []" for idx q m
    using none by (simp_all add: parse_role_def parse_content_def parse_tools_def)
  moreover have "has_extra_delta delta"
    using assms(4,5) by (fastforce simp: has_extra_delta_def list_all_iff list_ex_iff)
  ultimately show ?thesis
    using assms(1-3,6) by (simp add: parseChoice_def parse_delta_def parse_finish_def serializeRaw_def)
qed

definition refusal_choice :: choice_chunk where
  "refusal_choice = \<lparr>cc_Index = 0, cc_Delta = jtext (GObj [(''refusal'', GStr ''no'')]), cc_FinishReason = None\<rparr>"

theorem unknown_delta_unwrapped_witness:
  "\<exists>v. parseChoice refusal_choice (NewParser 0) = ([Raw v], NewParser 0)
     \<and> SerializeSegment NewSerializer [] 0 (Raw v) = Some (EncodeData (jtext (GObj [(''refusal'', GStr ''no'')])))"
proof -
  let ?t = "jtext (GObj [(''refusal'', GStr ''no'')])"
  have w: "writable (GObj [(''refusal'', GStr ''no'')])" by simp
  have "um_map_raw ?t = Some [(''refusal'', jtext (GStr ''no''))]"
    using um_map_raw_written(1) [of "[(''refusal'', GStr ''no'')]"] by (simp add: writable_to_def)
  moreover have "um_any (jtext (GStr ''no'')) \<noteq> None" using um_any_jtext [of "GStr ''no''"] by simp
  ultimately have "\<exists>v. parseChoice refusal_choice (NewParser 0) = ([Raw v], NewParser 0)
     \<and> SerializeSegment NewSerializer [] 0 (Raw v) = Some (EncodeData (cc_Delta refusal_choice))"
    using trim_jtext_object [OF w]
    by (intro unknown_delta_unwrapped [where delta = "[(''refusal'', jtext (GStr ''no''))]"])
      (simp_all add: refusal_choice_def known_delta_keys_def reasoning_keys_def)
  then show ?thesis by (simp add: refusal_choice_def)
qed

end
