(* ===== verification/Parser_Types.thy ===== *)
theory Parser_Types
  imports Metadata_Trip Parser_Laws
begin

text \<open>
  What decoding guarantees of its results: strings and keys are valid UTF-8, whatever the input bytes,
  keys of objects are distinct, integers fit 64 bits.  So the metadata a parser collects can be written
  again, but for floats and nesting.
\<close>

section \<open>Unquoted strings are UTF-8\<close>

lemma valid_wide:
  assumes "a < 5" "b < 64" "c < 64" "d < 64" "a = 0 \<longrightarrow> 16 \<le> b" "a = 4 \<longrightarrow> b < 16"
  shows "valid_utf8 (chr (240 + a) # chr (128 + b) # chr (128 + c) # chr (128 + d) # x) = valid_utf8 x"
proof -
  have "second4 (240 + a) (chr (128 + b))" using assms by (auto simp: second4_def in_range_def)
  moreover have "cont (chr (128 + c))" "cont (chr (128 + d))" using assms by (simp_all add: in_range_def)
  ultimately show ?thesis
    using assms(1) by (subst valid_utf8.simps) (simp add: good_rune_def decode_rune.simps Let_def)
qed

lemma valid_encode_rune: "valid_utf8 (encode_rune r @ x) = valid_utf8 x"
proof -
  have err: "valid_utf8 (chr 239 # chr 191 # chr 189 # x) = valid_utf8 x"
    by (subst valid_utf8.simps) (simp add: good_rune_def decode_rune.simps Let_def second3_def in_range_def)
  have m: "k mod 64 \<le> 63" for k :: nat using mod_less_divisor [of 64 k] by linarith
  have low: "r div 64 mod 64 = r div 64 - 64 * (r div 4096)" "r div 4096 mod 64 = r div 4096 - 64 * (r div 262144)"
    using div_mult2_eq [of r 64 64] div_mult2_eq [of r 4096 64] by (simp_all add: minus_mult_div_eq_mod)
  consider "r < 128" | "128 \<le> r" "r < 2048" | "2048 \<le> r" "r < 65536" "\<not> (55296 \<le> r \<and> r < 57344)"
    | "65536 \<le> r" "r \<le> 1114111" | "55296 \<le> r \<and> r < 57344 \<or> 1114111 < r"
    by linarith
  then show ?thesis
  proof cases
    case 1
    then show ?thesis by (simp add: encode_rune_def)
  next
    case 2
    then have d: "2 \<le> r div 64" "r div 64 < 32" by (simp_all add: div_le_mono less_mult_imp_div_less)
    then show ?thesis using 2
      by (subst valid_utf8.simps)
        (simp add: encode_rune_def good_rune_def decode_rune.simps Let_def in_range_def m)
  next
    case 3
    then have d: "r div 4096 < 16" by (simp add: less_mult_imp_div_less)
    have lo: "r div 4096 = 0 \<Longrightarrow> 32 \<le> r div 64 mod 64" "r div 4096 = 0 \<Longrightarrow> r div 64 \<le> 63"
      using 3(1) low(1) by linarith+
    have sur: "r div 4096 = 13 \<Longrightarrow> r div 64 mod 64 \<le> 31"
      using 3(3) low(1) by linarith
    show ?thesis using 3 d lo sur
      by (subst valid_utf8.simps)
        (simp add: encode_rune_def good_rune_def decode_rune.simps Let_def in_range_def second3_def m)
  next
    case 4
    then have d: "r div 262144 < 5" by simp
    have lo: "r div 262144 = 0 \<Longrightarrow> 16 \<le> r div 4096 mod 64"
      using 4(1) low(2) by linarith
    have hi: "r div 262144 = 4 \<Longrightarrow> r div 4096 mod 64 < 16"
      using 4(2) low(2) by linarith
    have "encode_rune r = [chr (240 + r div 262144), chr (128 + r div 4096 mod 64), chr (128 + r div 64 mod 64),
        chr (128 + r mod 64)]"
      unfolding encode_rune_def using 4 by (auto simp del: char_of_eq_iff)
    then show ?thesis using d lo hi by (simp add: valid_wide)
  next
    case 5
    then have "encode_rune r = [chr 239, chr 191, chr 189]" by (auto simp: encode_rune_def)
    with err show ?thesis by simp
  qed
qed

lemma simple_escape_ascii: "simple_escape c = Some x \<Longrightarrow> byte x < 128"
  by (auto simp: simple_escape_def split: if_splits)

lemma valid_unquote: "valid_utf8 (unquote s)"
proof (induction s rule: length_induct)
  case (1 s)
  then have ih: "length t < length s \<Longrightarrow> valid_utf8 (unquote t)" for t by blast
  show ?case
  proof (cases s)
    case Nil
    then show ?thesis by simp
  next
    case (Cons c t)
    have "length (drop (snd (decode_rune s)) s) < length s"
      using decode_rune_width [of s] Cons by auto
    then have "valid_utf8 (unquote (drop (snd (decode_rune (c # t))) (c # t)))" using ih Cons by blast
    then show ?thesis
      unfolding Cons unquote.simps [of "c # t"] using ih Cons
      by (auto simp: valid_encode_rune Let_def simple_escape_ascii split: list.split option.split)
  qed
qed

section \<open>Parsed values are typed\<close>

fun jtyped :: "jval \<Rightarrow> bool" where
  "jtyped (JStr s) \<longleftrightarrow> valid_utf8 s"
| "jtyped (JArr es) \<longleftrightarrow> list_all (\<lambda>(raw, v). jtyped v) es"
| "jtyped (JObj ms) \<longleftrightarrow> list_all (\<lambda>(k, raw, v). valid_utf8 k \<and> jtyped v) ms"
| "jtyped _ \<longleftrightarrow> True"

lemma parse_typed:
  "parse_value n d s = Some (v, r) \<Longrightarrow> jtyped v"
  "parse_elems n d s = Some (es, r) \<Longrightarrow> list_all (\<lambda>(raw, v). jtyped v) es"
  "parse_members n d s = Some (ms, r) \<Longrightarrow> list_all (\<lambda>(k, raw, v). valid_utf8 k \<and> jtyped v) ms"
proof (induction n d s and n d s and n d s arbitrary: v r and es r and ms r
    rule: parse_value_parse_elems_parse_members.induct)
  case (2 n depth s)
  then show ?case
    by (auto simp: valid_unquote split: list.splits if_splits)
next
  case (4 n depth s)
  then show ?case by (auto split: option.splits list.splits if_splits)
next
  case (6 n depth s)
  then show ?case
    by (auto simp: valid_unquote Let_def split: option.splits list.splits if_splits)
qed simp_all

lemma json_parse_typed: "json_parse s = Some v \<Longrightarrow> jtyped v"
  by (auto simp: json_parse_def Let_def simp del: parse_value.simps dest: parse_typed split: option.splits if_splits)

text \<open>The same for the values decoding stores; \<open>plain_value\<close> is what it does not guarantee.\<close>

fun gtyped :: "goval \<Rightarrow> bool" where
  "gtyped (GInt i) \<longleftrightarrow> False"
| "gtyped (GStr s) \<longleftrightarrow> valid_utf8 s"
| "gtyped (GArr vs) \<longleftrightarrow> list_all gtyped vs"
| "gtyped (GObj kvs) \<longleftrightarrow> distinct (map fst kvs) \<and> list_all (\<lambda>(k, v). valid_utf8 k \<and> gtyped v) kvs"
| "gtyped _ \<longleftrightarrow> True"

fun floats_clean :: "goval \<Rightarrow> bool" where
  "floats_clean (GFloat f) \<longleftrightarrow> clean_float f"
| "floats_clean (GArr vs) \<longleftrightarrow> list_all floats_clean vs"
| "floats_clean (GObj kvs) \<longleftrightarrow> list_all (\<lambda>(k, v). floats_clean v) kvs"
| "floats_clean _ \<longleftrightarrow> True"

lemma typed_writable: "gtyped v \<Longrightarrow> floats_clean v \<Longrightarrow> writable v \<and> from_json v"
proof (induction v)
  case (GObj kvs)
  then show ?case by (fastforce simp: list_all_iff)
qed (auto simp: list_all_iff)

lemma in_put_all: "x \<in> set (put_all m kvs) \<Longrightarrow> x \<in> set m \<or> x \<in> set kvs"
proof (induction kvs arbitrary: m)
  case (Cons kv kvs)
  obtain k v where kv: "kv = (k, v)" by (cases kv)
  with Cons.IH [of "AList.update k v m"] Cons.prems in_set_update [of x k v m] show ?case by auto
qed simp

lemma any_val_typed: "jtyped v \<Longrightarrow> gtyped (any_val v)"
proof (induction v)
  case (JNum t)
  then show ?case by (simp split: option.split)
next
  case (JArr es)
  then show ?case by (fastforce simp: list_all_iff)
next
  case (JObj ms)
  then have "list_all (\<lambda>(k, v). valid_utf8 k \<and> gtyped v) (map (\<lambda>(k, raw, v). (k, any_val v)) ms)"
    by (fastforce simp: list_all_iff)
  then have "list_all (\<lambda>(k, v). valid_utf8 k \<and> gtyped v) (put_all [] (map (\<lambda>(k, raw, v). (k, any_val v)) ms))"
    unfolding list_all_iff using in_put_all by fastforce
  then show ?case by (simp add: distinct_put_all)
qed simp_all

lemma um_typed:
  "um_any raw = Some v \<Longrightarrow> gtyped v"
  "um_string raw = Some s \<Longrightarrow> valid_utf8 s"
  "um_int raw = Some i \<Longrightarrow> int64_range i"
  "um_map_raw raw = Some root \<Longrightarrow> distinct (map fst root) \<and> list_all (\<lambda>(k, r). valid_utf8 k) root"
proof -
  show "um_any raw = Some v \<Longrightarrow> gtyped v"
    by (auto simp: um_any_def any_val_typed json_parse_typed split: option.splits if_splits)
  show "um_string raw = Some s \<Longrightarrow> valid_utf8 s"
    by (auto simp: um_string_def dest: json_parse_typed split: option.splits jval.splits)
  show "um_int raw = Some i \<Longrightarrow> int64_range i"
    by (auto simp: um_int_def parse_int64_def Let_def split: option.splits jval.splits if_splits)
  show "distinct (map fst root) \<and> list_all (\<lambda>(k, r). valid_utf8 k) root" if root: "um_map_raw raw = Some root"
  proof (cases "\<exists>ms. json_parse raw = Some (JObj ms)")
    case True
    then obtain ms where ms: "json_parse raw = Some (JObj ms)" by blast
    have "list_all (\<lambda>(k, raw, v). valid_utf8 k \<and> jtyped v) ms" using json_parse_typed [OF ms] by simp
    then have "list_all (\<lambda>(k, r). valid_utf8 k) (map (\<lambda>(k, r, v). (k, r)) ms)" by (auto simp: list_all_iff)
    then have "list_all (\<lambda>(k, r). valid_utf8 k) (put_all [] (map (\<lambda>(k, r, v). (k, r)) ms))"
      unfolding list_all_iff using in_put_all by fastforce
    with root ms show ?thesis by (auto simp: um_map_raw_def distinct_put_all)
  next
    case False
    with root show ?thesis by (auto simp: um_map_raw_def split: option.splits jval.splits)
  qed
qed

section \<open>The parser's metadata are typed\<close>

definition fields_typed :: "common_metadata \<Rightarrow> bool" where
  "fields_typed m \<longleftrightarrow> valid_utf8 (md_ID m) \<and> valid_utf8 (md_Object m) \<and> valid_utf8 (md_Model m)
     \<and> valid_utf8 (md_SystemFingerprint m) \<and> valid_utf8 (md_ServiceTier m) \<and> int64_range (md_Created m)"

definition entries_typed :: "gomap \<Rightarrow> bool" where
  "entries_typed x \<longleftrightarrow> distinct (map fst x)
     \<and> list_all (\<lambda>(k, v). k \<notin> set known_keys \<and> valid_utf8 k \<and> gtyped v) x"

definition meta_typed :: "heap \<times> common_metadata \<Rightarrow> bool" where
  "meta_typed hm \<longleftrightarrow> hm_ok hm \<and> fields_typed (snd hm) \<and> entries_typed (heap_get (fst hm) (md_Extra (snd hm)))"

lemma entries_typed_put:
  "entries_typed x \<Longrightarrow> k \<notin> set known_keys \<Longrightarrow> valid_utf8 k \<Longrightarrow> gtyped v \<Longrightarrow> entries_typed (put k v x)"
  by (auto simp: entries_typed_def distinct_update list_all_iff dest: in_set_update)

lemma add_extra_typed:
  assumes "meta_typed hm" "valid_utf8 k"
  shows "meta_typed (add_extra (k, raw) hm)"
proof -
  obtain h m where hm: "hm = (h, m)" by (cases hm)
  obtain h1 a where mk: "heap_make h (md_Extra m) = (h1, a)" by fastforce
  have ok: "case md_Extra m of None \<Rightarrow> True | Some a \<Rightarrow> a < length h"
    using assms(1) by (simp add: hm meta_typed_def hm_ok_def meta_ok_def)
  note mk_ok = heap_make_ok [OF mk ok]
  show ?thesis
    using mk_ok assms
    by (auto simp: add_extra_def hm mk Let_def meta_typed_def hm_ok_def meta_ok_def fields_typed_def
        entries_typed_put um_typed(1) split: option.split)
qed

lemma fold_add_extra_typed:
  "meta_typed hm \<Longrightarrow> list_all (\<lambda>(k, r). valid_utf8 k) root \<Longrightarrow> meta_typed (fold add_extra root hm)"
proof (induction root arbitrary: hm)
  case (Cons kr root)
  then show ?case by (cases kr) (simp add: add_extra_typed)
qed simp

lemma set_string_typed:
  "fields_typed m \<Longrightarrow> (\<And>s m. fields_typed m \<Longrightarrow> valid_utf8 s \<Longrightarrow> fields_typed (upd s m)) \<Longrightarrow>
   fields_typed (set_string root key upd m)"
  by (auto simp: set_string_def um_typed(2) split: option.split)

lemma fields_typed_updates:
  "fields_typed m \<Longrightarrow> valid_utf8 s \<Longrightarrow> fields_typed (m\<lparr>md_ID := s\<rparr>)"
  "fields_typed m \<Longrightarrow> valid_utf8 s \<Longrightarrow> fields_typed (m\<lparr>md_Object := s\<rparr>)"
  "fields_typed m \<Longrightarrow> valid_utf8 s \<Longrightarrow> fields_typed (m\<lparr>md_Model := s\<rparr>)"
  "fields_typed m \<Longrightarrow> valid_utf8 s \<Longrightarrow> fields_typed (m\<lparr>md_SystemFingerprint := s\<rparr>)"
  "fields_typed m \<Longrightarrow> valid_utf8 s \<Longrightarrow> fields_typed (m\<lparr>md_ServiceTier := s\<rparr>)"
  "fields_typed m \<Longrightarrow> int64_range i \<Longrightarrow> fields_typed (m\<lparr>md_Created := i\<rparr>)"
  by (simp_all add: fields_typed_def)

lemma int64_of_f64_range: "int64_range (int64_of_f64 f)"
  by (cases f) (auto simp: Let_def)

lemma parse_int_range: "parse_int64 s = Some i \<Longrightarrow> int64_range i" "ParseInt s = Some i \<Longrightarrow> int64_range i"
  by (auto simp: ParseInt_def parse_int64_def Let_def split: list.splits if_splits)

lemma created_typed:
  "um_int raw = Some i \<Longrightarrow> fields_typed m \<Longrightarrow> fields_typed (m\<lparr>md_Created := i\<rparr>)"
  "ParseInt s = Some i \<Longrightarrow> fields_typed m \<Longrightarrow> fields_typed (m\<lparr>md_Created := i\<rparr>)"
  "fields_typed m \<Longrightarrow> fields_typed (m\<lparr>md_Created := int64_of_f64 f\<rparr>)"
  using um_typed(3) parse_int_range(2) int64_of_f64_range fields_typed_updates(6) by blast+

lemma set_created_typed: "fields_typed m \<Longrightarrow> fields_typed (set_created raw m)"
  unfolding set_created_def Let_def
  by (auto intro: created_typed split: option.split)

lemma extract_fields_typed: "fields_typed m \<Longrightarrow> fields_typed (extract_fields root m)"
  unfolding extract_fields_def Let_def
  by (intro set_string_typed) (auto simp: fields_typed_updates intro!: set_string_typed set_created_typed split: option.split)

lemma extractMetadata_typed:
  assumes "meta_typed hm" "list_all (\<lambda>(k, r). valid_utf8 k) root"
  shows "meta_typed (extractMetadata root hm)"
  unfolding extractMetadata_def
proof (rule fold_add_extra_typed [OF _ assms(2)])
  show "meta_typed (fst hm, extract_fields root (snd hm))"
    using assms(1) extract_fields_typed [of "snd hm" root]
    by (simp add: meta_typed_def hm_ok_def meta_ok_def extract_fields_Extra)
qed

lemma extractResponsesMetadata_typed:
  "fields_typed m \<Longrightarrow> fields_typed (extractResponsesMetadata root m)"
  unfolding extractResponsesMetadata_def Let_def
  by (auto simp: fields_typed_updates bind_eq_Some_conv intro!: set_string_typed created_typed(1) split: option.split)

lemma extractResponsesMetadata_Extra: "md_Extra (extractResponsesMetadata root m) = md_Extra m"
  by (auto simp: extractResponsesMetadata_def Let_def set_string_Extra split: option.split)

lemma parse_choices_meta: "parse_choices cs p = (segs, p') \<Longrightarrow> ps_meta p' = ps_meta p"
proof (induction cs arbitrary: p segs p')
  case (Cons c cs)
  have "ps_meta q = ps_meta p" if "parseChoice c p = (xs, q)" for xs q
    using that by (auto simp: parseChoice_def parse_delta_def parse_role_def Let_def
        split: if_splits option.splits prod.splits)
  with Cons show ?case by (fastforce split: prod.splits)
qed simp

lemma ParseEvent_typed:
  assumes "ParseEvent ev (p, h) = (segs, p', h')" "meta_typed (h, ps_meta p)"
  shows "meta_typed (h', ps_meta p')"
proof -
  have "meta_typed (h', ps_meta p')" if chat: "parse_chat_root data root (p, h) = (segs, p', h')"
    and root: "um_map_raw data = Some root" for data root
  proof (cases "map_of root ''error'' = None")
    case True
    obtain h1 m where e: "extractMetadata root (h, ps_meta p) = (h1, m)" by fastforce
    have t: "meta_typed (h1, m)" using extractMetadata_typed [OF assms(2)] um_typed(4) [OF root] e by metis
    obtain xs q where c: "parse_root_choices root (p\<lparr>ps_meta := m\<rparr>) = (xs, q)" by fastforce
    have "ps_meta q = m"
      using c parse_choices_meta by (fastforce simp: parse_root_choices_def split: if_splits option.splits)
    then have "ps_meta p' = m \<and> h' = h1"
      using c chat True e by (auto simp: parse_chat_root_def split: if_splits)
    with t show ?thesis by simp
  qed (use chat assms(2) in \<open>auto simp: parse_chat_root_def\<close>)
  then have "meta_typed (h', ps_meta p')" if "parseChatCompletionsEvent ev (p, h) = (segs, p', h')"
    using that assms(2) by (auto simp: parseChatCompletionsEvent_def Let_def split: if_splits option.splits)
  moreover have "meta_typed (h', ps_meta p')" if "parseResponsesEvent ev (p, h) = (segs, p', h')"
  proof -
    have "meta_typed (h, extractResponsesMetadata root (ps_meta p))" for root
      using assms(2) extractResponsesMetadata_typed [of "ps_meta p" root]
      by (simp add: meta_typed_def hm_ok_def meta_ok_def extractResponsesMetadata_Extra)
    then show ?thesis
      using that assms(2) by (auto simp: parseResponsesEvent_def parse_responses_root_def Let_def
        split: if_splits option.splits)
  qed
  ultimately show ?thesis using assms(1) by (auto simp: ParseEvent_def split: protocol.splits if_splits)
qed

lemma parse_events_typed:
  "parse_events evs (p, h) = (ls, p', h') \<Longrightarrow> meta_typed (h, ps_meta p) \<Longrightarrow> meta_typed (h', ps_meta p')"
proof (induction evs arbitrary: p h ls p' h')
  case (Cons ev evs)
  obtain segs q h1 where ev: "ParseEvent ev (p, h) = (segs, q, h1)" by (metis prod_cases3)
  obtain ls' q' h2 where evs: "parse_events evs (q, h1) = (ls', q', h2)" by (metis prod_cases3)
  from Cons.IH [OF evs ParseEvent_typed [OF ev Cons.prems(2)]] Cons.prems(1) ev evs show ?case by auto
qed simp

text \<open>What typing leaves open for the metadata to be writable: the decimal form of floats, and nesting.\<close>

definition extras_plain :: "gomap \<Rightarrow> bool" where
  "extras_plain x \<longleftrightarrow> list_all (\<lambda>(k, v). floats_clean v \<and> gdepth v \<le> 9999) x"

lemma typed_clean:
  assumes "meta_typed (h, m)" "extras_plain (heap_get h (md_Extra m))"
  shows "meta_clean h m"
proof -
  let ?x = "heap_get h (md_Extra m)"
  have "k \<notin> set known_keys \<and> valid_utf8 k \<and> writable_to 9999 v \<and> from_json v" if "(k, v) \<in> set ?x" for k v
    using that assms typed_writable [of v]
    by (auto simp: meta_typed_def entries_typed_def extras_plain_def list_all_iff writable_to_def)
  then have "list_all (\<lambda>(k, v). k \<notin> set known_keys \<and> valid_utf8 k \<and> writable_to 9999 v \<and> from_json v) ?x"
    by (auto simp: list_all_iff)
  then show ?thesis using assms(1) by (simp add: meta_clean_def meta_typed_def fields_typed_def entries_typed_def)
qed

section \<open>Properties\<close>

text \<open>
  C30: whatever bytes the upstream sends, the metadata of the parser are well typed.  After any run of
  events from a fresh parser every string in them, extra keys and nested strings included, is valid
  UTF-8, the creation time fits int64, the shared map is well-formed, its keys are distinct and none of
  the keys the parser handles itself is among them; so the metadata can be written into a chunk from
  which another parser reads them back, up to the decimal form of floats and 9999 levels of nesting.
\<close>
theorem parser_metadata_typed:
  assumes "int64_range now"
  shows "let r = snd (parse_events evs (SetProtocol proto (NewParser now), []))
    in meta_typed (snd r, ps_meta (fst r))
       \<and> (extras_plain (heap_get (snd r) (md_Extra (ps_meta (fst r)))) \<longrightarrow> meta_clean (snd r) (ps_meta (fst r)))"
proof -
  let ?p = "SetProtocol proto (NewParser now)"
  have "meta_typed ([], ps_meta ?p)"
    using assms by (simp add: SetProtocol_def NewParser_def zero_meta_def meta_typed_def hm_ok_def meta_ok_def
        fields_typed_def entries_typed_def heap_get_def)
  moreover obtain ls p' h' where r: "parse_events evs (?p, []) = (ls, p', h')" by (metis prod_cases3)
  ultimately have "meta_typed (h', ps_meta p')" using parse_events_typed by blast
  then show ?thesis using r typed_clean by simp
qed

theorem parser_metadata_typed_witness:
  "let r = snd (parse_events [data_event ''{}''] (SetProtocol ProtocolAuto (NewParser 5), []))
    in meta_typed (snd r, ps_meta (fst r))
       \<and> (extras_plain (heap_get (snd r) (md_Extra (ps_meta (fst r)))) \<longrightarrow> meta_clean (snd r) (ps_meta (fst r)))"
  by (rule parser_metadata_typed) simp

end
