(* ===== verification/Go_Strconv.thy ===== *)
theory Go_Strconv
  imports Go_Float
begin

text \<open>
  What configuration, compression and the server use of \<open>strings\<close> and \<open>strconv\<close>: \<open>ToLower\<close>,
  \<open>Cut\<close>, \<open>Index\<close>, \<open>LastIndex\<close>, \<open>Contains\<close>, \<open>TrimSuffix\<close>, and \<open>ParseFloat\<close>, \<open>ParseInt\<close> with base 0
  and \<open>ParseBool\<close> with everything they accept.
\<close>

section \<open>strings\<close>

text \<open>
  \<open>ToLower\<close>, up to what a comparison with an ASCII text can see.  Two runes outside ASCII have an ASCII
  lower case: U+0130 (\<open>i\<close>) and U+212A (\<open>k\<close>).  The others are left alone here; Go maps them to runes
  outside ASCII.  The program only compares the result with ASCII texts.
\<close>

definition lower_char :: "char \<Rightarrow> char" where
  "lower_char c = (if 65 \<le> byte c \<and> byte c \<le> 90 then chr (byte c + 32) else c)"

fun ToLower :: "bytes \<Rightarrow> bytes" where
  "ToLower [] = []"
| "ToLower (c # s) =
     (if byte c = 196 \<and> take 1 s = [chr 176] then CHR ''i'' # ToLower (drop 1 s)
      else if byte c = 226 \<and> take 2 s = [chr 132, chr 170] then CHR ''k'' # ToLower (drop 2 s)
      else lower_char c # ToLower s)"

text \<open>The index of the first, and of the last, occurrence of a text.\<close>

fun Index :: "bytes \<Rightarrow> bytes \<Rightarrow> nat option" where
  "Index [] sub = (if sub = [] then Some 0 else None)"
| "Index (c # s) sub = (if has_prefix (c # s) sub then Some 0 else map_option Suc (Index s sub))"

fun LastIndex :: "bytes \<Rightarrow> bytes \<Rightarrow> nat option" where
  "LastIndex [] sub = (if sub = [] then Some 0 else None)"
| "LastIndex (c # s) sub =
     (case LastIndex s sub of
        Some i \<Rightarrow> Some (Suc i)
      | None \<Rightarrow> if has_prefix (c # s) sub then Some 0 else None)"

definition Contains :: "bytes \<Rightarrow> bytes \<Rightarrow> bool" where
  "Contains s sub \<longleftrightarrow> Index s sub \<noteq> None"

definition Cut :: "bytes \<Rightarrow> bytes \<Rightarrow> bytes \<times> bytes \<times> bool" where
  "Cut s sep = (case Index s sep of Some i \<Rightarrow> (take i s, drop (i + length sep) s, True) | None \<Rightarrow> (s, [], False))"

definition TrimSuffix :: "bytes \<Rightarrow> bytes \<Rightarrow> bytes" where
  "TrimSuffix s suffix = (if has_suffix s suffix then take (length s - length suffix) s else s)"

section \<open>Underscores between digits\<close>

definition lower_in :: "nat \<Rightarrow> nat \<Rightarrow> char \<Rightarrow> bool" where
  "lower_in lo hi c \<longleftrightarrow> lo \<le> byte (lower_char c) \<and> byte (lower_char c) \<le> hi"

definition is_hex :: "char \<Rightarrow> bool" where
  "is_hex c \<longleftrightarrow> is_digit c \<or> lower_in 97 102 c"

definition hex_val :: "char \<Rightarrow> nat" where
  "hex_val c = (if is_digit c then digit_val c else byte (lower_char c) - 87)"

datatype seen = SeenNothing | SeenDigit | SeenUnderscore | SeenOther

fun underscores_from :: "bool \<Rightarrow> seen \<Rightarrow> bytes \<Rightarrow> bool" where
  "underscores_from hex saw [] \<longleftrightarrow> saw \<noteq> SeenUnderscore"
| "underscores_from hex saw (c # s) \<longleftrightarrow>
     (if is_digit c \<or> hex \<and> is_hex c then underscores_from hex SeenDigit s
      else if c = CHR ''_'' then saw = SeenDigit \<and> underscores_from hex SeenUnderscore s
      else saw \<noteq> SeenUnderscore \<and> underscores_from hex SeenOther s)"

definition drop_sign :: "bytes \<Rightarrow> bytes" where
  "drop_sign s = (case s of c # t \<Rightarrow> if c = CHR ''-'' \<or> c = CHR ''+'' then t else s | [] \<Rightarrow> s)"

definition underscoreOK :: "bytes \<Rightarrow> bool" where
  "underscoreOK s =
     (case drop_sign s of
        a # b # t \<Rightarrow>
          if a = CHR ''0'' \<and> lower_char b \<in> {CHR ''b'', CHR ''o'', CHR ''x''}
          then underscores_from (lower_char b = CHR ''x'') SeenDigit t
          else underscores_from False SeenNothing (a # b # t)
      | t \<Rightarrow> underscores_from False SeenNothing t)"

section \<open>ParseFloat\<close>

text \<open>
  The mantissa: digits, at most one dot, underscores.  The result is the digits before and after the dot
  and the rest of the text.
\<close>

fun read_mantissa :: "bool \<Rightarrow> bool \<Rightarrow> bytes \<Rightarrow> bytes \<times> bytes \<times> bytes" where
  "read_mantissa hex dot [] = ([], [], [])"
| "read_mantissa hex dot (c # s) =
     (if c = CHR ''_'' then read_mantissa hex dot s
      else if c = CHR ''.'' \<and> \<not> dot then read_mantissa hex True s
      else if is_digit c \<or> hex \<and> is_hex c
      then (let (i, f, rest) = read_mantissa hex dot s in if dot then (i, c # f, rest) else (c # i, f, rest))
      else ([], [], c # s))"

fun read_exponent :: "nat \<Rightarrow> bytes \<Rightarrow> nat \<times> bytes" where
  "read_exponent e [] = (e, [])"
| "read_exponent e (c # s) =
     (if c = CHR ''_'' then read_exponent e s
      else if is_digit c then read_exponent (if e < 10000 then e * 10 + digit_val c else e) s
      else (e, c # s))"

definition base_val :: "nat \<Rightarrow> bytes \<Rightarrow> nat" where
  "base_val b s = foldl (\<lambda>acc c. acc * b + hex_val c) 0 s"

text \<open>The magnitude of a number text without its sign; \<open>None\<close> if it is no number.\<close>

definition read_float :: "bool \<Rightarrow> bytes \<Rightarrow> float64 option" where
  "read_float neg s =
     (let hex = (case s of a # b # _ # _ \<Rightarrow> a = CHR ''0'' \<and> lower_char b = CHR ''x'' | _ \<Rightarrow> False);
          (i, f, rest) = read_mantissa hex False (if hex then drop 2 s else s);
          value = (\<lambda>e. if hex
             then (let x = e - 4 * int (length f); m = base_val 16 (i @ f)
                   in if 0 \<le> x then round_ratio neg (m * 2 ^ nat x) 1 else round_ratio neg m (2 ^ nat (- x)))
             else f64_of_decimal neg (digits_val (i @ f)) (e - int (length f)))
      in if i @ f = [] then None
         else (case rest of
                 [] \<Rightarrow> if hex then None else Some (value 0)
               | c # t \<Rightarrow>
                   if lower_char c = (if hex then CHR ''p'' else CHR ''e'')
                   then (let (esign, ds) = (case t of d # ds \<Rightarrow> if d = CHR ''+'' then (1, ds)
                               else if d = CHR ''-'' then (-1, ds) else (1, t) | [] \<Rightarrow> (1, []))
                         in case ds of
                              d # _ \<Rightarrow> if is_digit d
                                 then (let (e, rest) = read_exponent 0 ds
                                       in if rest = [] then Some (value (esign * int e)) else None)
                                 else None
                            | [] \<Rightarrow> None)
                   else None))"

text \<open>\<open>strconv.ParseFloat(s, 64)\<close>; out of range is an error too.\<close>

definition ParseFloat :: "bytes \<Rightarrow> float64 option" where
  "ParseFloat s =
     (let neg = (case s of c # _ \<Rightarrow> c = CHR ''-'' | [] \<Rightarrow> False); t = drop_sign s; l = ToLower t
      in if l = ''inf'' \<or> l = ''infinity'' then Some (FInf neg)
         else if ToLower s = ''nan'' then Some FNaN
         else (case read_float neg t of
                 Some x \<Rightarrow>
                   if CHR ''_'' \<in> set s \<and> \<not> underscoreOK s then None
                   else if x = FInf neg then None else Some x
               | None \<Rightarrow> None))"

section \<open>ParseInt and ParseBool\<close>

definition int_base :: "bytes \<Rightarrow> nat \<times> bytes" where
  "int_base s =
     (case s of
        a # t \<Rightarrow>
          if a = CHR ''0''
          then (case t of
                  b # _ # _ \<Rightarrow>
                    if lower_char b = CHR ''b'' then (2, drop 1 t)
                    else if lower_char b = CHR ''o'' then (8, drop 1 t)
                    else if lower_char b = CHR ''x'' then (16, drop 1 t)
                    else (8, t)
                | _ \<Rightarrow> (8, t))
          else (10, s)
      | [] \<Rightarrow> (10, s))"

text \<open>
  \<open>strconv.ParseInt(s, 0, 64)\<close>: the base comes from the prefix, underscores may separate digits.  (A lone
  \<open>0\<close> is read as an octal number without digits, that is as zero.)
\<close>

definition ParseInt0 :: "bytes \<Rightarrow> int option" where
  "ParseInt0 s =
     (let neg = (case s of c # _ \<Rightarrow> c = CHR ''-'' | [] \<Rightarrow> False); t = drop_sign s;
          (b, ds) = int_base t; body = filter (\<lambda>c. c \<noteq> CHR ''_'') ds;
          v = int (base_val b body); v = (if neg then - v else v)
      in if t = [] then None
         else if list_all (\<lambda>c. is_hex c \<and> hex_val c < b) body \<and> (CHR ''_'' \<in> set t \<longrightarrow> underscoreOK s)
                 \<and> int64_range v
         then Some v else None)"

definition ParseBool :: "bytes \<Rightarrow> bool option" where
  "ParseBool s =
     (if s \<in> {''1'', ''t'', ''T'', ''TRUE'', ''true'', ''True''} then Some True
      else if s \<in> {''0'', ''f'', ''F'', ''FALSE'', ''false'', ''False''} then Some False
      else None)"

end
