(* ===== verification/Go_Url.thy ===== *)
theory Go_Url
  imports Go_Strconv
begin

text \<open>
  \<open>net/url\<close>: \<open>Parse\<close>, \<open>(*URL).String\<close> and the escaping they share, and from \<open>net/netip\<close> what \<open>Parse\<close>
  asks of an address in brackets.  A URL has no field \<open>RawFragment\<close>: the program clears the fragment of
  every URL it keeps.  Errors carry no text, since the program does not show them.
\<close>

section \<open>Escaping\<close>

datatype url_mode = EncodePath | EncodeHost | EncodeZone | EncodeUserPassword | EncodeQueryComponent | EncodeFragment

definition is_alnum :: "char \<Rightarrow> bool" where
  "is_alnum c \<longleftrightarrow> is_digit c \<or> lower_in 97 122 c"

definition shouldEscape :: "char \<Rightarrow> url_mode \<Rightarrow> bool" where
  "shouldEscape c mode \<longleftrightarrow>
     (if is_alnum c then False
      else if (mode = EncodeHost \<or> mode = EncodeZone) \<and> (c \<in> set ''!$&()*+,;=:[]<>'' \<or> byte c = 39 \<or> byte c = 34)
      then False
      else if c \<in> set ''-_.~'' then False
      else if c \<in> set ''$&+,/:;=?@''
      then (case mode of
              EncodePath \<Rightarrow> c = CHR ''?''
            | EncodeUserPassword \<Rightarrow> c \<in> set ''@/?:''
            | EncodeQueryComponent \<Rightarrow> True
            | EncodeFragment \<Rightarrow> False
            | _ \<Rightarrow> True)
      else \<not> (mode = EncodeFragment \<and> c \<in> set ''!()*''))"

definition hex_upper :: "nat \<Rightarrow> char" where
  "hex_upper n = ''0123456789ABCDEF'' ! n"

definition url_escape_char :: "url_mode \<Rightarrow> char \<Rightarrow> bytes" where
  "url_escape_char mode c =
     (if c = CHR '' '' \<and> mode = EncodeQueryComponent then ''+''
      else if shouldEscape c mode then [CHR ''%'', hex_upper (byte c div 16), hex_upper (byte c mod 16)]
      else [c])"

definition escape :: "url_mode \<Rightarrow> bytes \<Rightarrow> bytes" where
  "escape mode s = concat (map (url_escape_char mode) s)"

text \<open>The escape \<open>%ab\<close>, unless the mode forbids it.\<close>

definition unescape_hex :: "url_mode \<Rightarrow> char \<Rightarrow> char \<Rightarrow> char option" where
  "unescape_hex mode a b =
     (let v = chr (hex_val a * 16 + hex_val b)
      in if \<not> (is_hex a \<and> is_hex b) then None
         else if mode = EncodeHost \<and> hex_val a < 8 \<and> [a, b] \<noteq> ''25'' then None
         else if mode = EncodeZone \<and> [a, b] \<noteq> ''25'' \<and> v \<noteq> CHR '' '' \<and> shouldEscape v EncodeHost then None
         else Some v)"

fun unescape :: "url_mode \<Rightarrow> bytes \<Rightarrow> bytes option" where
  "unescape mode [] = Some []"
| "unescape mode (c # s) =
     (if c = CHR ''%''
      then (case s of
              a # b # t \<Rightarrow>
                (case unescape_hex mode a b of
                   Some v \<Rightarrow> map_option ((#) v) (unescape mode t)
                 | None \<Rightarrow> None)
            | _ \<Rightarrow> None)
      else if (mode = EncodeHost \<or> mode = EncodeZone) \<and> byte c < 128 \<and> shouldEscape c mode then None
      else map_option ((#) (if c = CHR ''+'' \<and> mode = EncodeQueryComponent then CHR '' '' else c)) (unescape mode s))"

section \<open>Addresses in brackets\<close>

text \<open>\<open>netip.ParseAddr\<close>, as far as accepting an IPv6 address goes.  Four decimal fields of an IPv4 tail.\<close>

definition ipv4_field :: "bytes \<Rightarrow> bool" where
  "ipv4_field s \<longleftrightarrow> s \<noteq> [] \<and> list_all is_digit s \<and> length s \<le> 3 \<and> digits_val s \<le> 255 \<and>
     (hd s = CHR ''0'' \<longrightarrow> length s = 1)"

definition ipv4_tail :: "bytes \<Rightarrow> bool" where
  "ipv4_tail s \<longleftrightarrow> length (split_on (CHR ''.'') s) = 4 \<and> list_all ipv4_field (split_on (CHR ''.'') s)"

text \<open>The groups of an address: \<open>ell\<close> is whether \<open>::\<close> has been seen, \<open>i\<close> counts the bytes so far.\<close>

fun ipv6_groups :: "nat \<Rightarrow> bool \<Rightarrow> nat \<Rightarrow> bytes \<Rightarrow> bool" where
  "ipv6_groups 0 ell i s \<longleftrightarrow> s = [] \<and> (if i < 16 then ell else \<not> ell)"
| "ipv6_groups (Suc k) ell i s \<longleftrightarrow>
     (if 16 \<le> i then s = [] \<and> \<not> ell
      else (let g = takeWhile is_hex s; t = dropWhile is_hex s
            in g \<noteq> [] \<and> length g \<le> 4 \<and>
               (case t of
                  [] \<Rightarrow> if i + 2 < 16 then ell else \<not> ell
                | c # u \<Rightarrow>
                    if c = CHR ''.''
                    then (ell \<or> i = 12) \<and> i + 4 \<le> 16 \<and> ipv4_tail s \<and> (if i + 4 < 16 then ell else \<not> ell)
                    else c = CHR '':'' \<and>
                         (case u of
                            [] \<Rightarrow> False
                          | d # v \<Rightarrow>
                              if d = CHR '':''
                              then \<not> ell \<and> (if v = [] then i + 2 < 16 else ipv6_groups k True (i + 2) v)
                              else ipv6_groups k ell (i + 2) u))))"

definition valid_ipv6 :: "bytes \<Rightarrow> bool" where
  "valid_ipv6 s =
     (let (addr, zone, zoned) = Cut s ''%''
      in CHR '':'' \<in> set addr \<and> (zoned \<longrightarrow> zone \<noteq> []) \<and>
         (if has_prefix addr ''::''
          then (if drop 2 addr = [] then True else ipv6_groups 9 True 0 (drop 2 addr))
          else ipv6_groups 9 False 0 addr))"

section \<open>Parse\<close>

datatype userinfo = User bytes | UserPassword bytes bytes

record url =
  u_Scheme :: bytes
  u_Opaque :: bytes
  u_User :: "userinfo option"
  u_Host :: bytes
  u_Path :: bytes
  u_RawPath :: bytes
  u_OmitHost :: bool
  u_ForceQuery :: bool
  u_RawQuery :: bytes
  u_Fragment :: bytes

definition no_url :: url where
  "no_url = \<lparr>u_Scheme = [], u_Opaque = [], u_User = None, u_Host = [], u_Path = [], u_RawPath = [],
     u_OmitHost = False, u_ForceQuery = False, u_RawQuery = [], u_Fragment = []\<rparr>"

definition is_letter :: "char \<Rightarrow> bool" where
  "is_letter c \<longleftrightarrow> lower_in 97 122 c"

text \<open>Scheme and rest.  \<open>None\<close>: the text starts with a colon.\<close>

definition getScheme :: "bytes \<Rightarrow> (bytes \<times> bytes) option" where
  "getScheme rawURL =
     (let s = takeWhile (\<lambda>c. is_alnum c \<or> c \<in> set ''+-.'') rawURL;
          t = dropWhile (\<lambda>c. is_alnum c \<or> c \<in> set ''+-.'') rawURL
      in case s of
           [] \<Rightarrow> (case t of c # _ \<Rightarrow> if c = CHR '':'' then None else Some ([], rawURL) | [] \<Rightarrow> Some ([], rawURL))
         | a # _ \<Rightarrow>
             if \<not> is_letter a then Some ([], rawURL)
             else (case t of
                     c # rest \<Rightarrow> if c = CHR '':'' then Some (s, rest) else Some ([], rawURL)
                   | [] \<Rightarrow> Some ([], rawURL)))"

definition validOptionalPort :: "bytes \<Rightarrow> bool" where
  "validOptionalPort port \<longleftrightarrow>
     (case port of [] \<Rightarrow> True | c # ds \<Rightarrow> c = CHR '':'' \<and> list_all is_digit ds)"

definition validUserinfo :: "bytes \<Rightarrow> bool" where
  "validUserinfo s \<longleftrightarrow> list_all (\<lambda>c. is_alnum c \<or> c \<in> set ''-._:~!$&()*+,;=%@'' \<or> byte c = 39) s"

definition bind2 :: "'a option \<Rightarrow> 'b option \<Rightarrow> ('a \<Rightarrow> 'b \<Rightarrow> 'c) \<Rightarrow> 'c option" where
  "bind2 x y f = (case x of Some a \<Rightarrow> (case y of Some b \<Rightarrow> Some (f a b) | None \<Rightarrow> None) | None \<Rightarrow> None)"

definition parseHost :: "bytes \<Rightarrow> bytes option" where
  "parseHost host =
     (case LastIndex host ''['' of
        Some (Suc _) \<Rightarrow> None
      | Some 0 \<Rightarrow>
          (case LastIndex host '']'' of
             None \<Rightarrow> None
           | Some i \<Rightarrow>
               (let colonPort = drop (i + 1) host; hostname = take (i - 1) (drop 1 host);
                    name = (case Index hostname ''%25'' of
                              Some z \<Rightarrow> bind2 (unescape EncodeHost (take z hostname))
                                             (unescape EncodeZone (drop z hostname)) (@)
                            | None \<Rightarrow> unescape EncodeHost hostname)
                in if \<not> validOptionalPort colonPort then None
                   else (case bind2 name (unescape EncodeHost colonPort) Pair of
                           Some (name, port) \<Rightarrow> if valid_ipv6 name then Some (''['' @ name @ '']'' @ port) else None
                         | None \<Rightarrow> None)))
      | None \<Rightarrow>
          (case Index host '':'' of
             Some i \<Rightarrow> if validOptionalPort (drop i host) then unescape EncodeHost host else None
           | None \<Rightarrow> unescape EncodeHost host))"

definition parse_userinfo :: "bytes \<Rightarrow> userinfo option" where
  "parse_userinfo s =
     (if \<not> validUserinfo s then None
      else (let (username, password, colon) = Cut s '':''
            in if colon
               then bind2 (unescape EncodeUserPassword username) (unescape EncodeUserPassword password) UserPassword
               else map_option User (unescape EncodeUserPassword s)))"

definition parseAuthority :: "bytes \<Rightarrow> (userinfo option \<times> bytes) option" where
  "parseAuthority authority =
     (case LastIndex authority ''@'' of
        None \<Rightarrow> map_option (Pair None) (parseHost authority)
      | Some i \<Rightarrow>
          bind2 (parseHost (drop (i + 1) authority)) (parse_userinfo (take i authority)) (\<lambda>h u. (Some u, h)))"

definition setPath :: "bytes \<Rightarrow> url \<Rightarrow> url option" where
  "setPath p u =
     (case unescape EncodePath p of
        Some path \<Rightarrow> Some (u\<lparr>u_Path := path, u_RawPath := (if p = escape EncodePath path then [] else p)\<rparr>)
      | None \<Rightarrow> None)"

text \<open>The part after the scheme and before the query.\<close>

definition parse_hier :: "bytes \<Rightarrow> url \<Rightarrow> url option" where
  "parse_hier rest u =
     (if \<not> has_prefix rest ''/'' \<and> u_Scheme u \<noteq> [] then Some (u\<lparr>u_Opaque := rest\<rparr>)
      else if \<not> has_prefix rest ''/'' \<and> CHR '':'' \<in> set (takeWhile (\<lambda>c. c \<noteq> CHR ''/'') rest) then None
      else if (u_Scheme u \<noteq> [] \<or> \<not> has_prefix rest ''///'') \<and> has_prefix rest ''//''
      then (let authority = takeWhile (\<lambda>c. c \<noteq> CHR ''/'') (drop 2 rest);
                rest = dropWhile (\<lambda>c. c \<noteq> CHR ''/'') (drop 2 rest)
            in case parseAuthority authority of
                 Some (user, host) \<Rightarrow> setPath rest (u\<lparr>u_User := user, u_Host := host\<rparr>)
               | None \<Rightarrow> None)
      else setPath rest (if u_Scheme u \<noteq> [] \<and> has_prefix rest ''/'' then u\<lparr>u_OmitHost := True\<rparr> else u))"

definition parse_url :: "bytes \<Rightarrow> url option" where
  "parse_url rawURL =
     (if list_ex (\<lambda>c. byte c < 32 \<or> byte c = 127) rawURL then None
      else if rawURL = ''*'' then Some (no_url\<lparr>u_Path := ''*''\<rparr>)
      else (case getScheme rawURL of
              None \<Rightarrow> None
            | Some (scheme, rest) \<Rightarrow>
                (let u = no_url\<lparr>u_Scheme := ToLower scheme\<rparr>
                 in if has_suffix rest ''?'' \<and> CHR ''?'' \<notin> set (butlast rest)
                    then parse_hier (butlast rest) (u\<lparr>u_ForceQuery := True\<rparr>)
                    else (let (rest, query, _) = Cut rest ''?'' in parse_hier rest (u\<lparr>u_RawQuery := query\<rparr>)))))"

definition Parse :: "bytes \<Rightarrow> url option" where
  "Parse rawURL =
     (let (s, frag, _) = Cut rawURL ''#''
      in case parse_url s of
           None \<Rightarrow> None
         | Some u \<Rightarrow>
             if frag = [] then Some u
             else (case unescape EncodeFragment frag of Some f \<Rightarrow> Some (u\<lparr>u_Fragment := f\<rparr>) | None \<Rightarrow> None))"

section \<open>String\<close>

definition validEncoded :: "bytes \<Rightarrow> url_mode \<Rightarrow> bool" where
  "validEncoded s mode \<longleftrightarrow>
     list_all (\<lambda>c. c \<in> set ''!$&()*+,;=:@[]%'' \<or> byte c = 39 \<or> \<not> shouldEscape c mode) s"

definition EscapedPath :: "url \<Rightarrow> bytes" where
  "EscapedPath u =
     (if u_RawPath u \<noteq> [] \<and> validEncoded (u_RawPath u) EncodePath \<and> unescape EncodePath (u_RawPath u) = Some (u_Path u)
      then u_RawPath u
      else if u_Path u = ''*'' then ''*''
      else escape EncodePath (u_Path u))"

text \<open>For a URL without user and fragment, as all those are that the program prints.\<close>

definition url_String :: "url \<Rightarrow> bytes" where
  "url_String u =
     (let scheme = (if u_Scheme u = [] then [] else u_Scheme u @ '':'');
          host = (if u_Scheme u = [] \<and> u_Host u = [] then []
                  else if u_OmitHost u \<and> u_Host u = [] then []
                  else (if u_Host u \<noteq> [] \<or> u_Path u \<noteq> [] then ''//'' else []) @ escape EncodeHost (u_Host u));
          path = EscapedPath u;
          front = scheme @ host;
          slash = (if path \<noteq> [] \<and> hd path \<noteq> CHR ''/'' \<and> u_Host u \<noteq> [] then ''/'' else []);
          dot = (if front @ slash = [] \<and> CHR '':'' \<in> set (takeWhile (\<lambda>c. c \<noteq> CHR ''/'') path) then ''./'' else []);
          query = (if u_ForceQuery u \<or> u_RawQuery u \<noteq> [] then ''?'' @ u_RawQuery u else [])
      in if u_Opaque u \<noteq> [] then scheme @ u_Opaque u @ query else front @ slash @ dot @ path @ query)"

end
