(* ===== verification/Metrics.thy ===== *)
theory Metrics
  imports Go_Float
begin

text \<open>
  \<open>pkg/metrics/metrics.go\<close>: the counters of \<open>StreamMetrics\<close>, the high-water mark of the pending
  bytes with its compare-and-swap loop, the ratios, and the per-model accounts with their
  snapshots.  Counters are int64 and wrap; ratios are float64.  The text of \<open>Summary\<close> is in theory
  \<open>Metrics_Format\<close>.
\<close>

record model_accumulator =
  ma_requests :: int
  ma_totalTokens :: int
  ma_decodeTokens :: int
  ma_totalTTFTNs :: int
  ma_lastTTFTNs :: int
  ma_totalGenerationDurationNs :: int
  ma_totalClientDurationNs :: int

record stream_metrics =
  UpstreamSSEEvents :: int
  DownstreamSSEEvents :: int
  ReasoningFragmentsIn :: int
  ReasoningEventsOut :: int
  ContentFragmentsIn :: int
  ContentEventsOut :: int
  ToolArgumentFragmentsIn :: int
  ToolEventsOut :: int
  UpstreamBytes :: int
  DownstreamBytes :: int
  CompressionUncompressedBytes :: int
  CompressionCompressedBytes :: int
  PendingBytesCurrent :: int
  PendingBytesMax :: int
  ReaderPauseCount :: int
  ReaderPauseDurationNs :: int
  DownstreamWriteNs :: int
  models :: "(bytes \<times> model_accumulator) list"

definition zero_metrics :: stream_metrics where
  "zero_metrics = \<lparr>UpstreamSSEEvents = 0, DownstreamSSEEvents = 0, ReasoningFragmentsIn = 0,
     ReasoningEventsOut = 0, ContentFragmentsIn = 0, ContentEventsOut = 0, ToolArgumentFragmentsIn = 0,
     ToolEventsOut = 0, UpstreamBytes = 0, DownstreamBytes = 0, CompressionUncompressedBytes = 0,
     CompressionCompressedBytes = 0, PendingBytesCurrent = 0, PendingBytesMax = 0, ReaderPauseCount = 0,
     ReaderPauseDurationNs = 0, DownstreamWriteNs = 0, models = []\<rparr>"

section \<open>Counters\<close>

definition IncUpstreamEvents :: "stream_metrics \<Rightarrow> stream_metrics" where
  "IncUpstreamEvents m = m\<lparr>UpstreamSSEEvents := wrap64 (UpstreamSSEEvents m + 1)\<rparr>"

definition IncDownstreamEvents :: "stream_metrics \<Rightarrow> stream_metrics" where
  "IncDownstreamEvents m = m\<lparr>DownstreamSSEEvents := wrap64 (DownstreamSSEEvents m + 1)\<rparr>"

definition IncReasoningFragmentsIn :: "stream_metrics \<Rightarrow> stream_metrics" where
  "IncReasoningFragmentsIn m = m\<lparr>ReasoningFragmentsIn := wrap64 (ReasoningFragmentsIn m + 1)\<rparr>"

definition IncReasoningEventsOut :: "stream_metrics \<Rightarrow> stream_metrics" where
  "IncReasoningEventsOut m = m\<lparr>ReasoningEventsOut := wrap64 (ReasoningEventsOut m + 1)\<rparr>"

definition IncContentFragmentsIn :: "stream_metrics \<Rightarrow> stream_metrics" where
  "IncContentFragmentsIn m = m\<lparr>ContentFragmentsIn := wrap64 (ContentFragmentsIn m + 1)\<rparr>"

definition IncContentEventsOut :: "stream_metrics \<Rightarrow> stream_metrics" where
  "IncContentEventsOut m = m\<lparr>ContentEventsOut := wrap64 (ContentEventsOut m + 1)\<rparr>"

definition IncToolArgumentFragmentsIn :: "stream_metrics \<Rightarrow> stream_metrics" where
  "IncToolArgumentFragmentsIn m = m\<lparr>ToolArgumentFragmentsIn := wrap64 (ToolArgumentFragmentsIn m + 1)\<rparr>"

definition IncToolEventsOut :: "stream_metrics \<Rightarrow> stream_metrics" where
  "IncToolEventsOut m = m\<lparr>ToolEventsOut := wrap64 (ToolEventsOut m + 1)\<rparr>"

definition AddUpstreamBytes :: "int \<Rightarrow> stream_metrics \<Rightarrow> stream_metrics" where
  "AddUpstreamBytes n m = m\<lparr>UpstreamBytes := wrap64 (UpstreamBytes m + n)\<rparr>"

definition AddDownstreamBytes :: "int \<Rightarrow> stream_metrics \<Rightarrow> stream_metrics" where
  "AddDownstreamBytes n m = m\<lparr>DownstreamBytes := wrap64 (DownstreamBytes m + n)\<rparr>"

definition AddReaderPause :: "int \<Rightarrow> stream_metrics \<Rightarrow> stream_metrics" where
  "AddReaderPause d m = m\<lparr>ReaderPauseCount := wrap64 (ReaderPauseCount m + 1),
     ReaderPauseDurationNs := wrap64 (ReaderPauseDurationNs m + d)\<rparr>"

definition AddDownstreamWrite :: "int \<Rightarrow> stream_metrics \<Rightarrow> stream_metrics" where
  "AddDownstreamWrite d m = m\<lparr>DownstreamWriteNs := wrap64 (DownstreamWriteNs m + d)\<rparr>"

definition AddCompressionBytes :: "int \<Rightarrow> int \<Rightarrow> stream_metrics \<Rightarrow> stream_metrics" where
  "AddCompressionBytes uncompressed compressed m =
     m\<lparr>CompressionUncompressedBytes := wrap64 (CompressionUncompressedBytes m + uncompressed),
       CompressionCompressedBytes := wrap64 (CompressionCompressedBytes m + compressed)\<rparr>"

text \<open>\<open>SetPendingBytes\<close> when no other goroutine interferes: the loop runs once.\<close>

definition SetPendingBytes :: "int \<Rightarrow> stream_metrics \<Rightarrow> stream_metrics" where
  "SetPendingBytes n m =
     (let m = m\<lparr>PendingBytesCurrent := n\<rparr>
      in if n \<le> PendingBytesMax m then m else m\<lparr>PendingBytesMax := n\<rparr>)"

section \<open>SetPendingBytes with interference\<close>

text \<open>
  One \<open>StreamMetrics\<close> serves every stream of the server, so several calls run at once.  Each call
  is a goroutine whose atomic operations are the steps: the store, the load of the maximum, the
  compare-and-swap; a failed swap loops back to the load.
\<close>

datatype set_pc = SetStore int | SetLoad int | SetCas int int | SetDone int

fun set_arg :: "set_pc \<Rightarrow> int" where
  "set_arg (SetStore n) = n" | "set_arg (SetLoad n) = n" | "set_arg (SetCas n c) = n" | "set_arg (SetDone n) = n"

fun set_step1 :: "stream_metrics \<Rightarrow> set_pc \<Rightarrow> stream_metrics \<times> set_pc" where
  "set_step1 m (SetStore n) = (m\<lparr>PendingBytesCurrent := n\<rparr>, SetLoad n)"
| "set_step1 m (SetLoad n) = (m, if n \<le> PendingBytesMax m then SetDone n else SetCas n (PendingBytesMax m))"
| "set_step1 m (SetCas n curMax) =
     (if PendingBytesMax m = curMax then (m\<lparr>PendingBytesMax := n\<rparr>, SetDone n) else (m, SetLoad n))"
| "set_step1 m (SetDone n) = (m, SetDone n)"

inductive set_step :: "stream_metrics \<times> set_pc list \<Rightarrow> stream_metrics \<times> set_pc list \<Rightarrow> bool" where
  "i < length ps \<Longrightarrow> set_step1 m (ps ! i) = (m', p) \<Longrightarrow> set_step (m, ps) (m', ps[i := p])"

inductive_cases set_stepE: "set_step (m, ps) c"

definition set_inv :: "int \<Rightarrow> int list \<Rightarrow> stream_metrics \<times> set_pc list \<Rightarrow> bool" where
  "set_inv mx ns c \<longleftrightarrow>
     (case c of (m, ps) \<Rightarrow>
        map set_arg ps = ns
        \<and> mx \<le> PendingBytesMax m \<and> PendingBytesMax m \<in> insert mx (set ns)
        \<and> (\<forall>p \<in> set ps. case p of SetDone n \<Rightarrow> n \<le> PendingBytesMax m | SetCas n k \<Rightarrow> k < n | _ \<Rightarrow> True))"

lemma set_step1_arg: "set_arg (snd (set_step1 m p)) = set_arg p"
  by (cases p) auto

lemma set_step1_max:
  assumes "set_step1 m p = (m', p')" "case p of SetCas n k \<Rightarrow> k < n | _ \<Rightarrow> True"
  shows "PendingBytesMax m \<le> PendingBytesMax m'"
    and "PendingBytesMax m' = PendingBytesMax m \<or> PendingBytesMax m' = set_arg p"
    and "case p of SetDone n \<Rightarrow> n \<le> PendingBytesMax m | _ \<Rightarrow> True \<Longrightarrow>
      (case p' of SetDone n \<Rightarrow> n \<le> PendingBytesMax m' | SetCas n k \<Rightarrow> k < n | _ \<Rightarrow> True)"
  using assms by (cases p; auto split: if_splits)+

lemma set_inv_step:
  assumes "set_inv mx ns c" "set_step c c'"
  shows "set_inv mx ns c'"
proof -
  obtain m ps where c: "c = (m, ps)" by fastforce
  from assms(2) obtain i m' p where i: "i < length ps" and s1: "set_step1 m (ps ! i) = (m', p)"
    and c': "c' = (m', ps[i := p])" unfolding c by (elim set_stepE) auto
  have inv: "map set_arg ps = ns" "mx \<le> PendingBytesMax m" "PendingBytesMax m \<in> insert mx (set ns)"
    "\<And>q. q \<in> set ps \<Longrightarrow> case q of SetDone n \<Rightarrow> n \<le> PendingBytesMax m | SetCas n k \<Rightarrow> k < n | _ \<Rightarrow> True"
    using assms(1) by (auto simp: set_inv_def c)
  have mem: "ps ! i \<in> set ps" using i by simp
  have pre: "case ps ! i of SetCas n k \<Rightarrow> k < n | _ \<Rightarrow> True"
    "case ps ! i of SetDone n \<Rightarrow> n \<le> PendingBytesMax m | _ \<Rightarrow> True"
    using inv(4) [OF mem] by (auto split: set_pc.splits)
  note st = set_step1_max(1,2) [OF s1 pre(1)] set_step1_max(3) [OF s1 pre(1) pre(2)]
  have arg: "set_arg p = set_arg (ps ! i)" using set_step1_arg [of m "ps ! i"] s1 by simp
  have "map set_arg (ps[i := p]) = ns"
    using inv(1) arg i by (metis list_update_id map_update nth_map)
  moreover have "PendingBytesMax m' \<in> insert mx (set ns)"
    using st(2) inv(1,3) mem by auto
  moreover have "case q of SetDone n \<Rightarrow> n \<le> PendingBytesMax m' | SetCas n k \<Rightarrow> k < n | _ \<Rightarrow> True"
    if q: "q \<in> set (ps[i := p])" for q
  proof (cases "q = p")
    case True
    with st(3) show ?thesis by simp
  next
    case False
    with q have "q \<in> set ps" using set_update_subset_insert [of ps i p] by auto
    from inv(4) [OF this] st(1) show ?thesis by (auto split: set_pc.splits)
  qed
  ultimately show ?thesis using inv(2) st(1) by (auto simp: set_inv_def c')
qed

definition set_init :: "int list \<Rightarrow> stream_metrics \<Rightarrow> stream_metrics \<times> set_pc list" where
  "set_init ns m = (m, map SetStore ns)"

lemma set_inv_reachable:
  "set_step\<^sup>*\<^sup>* (set_init ns m) c \<Longrightarrow> set_inv (PendingBytesMax m) ns c"
proof (induction rule: rtranclp_induct)
  case base
  show ?case by (simp add: set_inv_def set_init_def comp_def)
next
  case (step c c')
  then show ?case by (blast intro: set_inv_step)
qed

section \<open>Ratios\<close>

definition coalescing_ratio :: "int \<Rightarrow> int \<Rightarrow> float64" where
  "coalescing_ratio i out = (if out = 0 then f64_of_int i else f64_div (f64_of_int i) (f64_of_int out))"

definition OverallCoalescingRatio :: "stream_metrics \<Rightarrow> float64" where
  "OverallCoalescingRatio m = coalescing_ratio (UpstreamSSEEvents m) (DownstreamSSEEvents m)"

definition ReasoningCoalescingRatio :: "stream_metrics \<Rightarrow> float64" where
  "ReasoningCoalescingRatio m = coalescing_ratio (ReasoningFragmentsIn m) (ReasoningEventsOut m)"

definition ContentCoalescingRatio :: "stream_metrics \<Rightarrow> float64" where
  "ContentCoalescingRatio m = coalescing_ratio (ContentFragmentsIn m) (ContentEventsOut m)"

definition ToolCoalescingRatio :: "stream_metrics \<Rightarrow> float64" where
  "ToolCoalescingRatio m = coalescing_ratio (ToolArgumentFragmentsIn m) (ToolEventsOut m)"

definition CompressionRatio :: "stream_metrics \<Rightarrow> float64" where
  "CompressionRatio m =
     (if CompressionCompressedBytes m = 0 then f64_zero
      else f64_div (f64_of_int (CompressionUncompressedBytes m)) (f64_of_int (CompressionCompressedBytes m)))"

definition CompressionSavingsRatio :: "stream_metrics \<Rightarrow> float64" where
  "CompressionSavingsRatio m =
     (if CompressionUncompressedBytes m = 0 then f64_zero
      else f64_div (f64_of_int (wrap64 (CompressionUncompressedBytes m - CompressionCompressedBytes m)))
             (f64_of_int (CompressionUncompressedBytes m)))"

section \<open>Per-model accounts\<close>

definition zero_accumulator :: model_accumulator where
  "zero_accumulator = \<lparr>ma_requests = 0, ma_totalTokens = 0, ma_decodeTokens = 0, ma_totalTTFTNs = 0,
     ma_lastTTFTNs = 0, ma_totalGenerationDurationNs = 0, ma_totalClientDurationNs = 0\<rparr>"

definition record_accumulator :: "int \<Rightarrow> int \<Rightarrow> int \<Rightarrow> int \<Rightarrow> model_accumulator \<Rightarrow> model_accumulator" where
  "record_accumulator tokens ttft gen client acc =
     acc\<lparr>ma_requests := wrap64 (ma_requests acc + 1),
         ma_totalTokens := wrap64 (ma_totalTokens acc + tokens),
         ma_decodeTokens := (if 1 < tokens then wrap64 (ma_decodeTokens acc + wrap64 (tokens - 1))
                             else wrap64 (ma_decodeTokens acc + tokens)),
         ma_totalTTFTNs := wrap64 (ma_totalTTFTNs acc + ttft),
         ma_lastTTFTNs := ttft,
         ma_totalGenerationDurationNs := wrap64 (ma_totalGenerationDurationNs acc + gen),
         ma_totalClientDurationNs := wrap64 (ma_totalClientDurationNs acc + client)\<rparr>"

text \<open>\<open>clientDurations\<close> is the variadic parameter: only its first value counts.\<close>

definition RecordModelMetrics ::
  "bytes \<Rightarrow> int \<Rightarrow> int \<Rightarrow> int \<Rightarrow> int list \<Rightarrow> stream_metrics \<Rightarrow> stream_metrics" where
  "RecordModelMetrics model tokens ttft upstreamGen clientDurations m =
     (let model = (if model = [] then ''unknown'' else model);
          clientGen = (if 0 < length clientDurations then hd clientDurations else upstreamGen);
          acc = (case map_of (models m) model of None \<Rightarrow> zero_accumulator | Some acc \<Rightarrow> acc)
      in m\<lparr>models := AList.update model (record_accumulator tokens ttft upstreamGen clientGen acc) (models m)\<rparr>)"

record model_metric_snapshot =
  mms_Requests :: int
  mms_TotalTokens :: int
  mms_AvgTTFTMs :: float64
  mms_LastTTFTMs :: float64
  mms_TotalGenerationDurationMs :: float64
  mms_TotalClientDurationMs :: float64
  mms_TPS :: float64
  mms_ClientTPS :: float64

definition per_second :: "int \<Rightarrow> int \<Rightarrow> float64" where
  "per_second tokens ns = f64_div (f64_of_int tokens) (f64_div (f64_of_int ns) (f64_of_int 1000000000))"

definition millis :: "int \<Rightarrow> float64" where
  "millis ns = f64_div (f64_of_int ns) (f64_of_int 1000000)"

definition snapshot_of :: "model_accumulator \<Rightarrow> model_metric_snapshot" where
  "snapshot_of acc =
     (let reqs = ma_requests acc;
          tokenNumerator = (if 0 < ma_decodeTokens acc then ma_decodeTokens acc else ma_totalTokens acc);
          tps = (if 0 < ma_totalGenerationDurationNs acc
                 then per_second tokenNumerator (ma_totalGenerationDurationNs acc)
                 else if 0 < reqs \<and> 0 < ma_totalTTFTNs acc
                 then per_second tokenNumerator (ma_totalTTFTNs acc)
                 else f64_zero);
          client = (if 0 < ma_totalClientDurationNs acc
                    then per_second tokenNumerator (ma_totalClientDurationNs acc)
                    else if f64_less f64_zero tps then tps else f64_zero)
      in \<lparr>mms_Requests = reqs, mms_TotalTokens = ma_totalTokens acc,
          mms_AvgTTFTMs = (if 0 < reqs
             then f64_div (f64_div (f64_of_int (ma_totalTTFTNs acc)) (f64_of_int reqs)) (f64_of_int 1000000)
             else f64_zero),
          mms_LastTTFTMs = millis (ma_lastTTFTNs acc),
          mms_TotalGenerationDurationMs = millis (ma_totalGenerationDurationNs acc),
          mms_TotalClientDurationMs = millis (ma_totalClientDurationNs acc),
          mms_TPS = tps, mms_ClientTPS = client\<rparr>)"

definition ModelSnapshots :: "stream_metrics \<Rightarrow> (bytes \<times> model_metric_snapshot) list" where
  "ModelSnapshots m = map (\<lambda>(name, acc). (name, snapshot_of acc)) (models m)"

section \<open>The accounts add up\<close>

text \<open>One finished stream: model, tokens, time to first token, generation time, client time.\<close>

type_synonym stream_report = "bytes \<times> int \<times> int \<times> int \<times> int list"

definition record_report :: "stream_report \<Rightarrow> stream_metrics \<Rightarrow> stream_metrics" where
  "record_report r m = (case r of (model, tokens, ttft, gen, client) \<Rightarrow>
     RecordModelMetrics model tokens ttft gen client m)"

definition report_model :: "stream_report \<Rightarrow> bytes" where
  "report_model r = (if fst r = [] then ''unknown'' else fst r)"

definition report_decode :: "stream_report \<Rightarrow> int" where
  "report_decode r = (let t = fst (snd r) in if 1 < t then t - 1 else t)"

definition account :: "bytes \<Rightarrow> stream_metrics \<Rightarrow> model_accumulator" where
  "account name m = (case map_of (models m) name of None \<Rightarrow> zero_accumulator | Some a \<Rightarrow> a)"

lemma wrap64_add: "wrap64 (wrap64 a + b) = wrap64 (a + b)" "wrap64 (a + wrap64 b) = wrap64 (a + b)"
  using signed_take_bit_add [of 63 "signed_take_bit 63 a" b] signed_take_bit_add [of 63 a b]
    signed_take_bit_add [of 63 a "signed_take_bit 63 b"]
  by (simp_all add: wrap64_def)

lemma account_update:
  "account name (m\<lparr>models := AList.update k a (models m)\<rparr>) = (if name = k then a else account name m)"
  by (simp add: account_def update_conv')

lemma record_report_update:
  "record_report (model, tokens, ttft, gen, client) m =
   m\<lparr>models := AList.update (report_model (model, tokens, ttft, gen, client))
     (record_accumulator tokens ttft gen (if 0 < length client then hd client else gen)
        (account (report_model (model, tokens, ttft, gen, client)) m)) (models m)\<rparr>"
  by (simp add: record_report_def RecordModelMetrics_def Let_def report_model_def account_def)

lemma account_report:
  "account name (record_report (model, tokens, ttft, gen, client) m) =
   (if report_model (model, tokens, ttft, gen, client) = name
    then record_accumulator tokens ttft gen (if 0 < length client then hd client else gen) (account name m)
    else account name m)"
  by (simp add: record_report_update account_update)

text \<open>
  After any sequence of reports the account of a model holds the number of its reports and the sums
  of its tokens and durations, all modulo \<open>2^64\<close>.
\<close>

definition sum_for :: "bytes \<Rightarrow> (stream_report \<Rightarrow> int) \<Rightarrow> stream_report list \<Rightarrow> int" where
  "sum_for name f rs = sum_list (map f (filter (\<lambda>r. report_model r = name) rs))"

lemma report_decode_tuple [simp]: "report_decode (model, t, rest) = (if 1 < t then t - 1 else t)"
  by (simp add: report_decode_def)

lemma account_folded:
  "ma_requests (account name (fold record_report rs m)) =
     (if \<exists>r \<in> set rs. report_model r = name
      then wrap64 (ma_requests (account name m) + sum_for name (\<lambda>r. 1) rs) else ma_requests (account name m))"
  "ma_totalTokens (account name (fold record_report rs m)) =
     (if \<exists>r \<in> set rs. report_model r = name
      then wrap64 (ma_totalTokens (account name m) + sum_for name (\<lambda>r. fst (snd r)) rs)
      else ma_totalTokens (account name m))"
  "ma_decodeTokens (account name (fold record_report rs m)) =
     (if \<exists>r \<in> set rs. report_model r = name
      then wrap64 (ma_decodeTokens (account name m) + sum_for name report_decode rs)
      else ma_decodeTokens (account name m))"
  "ma_totalTTFTNs (account name (fold record_report rs m)) =
     (if \<exists>r \<in> set rs. report_model r = name
      then wrap64 (ma_totalTTFTNs (account name m) + sum_for name (\<lambda>r. fst (snd (snd r))) rs)
      else ma_totalTTFTNs (account name m))"
proof (induction rs arbitrary: m)
  case Nil
  { case 1 show ?case by simp next case 2 show ?case by simp
  next case 3 show ?case by simp next case 4 show ?case by simp }
next
  case (Cons r rs)
  obtain model tokens ttft gen client where r: "r = (model, tokens, ttft, gen, client)" by (cases r) auto
  note simps = r account_report record_accumulator_def sum_for_def wrap64_add add.assoc
  { case 1 show ?case using Cons.IH(1) [of "record_report r m"] by (auto simp: simps)
  next case 2 show ?case using Cons.IH(2) [of "record_report r m"] by (auto simp: simps)
  next case 3 show ?case using Cons.IH(3) [of "record_report r m"]
      by (auto simp: simps)
  next case 4 show ?case using Cons.IH(4) [of "record_report r m"] by (auto simp: simps) }
qed

section \<open>Properties\<close>

text \<open>
  The high-water mark is right under interference.  Whatever the interleaving of concurrent
  \<open>SetPendingBytes\<close> calls, the maximum never falls, every value whose call has returned is at most the
  maximum, and the maximum is its first value or one of the arguments.
\<close>
theorem SetPendingBytes_concurrent:
  assumes "set_step\<^sup>*\<^sup>* (set_init ns m) (m', ps)"
  shows "PendingBytesMax m \<le> PendingBytesMax m' \<and> PendingBytesMax m' \<in> insert (PendingBytesMax m) (set ns)
    \<and> list_all (\<lambda>p. case p of SetDone n \<Rightarrow> n \<le> PendingBytesMax m' | _ \<Rightarrow> True) ps"
  using set_inv_reachable [OF assms] by (auto simp: set_inv_def list_all_iff split: set_pc.splits)

text \<open>
  C37: the per-model account.  After any sequence of \<open>RecordModelMetrics\<close> calls on a fresh
  \<open>StreamMetrics\<close>, the account of a model holds the number of its reports and the sums of its tokens,
  decode tokens and times to first token, as 64-bit integers.
\<close>
theorem RecordModelMetrics_accounts:
  "ma_requests (account name (fold record_report rs zero_metrics)) = wrap64 (sum_for name (\<lambda>r. 1) rs)
   \<and> ma_totalTokens (account name (fold record_report rs zero_metrics)) = wrap64 (sum_for name (\<lambda>r. fst (snd r)) rs)
   \<and> ma_decodeTokens (account name (fold record_report rs zero_metrics)) = wrap64 (sum_for name report_decode rs)
   \<and> ma_totalTTFTNs (account name (fold record_report rs zero_metrics)) = wrap64 (sum_for name (\<lambda>r. fst (snd (snd r))) rs)"
proof -
  have z: "account name zero_metrics = zero_accumulator" by (simp add: account_def zero_metrics_def)
  have none: "sum_for name f rs = 0" if "\<not> (\<exists>r \<in> set rs. report_model r = name)" for f
  proof -
    have "filter (\<lambda>r. report_model r = name) rs = []" using that by (simp add: filter_empty_conv)
    then show ?thesis by (simp add: sum_for_def)
  qed
  show ?thesis by (auto simp: account_folded z zero_accumulator_def none)
qed

theorem SetPendingBytes_concurrent_witness:
  "PendingBytesMax zero_metrics \<le> PendingBytesMax zero_metrics
    \<and> PendingBytesMax zero_metrics \<in> insert (PendingBytesMax zero_metrics) (set [7, 3])
    \<and> list_all (\<lambda>p. case p of SetDone n \<Rightarrow> n \<le> PendingBytesMax zero_metrics | _ \<Rightarrow> True) [SetStore 7, SetStore 3]"
  by (rule SetPendingBytes_concurrent) (simp add: set_init_def)

end
