(* ===== verification/Buffer.thy ===== *)
theory Buffer
  imports Segment_View Metrics Bufio
begin

text \<open>
  \<open>pkg/aggregator/buffer.go\<close>: the pending buffer between the goroutine that reads the upstream and
  the one that writes to the client.  Every method holds the mutex except where it waits, so a method
  is a sequence of atomic sections: \<open>Append_start\<close> and \<open>Append_resume\<close> are what \<open>Append\<close> does
  from entry or wake-up to its return or its next wait; \<open>Swap_start\<close> and \<open>Swap_take\<close> are
  \<open>Swap\<close> before and after its timed wait.  A section either parks the goroutine on its condition
  variable or returns.  The wake-ups it issues (\<open>Signal\<close>, \<open>Broadcast\<close>) are part of its result.

  \<open>barrierWake\<close> is a channel: an index into the list of channels made so far, with a flag for each
  that is set when the channel is closed.  Closing a closed channel would panic.
\<close>

datatype err = ErrBufferClosed | ErrContext bytes | ErrRead io_error | ErrWrite bytes

record buffer_config =
  HighWatermark :: int
  LowWatermark :: int
  MinCoalesceWait :: int

definition DefaultBufferConfig :: buffer_config where
  "DefaultBufferConfig = \<lparr>HighWatermark = 32 * 1024 * 1024, LowWatermark = 24 * 1024 * 1024,
     MinCoalesceWait = 0\<rparr>"

record pending_buffer =
  pb_channels :: "bool list"
  pb_barrierWake :: nat
  pb_hasBarrier :: bool
  pb_firstEmission :: bool
  pb_segments :: "segment list"
  pb_currentBytes :: int
  pb_highWatermark :: int
  pb_lowWatermark :: int
  pb_minCoalesceWait :: int
  pb_closed :: bool
  pb_upstreamErr :: "err option"
  pb_metrics :: "stream_metrics option"

text \<open>Division truncates towards zero; the product is an int64 and wraps.\<close>

definition quot :: "int \<Rightarrow> int \<Rightarrow> int" where
  "quot a b = (if (a < 0) = (b < 0) then \<bar>a\<bar> div \<bar>b\<bar> else - (\<bar>a\<bar> div \<bar>b\<bar>))"

definition NewPendingBuffer :: "buffer_config \<Rightarrow> stream_metrics option \<Rightarrow> pending_buffer" where
  "NewPendingBuffer cfg m =
     (let cfg = (if HighWatermark cfg \<le> 0 then cfg\<lparr>HighWatermark := 32 * 1024 * 1024\<rparr> else cfg);
          cfg = (if LowWatermark cfg \<le> 0 \<or> HighWatermark cfg \<le> LowWatermark cfg
                 then cfg\<lparr>LowWatermark := quot (wrap64 (HighWatermark cfg * 3)) 4\<rparr> else cfg)
      in \<lparr>pb_channels = [False], pb_barrierWake = 0, pb_hasBarrier = False, pb_firstEmission = True,
          pb_segments = [], pb_currentBytes = 0, pb_highWatermark = HighWatermark cfg,
          pb_lowWatermark = LowWatermark cfg, pb_minCoalesceWait = MinCoalesceWait cfg,
          pb_closed = False, pb_upstreamErr = None, pb_metrics = m\<rparr>)"

section \<open>Barriers\<close>

definition isCoalesceableSegment :: "segment \<Rightarrow> bool" where
  "isCoalesceableSegment seg =
     (case seg_Type seg of EventReasoning \<Rightarrow> True | EventContent \<Rightarrow> True | EventToolCall \<Rightarrow> True
      | _ \<Rightarrow> False)"

definition notifyBarrierLocked :: "pending_buffer \<Rightarrow> pending_buffer" where
  "notifyBarrierLocked b =
     (if \<not> pb_hasBarrier b
      then b\<lparr>pb_hasBarrier := True, pb_channels := (pb_channels b)[pb_barrierWake b := True]\<rparr>
      else b)"

definition resetBarrierLocked :: "pending_buffer \<Rightarrow> pending_buffer" where
  "resetBarrierLocked b =
     (if pb_hasBarrier b
      then b\<lparr>pb_hasBarrier := False, pb_barrierWake := length (pb_channels b),
             pb_channels := pb_channels b @ [False]\<rparr>
      else b)"

definition with_metrics :: "(stream_metrics \<Rightarrow> stream_metrics) \<Rightarrow> pending_buffer \<Rightarrow> pending_buffer" where
  "with_metrics f b = b\<lparr>pb_metrics := map_option f (pb_metrics b)\<rparr>"

section \<open>Append\<close>

text \<open>
  What a section of \<open>Append\<close> ends in: a wait on \<open>belowHighWater\<close>, a return (with the error, and
  whether \<open>notEmpty\<close> was signalled), or the panic of a nil dereference inside \<open>Merge\<close>.
\<close>

datatype append_result = AppendWait | AppendReturn pending_buffer "err option" bool | AppendPanic

definition Append_body :: "pending_buffer \<Rightarrow> segment \<Rightarrow> append_result" where
  "Append_body b seg =
     (let appendedBytes = BytesLen seg;
          push_new = (\<lambda>b.
            let b = (if \<not> isCoalesceableSegment seg then notifyBarrierLocked b else b);
                b = b\<lparr>pb_segments := pb_segments b @ [seg]\<rparr>;
                b = b\<lparr>pb_currentBytes := pb_currentBytes b + appendedBytes\<rparr>;
                b = with_metrics (SetPendingBytes (pb_currentBytes b)) b
            in AppendReturn b None True)
      in if 0 < length (pb_segments b)
         then (let last = last (pb_segments b)
               in if CanMerge last seg
                  then (case Merge last seg of
                          None \<Rightarrow> AppendPanic
                        | Some (_, last') \<Rightarrow>
                            let diff = BytesLen last' - BytesLen last;
                                b = b\<lparr>pb_segments := butlast (pb_segments b) @ [last']\<rparr>;
                                b = (if 0 < diff then b\<lparr>pb_currentBytes := pb_currentBytes b + diff\<rparr> else b);
                                b = with_metrics (SetPendingBytes (pb_currentBytes b)) b
                            in AppendReturn b None True)
                  else push_new (notifyBarrierLocked b))
         else push_new b)"

definition Append_must_wait :: "pending_buffer \<Rightarrow> err option \<Rightarrow> bool" where
  "Append_must_wait b ctx \<longleftrightarrow> pb_lowWatermark b \<le> pb_currentBytes b \<and> \<not> pb_closed b \<and> ctx = None"

text \<open>
  The wait loop, entered or resumed after \<open>d\<close> nanoseconds of waiting.  \<open>ctx\<close> is what
  \<open>ctx.Err()\<close> returns when it is last called: once it is an error it stays one, so the earlier calls
  can only have let the loop go on.
\<close>

definition Append_resume :: "int \<Rightarrow> pending_buffer \<Rightarrow> err option \<Rightarrow> segment \<Rightarrow> append_result" where
  "Append_resume d b ctx seg =
     (if Append_must_wait b ctx then AppendWait
      else (let b = with_metrics (AddReaderPause d) b
            in if ctx \<noteq> None then AppendReturn b ctx False
               else if pb_closed b then AppendReturn b (Some ErrBufferClosed) False
               else Append_body b seg))"

definition Append_start :: "int \<Rightarrow> pending_buffer \<Rightarrow> err option \<Rightarrow> segment \<Rightarrow> append_result" where
  "Append_start d b ctx seg =
     (if pb_closed b then AppendReturn b (Some ErrBufferClosed) False
      else if pb_highWatermark b \<le> pb_currentBytes b then Append_resume d b ctx seg
      else Append_body b seg)"

section \<open>Swap\<close>

text \<open>
  What a section of \<open>Swap\<close> ends in: a wait on \<open>notEmpty\<close>, a timed wait on a channel, or a return
  of the snapshot, the closed flag and the error (with whether \<open>belowHighWater\<close> was broadcast).
\<close>

datatype swap_result =
    SwapWait
  | SwapTimed nat
  | SwapReturn pending_buffer "segment list" bool "err option" bool

definition Swap_must_wait :: "pending_buffer \<Rightarrow> err option \<Rightarrow> bool" where
  "Swap_must_wait b ctx \<longleftrightarrow>
     length (pb_segments b) = 0 \<and> \<not> pb_closed b \<and> pb_upstreamErr b = None \<and> ctx = None"

definition Swap_should_wait :: "pending_buffer \<Rightarrow> bool" where
  "Swap_should_wait b \<longleftrightarrow> 0 < pb_minCoalesceWait b \<and> \<not> pb_firstEmission b \<and> \<not> pb_hasBarrier b
     \<and> \<not> pb_closed b \<and> pb_upstreamErr b = None"

definition Swap_take :: "pending_buffer \<Rightarrow> err option \<Rightarrow> swap_result" where
  "Swap_take b ctx =
     (if ctx \<noteq> None \<and> length (pb_segments b) = 0 then SwapReturn b [] (pb_closed b) ctx False
      else (let snapshot = pb_segments b;
                b = b\<lparr>pb_firstEmission := False, pb_segments := [], pb_currentBytes := 0\<rparr>;
                b = resetBarrierLocked b;
                b = with_metrics (SetPendingBytes 0) b
            in SwapReturn b snapshot (pb_closed b) (pb_upstreamErr b) True))"

definition Swap_start :: "pending_buffer \<Rightarrow> err option \<Rightarrow> swap_result" where
  "Swap_start b ctx =
     (if Swap_must_wait b ctx then SwapWait
      else if ctx \<noteq> None then SwapReturn b [] (pb_closed b) ctx False
      else if length (pb_segments b) = 0 then SwapReturn b [] (pb_closed b) (pb_upstreamErr b) False
      else if Swap_should_wait b then SwapTimed (pb_barrierWake b)
      else Swap_take b ctx)"

section \<open>Close, Len, CurrentBytes\<close>

text \<open>The flag: whether both condition variables were broadcast.\<close>

definition Close :: "pending_buffer \<Rightarrow> err option \<Rightarrow> pending_buffer \<times> bool" where
  "Close b e =
     (if pb_closed b then (b, False)
      else (notifyBarrierLocked (b\<lparr>pb_closed := True, pb_upstreamErr := e\<rparr>), True))"

definition Len :: "pending_buffer \<Rightarrow> nat" where
  "Len b = length (pb_segments b)"

definition CurrentBytes :: "pending_buffer \<Rightarrow> int" where
  "CurrentBytes b = pb_currentBytes b"

section \<open>Frame rules\<close>

lemma with_metrics_simps [buffer_simps]:
  "pb_channels (with_metrics f b) = pb_channels b" "pb_barrierWake (with_metrics f b) = pb_barrierWake b"
  "pb_hasBarrier (with_metrics f b) = pb_hasBarrier b" "pb_firstEmission (with_metrics f b) = pb_firstEmission b"
  "pb_segments (with_metrics f b) = pb_segments b" "pb_currentBytes (with_metrics f b) = pb_currentBytes b"
  "pb_highWatermark (with_metrics f b) = pb_highWatermark b" "pb_lowWatermark (with_metrics f b) = pb_lowWatermark b"
  "pb_minCoalesceWait (with_metrics f b) = pb_minCoalesceWait b" "pb_closed (with_metrics f b) = pb_closed b"
  "pb_upstreamErr (with_metrics f b) = pb_upstreamErr b" "pb_metrics (with_metrics f b) = map_option f (pb_metrics b)"
  by (simp_all add: with_metrics_def)

lemma notify_simps [buffer_simps]:
  "pb_barrierWake (notifyBarrierLocked b) = pb_barrierWake b" "pb_hasBarrier (notifyBarrierLocked b) = True"
  "pb_firstEmission (notifyBarrierLocked b) = pb_firstEmission b"
  "pb_segments (notifyBarrierLocked b) = pb_segments b" "pb_currentBytes (notifyBarrierLocked b) = pb_currentBytes b"
  "pb_highWatermark (notifyBarrierLocked b) = pb_highWatermark b"
  "pb_lowWatermark (notifyBarrierLocked b) = pb_lowWatermark b"
  "pb_minCoalesceWait (notifyBarrierLocked b) = pb_minCoalesceWait b"
  "pb_closed (notifyBarrierLocked b) = pb_closed b" "pb_upstreamErr (notifyBarrierLocked b) = pb_upstreamErr b"
  "pb_metrics (notifyBarrierLocked b) = pb_metrics b"
  "length (pb_channels (notifyBarrierLocked b)) = length (pb_channels b)"
  by (simp_all add: notifyBarrierLocked_def)

lemma reset_simps [buffer_simps]:
  "pb_hasBarrier (resetBarrierLocked b) = False" "pb_firstEmission (resetBarrierLocked b) = pb_firstEmission b"
  "pb_segments (resetBarrierLocked b) = pb_segments b" "pb_currentBytes (resetBarrierLocked b) = pb_currentBytes b"
  "pb_highWatermark (resetBarrierLocked b) = pb_highWatermark b"
  "pb_lowWatermark (resetBarrierLocked b) = pb_lowWatermark b"
  "pb_minCoalesceWait (resetBarrierLocked b) = pb_minCoalesceWait b"
  "pb_closed (resetBarrierLocked b) = pb_closed b" "pb_upstreamErr (resetBarrierLocked b) = pb_upstreamErr b"
  "pb_metrics (resetBarrierLocked b) = pb_metrics b"
  by (simp_all add: resetBarrierLocked_def)

section \<open>The buffer's invariant\<close>

definition barrier_ok :: "pending_buffer \<Rightarrow> bool" where
  "barrier_ok b \<longleftrightarrow> pb_barrierWake b < length (pb_channels b)
     \<and> pb_channels b ! pb_barrierWake b = pb_hasBarrier b"

definition queue_ok :: "pending_buffer \<Rightarrow> bool" where
  "queue_ok b \<longleftrightarrow> list_all segment_ok (pb_segments b) \<and> coalesced CanMerge (pb_segments b)
     \<and> pb_currentBytes b = sum_list (map BytesLen (pb_segments b))"

text \<open>
  A barrier is due when a writer has no reason to wait for more: two segments are queued, or one is
  queued that is not coalesceable.  The flag says so exactly until the buffer is closed, which raises
  it too.
\<close>

definition barrier_due :: "pending_buffer \<Rightarrow> bool" where
  "barrier_due b \<longleftrightarrow> 1 < length (pb_segments b) \<or> (\<exists>s \<in> set (pb_segments b). \<not> isCoalesceableSegment s)"

definition buffer_ok :: "pending_buffer \<Rightarrow> bool" where
  "buffer_ok b \<longleftrightarrow> queue_ok b \<and> barrier_ok b
     \<and> (barrier_due b \<longrightarrow> pb_hasBarrier b) \<and> (pb_hasBarrier b \<longrightarrow> barrier_due b \<or> pb_closed b)
     \<and> (pb_upstreamErr b \<noteq> None \<longrightarrow> pb_closed b)"

lemma barrier_ok_notify: "barrier_ok b \<Longrightarrow> barrier_ok (notifyBarrierLocked b)"
  by (auto simp: barrier_ok_def notifyBarrierLocked_def)

lemma barrier_ok_reset: "barrier_ok b \<Longrightarrow> barrier_ok (resetBarrierLocked b)"
  by (auto simp: barrier_ok_def resetBarrierLocked_def)

lemma Merge_merged: "CanMerge s n \<Longrightarrow> Merge s n = map_option (Pair True) (merged s n)"
  by (simp add: Merge_def)

text \<open>What a section of \<open>Append\<close> or \<open>Close\<close> leaves alone.\<close>

definition same_config :: "pending_buffer \<Rightarrow> pending_buffer \<Rightarrow> bool" where
  "same_config b b' \<longleftrightarrow> pb_highWatermark b' = pb_highWatermark b \<and> pb_lowWatermark b' = pb_lowWatermark b
     \<and> pb_minCoalesceWait b' = pb_minCoalesceWait b"

text \<open>\<open>Append_body\<close> on the queue is \<open>push\<close>, and its byte count follows.\<close>

definition appended :: "pending_buffer \<Rightarrow> segment \<Rightarrow> pending_buffer \<Rightarrow> bool" where
  "appended b seg b' \<longleftrightarrow> push CanMerge merged (pb_segments b) seg = Some (pb_segments b')
     \<and> pb_currentBytes b' = sum_list (map BytesLen (pb_segments b')) \<and> same_config b b'
     \<and> pb_firstEmission b' = pb_firstEmission b \<and> pb_closed b' = pb_closed b
     \<and> pb_upstreamErr b' = pb_upstreamErr b \<and> pb_barrierWake b' = pb_barrierWake b
     \<and> (pb_hasBarrier b' \<longleftrightarrow> pb_hasBarrier b
          \<or> \<not> (0 < length (pb_segments b) \<and> CanMerge (last (pb_segments b)) seg)
             \<and> (0 < length (pb_segments b) \<or> \<not> isCoalesceableSegment seg))
     \<and> barrier_ok b' \<and> length (pb_channels b') = length (pb_channels b)
     \<and> (\<forall>k. k \<noteq> pb_barrierWake b \<longrightarrow> pb_channels b' ! k = pb_channels b ! k)
     \<and> pb_metrics b' = map_option (SetPendingBytes (pb_currentBytes b')) (pb_metrics b)"

lemma Append_body_spec:
  assumes "queue_ok b" "barrier_ok b" "segment_ok seg"
  shows "\<exists>b'. Append_body b seg = AppendReturn b' None True \<and> appended b seg b'"
proof (cases "0 < length (pb_segments b) \<and> CanMerge (last (pb_segments b)) seg")
  case True
  let ?l = "last (pb_segments b)"
  have ok: "segment_ok ?l" using True assms(1) by (auto simp: queue_ok_def list_all_iff)
  then obtain l' where l': "merged ?l seg = Some l'" using merged_Some [OF ok assms(3)] True by blast
  have ge: "BytesLen ?l \<le> BytesLen l'" using merged_BytesLen [OF ok assms(3) _ l'] True by blast
  have sum: "sum_list (map BytesLen (pb_segments b)) =
      sum_list (map BytesLen (butlast (pb_segments b))) + BytesLen ?l"
    using True sum_list_butlast_last [of "pb_segments b" BytesLen] by simp
  have bytes: "pb_currentBytes b = sum_list (map BytesLen (pb_segments b))"
    using assms(1) by (simp add: queue_ok_def)
  have M: "Merge ?l seg = Some (True, l')" using True l' by (simp add: Merge_def)
  let ?b = "b\<lparr>pb_segments := butlast (pb_segments b) @ [l'],
              pb_currentBytes := pb_currentBytes b + (BytesLen l' - BytesLen ?l)\<rparr>"
  let ?b' = "with_metrics (SetPendingBytes (pb_currentBytes ?b)) ?b"
  have "Append_body b seg = AppendReturn ?b' None True"
    using True M ge by (simp add: Append_body_def Let_def)
  moreover have "appended b seg ?b'"
    using True l' assms(2) by (simp add: appended_def push_def same_config_def buffer_simps sum bytes barrier_ok_def)
  ultimately show ?thesis by blast
next
  case False
  let ?n1 = "if 0 < length (pb_segments b) then notifyBarrierLocked b else b"
  let ?n2 = "if \<not> isCoalesceableSegment seg then notifyBarrierLocked ?n1 else ?n1"
  let ?b = "?n2\<lparr>pb_segments := pb_segments b @ [seg], pb_currentBytes := pb_currentBytes b + BytesLen seg\<rparr>"
  let ?b' = "with_metrics (SetPendingBytes (pb_currentBytes b + BytesLen seg)) ?b"
  have ok: "barrier_ok ?n2" using assms(2) by (simp add: barrier_ok_notify)
  have bytes: "pb_currentBytes b = sum_list (map BytesLen (pb_segments b))"
    using assms(1) by (simp add: queue_ok_def)
  have "Append_body b seg = AppendReturn ?b' None True"
    using False by (auto simp: Append_body_def Let_def buffer_simps)
  moreover have "appended b seg ?b'"
    using False ok unfolding appended_def
    by (auto simp: push_def same_config_def buffer_simps bytes barrier_ok_def notifyBarrierLocked_def)
  ultimately show ?thesis by blast
qed

lemma Append_body_ok:
  assumes "buffer_ok b" "segment_ok seg"
  obtains b' where "Append_body b seg = AppendReturn b' None True" "appended b seg b'"
proof -
  have "queue_ok b" "barrier_ok b" using assms(1) by (simp_all add: buffer_ok_def)
  from Append_body_spec [OF this assms(2)] that show thesis by blast
qed

section \<open>Every section keeps the invariant\<close>

lemma buffer_ok_New: "buffer_ok (NewPendingBuffer cfg m)"
  by (simp add: NewPendingBuffer_def Let_def buffer_ok_def queue_ok_def barrier_ok_def barrier_due_def)

lemma isCoalesceable_merged: "merged s n = Some s' \<Longrightarrow> isCoalesceableSegment s' = isCoalesceableSegment s"
  by (simp add: isCoalesceableSegment_def merged_Type)

lemma barrier_due_push:
  assumes "push CanMerge merged (pb_segments b) seg = Some (pb_segments b')"
  shows "barrier_due b' \<longleftrightarrow> barrier_due b
          \<or> \<not> (0 < length (pb_segments b) \<and> CanMerge (last (pb_segments b)) seg)
             \<and> (0 < length (pb_segments b) \<or> \<not> isCoalesceableSegment seg)"
proof (cases "0 < length (pb_segments b) \<and> CanMerge (last (pb_segments b)) seg")
  case True
  then obtain zs l where zs: "pb_segments b = zs @ [l]" by (metis length_greater_0_conv rev_exhaust)
  with True assms obtain l' where l': "merged l seg = Some l'" "pb_segments b' = zs @ [l']"
    by (auto simp: push_def)
  with True zs show ?thesis by (simp add: barrier_due_def isCoalesceable_merged)
next
  case False
  with assms have "pb_segments b' = pb_segments b @ [seg]" by (auto simp: push_def)
  with False show ?thesis by (auto simp: barrier_due_def)
qed

lemma appended_ok:
  assumes "appended b seg b'" "buffer_ok b" "segment_ok seg"
  shows "buffer_ok b'"
proof -
  have p: "push CanMerge merged (pb_segments b) seg = Some (pb_segments b')"
    and q: "queue_ok b" using assms by (auto simp: appended_def buffer_ok_def)
  have l: "list_all segment_ok (pb_segments b)" and c: "coalesced CanMerge (pb_segments b)"
    using q by (auto simp: queue_ok_def)
  have "queue_ok b'"
    using seg.push_ok [OF p l assms(3)] seg.push_coalesced [OF p l assms(3) c] assms(1)
    by (simp add: queue_ok_def appended_def)
  moreover have "barrier_due b' \<longleftrightarrow> barrier_due b
      \<or> \<not> (0 < length (pb_segments b) \<and> CanMerge (last (pb_segments b)) seg)
         \<and> (0 < length (pb_segments b) \<or> \<not> isCoalesceableSegment seg)"
    by (rule barrier_due_push [OF p])
  ultimately show ?thesis using assms(1,2) by (auto simp: buffer_ok_def appended_def)
qed

lemma appended_bytes:
  assumes "appended b seg b'" "buffer_ok b" "segment_ok seg"
  shows "pb_currentBytes b \<le> pb_currentBytes b' \<and> pb_currentBytes b' \<le> pb_currentBytes b + BytesLen seg"
  using seg.push_total [of "pb_segments b" seg "pb_segments b'"] assms
  by (simp add: appended_def buffer_ok_def queue_ok_def seg.total_def)

text \<open>What \<open>with_metrics\<close> changes is no part of the invariant.\<close>

lemma with_metrics_ok [simp]: "buffer_ok (with_metrics f b) = buffer_ok b"
  by (simp add: buffer_ok_def queue_ok_def barrier_ok_def barrier_due_def buffer_simps)

lemma with_metrics_props [simp]:
  "queue_ok (with_metrics f b) = queue_ok b" "barrier_ok (with_metrics f b) = barrier_ok b"
  "barrier_due (with_metrics f b) = barrier_due b" "same_config b (with_metrics f b)"
  by (simp_all add: queue_ok_def barrier_ok_def barrier_due_def same_config_def buffer_simps)

text \<open>
  The three ways a section of \<open>Append\<close> ends: it waits for room, it gives up with an error and leaves
  the queue alone, or it queues the segment below a watermark.
\<close>

lemma Append_start_cases:
  assumes "buffer_ok b" "segment_ok seg"
  obtains (waits) "Append_start d b ctx seg = AppendWait" "pb_highWatermark b \<le> pb_currentBytes b"
      "Append_must_wait b ctx"
  | (fails) b' e f where "Append_start d b ctx seg = AppendReturn b' (Some e) False" "b' = with_metrics f b"
      "pb_closed b \<and> e = ErrBufferClosed \<or> ctx = Some e"
  | (queues) b0 b' f where "Append_start d b ctx seg = AppendReturn b' None True" "b0 = with_metrics f b"
      "appended b0 seg b'" "\<not> pb_closed b"
      "pb_currentBytes b < pb_highWatermark b \<or> pb_currentBytes b < pb_lowWatermark b"
proof -
  have idm: "with_metrics id b = b" by (simp add: with_metrics_def option.map_id)
  consider "pb_closed b" | "\<not> pb_closed b" "pb_currentBytes b < pb_highWatermark b"
    | "\<not> pb_closed b" "pb_highWatermark b \<le> pb_currentBytes b" by linarith
  then show thesis
  proof cases
    case 1
    with fails [of b ErrBufferClosed id] show thesis by (simp add: Append_start_def idm)
  next
    case 2
    obtain b' where "Append_body b seg = AppendReturn b' None True" "appended b seg b'"
      using assms by (rule Append_body_ok)
    with 2 queues [of b' b id] show thesis by (simp add: Append_start_def idm)
  next
    case 3
    show thesis
    proof (cases "Append_must_wait b ctx")
      case True
      with 3 waits show thesis by (simp add: Append_start_def Append_resume_def)
    next
      case nw: False
      let ?b = "with_metrics (AddReaderPause d) b"
      show thesis
      proof (cases ctx)
        case (Some e)
        with 3 nw fails [of ?b e "AddReaderPause d"] show thesis
          by (simp add: Append_start_def Append_resume_def Let_def)
      next
        case None
        obtain b' where "Append_body ?b seg = AppendReturn b' None True" "appended ?b seg b'"
          using assms by (elim Append_body_ok [of ?b seg, rotated]) simp_all
        with 3 nw None queues [of b' ?b "AddReaderPause d"] show thesis
          by (simp add: Append_start_def Append_resume_def Append_must_wait_def Let_def buffer_simps)
      qed
    qed
  qed
qed

lemma Append_resume_cases:
  assumes "buffer_ok b" "segment_ok seg"
  obtains (waits) "Append_resume d b ctx seg = AppendWait" "Append_must_wait b ctx"
  | (fails) b' e f where "Append_resume d b ctx seg = AppendReturn b' (Some e) False" "b' = with_metrics f b"
      "pb_closed b \<and> e = ErrBufferClosed \<or> ctx = Some e"
  | (queues) b0 b' f where "Append_resume d b ctx seg = AppendReturn b' None True" "b0 = with_metrics f b"
      "appended b0 seg b'" "\<not> pb_closed b" "pb_currentBytes b < pb_lowWatermark b"
proof (cases "Append_must_wait b ctx")
  case True
  with waits show thesis by (simp add: Append_resume_def)
next
  case nw: False
  let ?b = "with_metrics (AddReaderPause d) b"
  show thesis
  proof (cases ctx)
    case (Some e)
    with nw fails [of ?b e "AddReaderPause d"] show thesis by (simp add: Append_resume_def Let_def)
  next
    case None
    show thesis
    proof (cases "pb_closed b")
      case True
      with None nw fails [of ?b ErrBufferClosed "AddReaderPause d"] show thesis
        by (simp add: Append_resume_def Let_def buffer_simps)
    next
      case False
      obtain b' where "Append_body ?b seg = AppendReturn b' None True" "appended ?b seg b'"
        using assms by (elim Append_body_ok [of ?b seg, rotated]) simp_all
      with nw None False queues [of b' ?b "AddReaderPause d"] show thesis
        by (simp add: Append_resume_def Append_must_wait_def Let_def buffer_simps)
    qed
  qed
qed

text \<open>\<open>Swap_take\<close> empties the queue into the snapshot.\<close>

lemma Swap_take_cases:
  assumes "buffer_ok b"
  obtains (gives_up) e where "ctx = Some e" "pb_segments b = []"
      "Swap_take b ctx = SwapReturn b [] (pb_closed b) (Some e) False"
  | (takes) b' where "Swap_take b ctx = SwapReturn b' (pb_segments b) (pb_closed b) (pb_upstreamErr b) True"
      "pb_segments b' = []" "pb_currentBytes b' = 0" "buffer_ok b'" "same_config b b'"
      "pb_closed b' = pb_closed b" "pb_upstreamErr b' = pb_upstreamErr b" "\<not> pb_hasBarrier b'"
proof (cases "ctx \<noteq> None \<and> pb_segments b = []")
  case True
  with gives_up show thesis by (auto simp: Swap_take_def)
next
  case False
  let ?b1 = "b\<lparr>pb_firstEmission := False, pb_segments := [], pb_currentBytes := 0\<rparr>"
  let ?b = "with_metrics (SetPendingBytes 0) (resetBarrierLocked ?b1)"
  have "barrier_ok ?b1" using assms by (simp add: buffer_ok_def barrier_ok_def)
  then have "barrier_ok (resetBarrierLocked ?b1)" by (rule barrier_ok_reset)
  then have "buffer_ok ?b"
    using assms by (auto simp: buffer_ok_def queue_ok_def barrier_due_def buffer_simps)
  with False takes [of ?b] show thesis
    by (auto simp: Swap_take_def Let_def buffer_simps same_config_def)
qed

lemma buffer_ok_Close:
  assumes "buffer_ok b"
  shows "buffer_ok (fst (Close b e))"
proof (cases "pb_closed b")
  case False
  let ?b = "b\<lparr>pb_closed := True, pb_upstreamErr := e\<rparr>"
  have "barrier_ok ?b" using assms by (simp add: buffer_ok_def barrier_ok_def)
  then have "barrier_ok (notifyBarrierLocked ?b)" by (rule barrier_ok_notify)
  with False assms show ?thesis
    by (auto simp: Close_def buffer_ok_def queue_ok_def barrier_due_def buffer_simps)
qed (use assms in \<open>simp add: Close_def\<close>)

lemma Close_props:
  "pb_closed (fst (Close b e))" "pb_segments (fst (Close b e)) = pb_segments b"
  "pb_currentBytes (fst (Close b e)) = pb_currentBytes b" "same_config b (fst (Close b e))"
  "pb_upstreamErr (fst (Close b e)) = (if pb_closed b then pb_upstreamErr b else e)"
  by (auto simp: Close_def buffer_simps same_config_def)

section \<open>Properties\<close>

text \<open>
  The watermarks of a new buffer.  Whatever the configuration, the high watermark is positive; and
  if it is at least 2 and small enough for its triple to be an int64, the low watermark lies strictly
  between 0 and it.
\<close>
theorem NewPendingBuffer_watermarks:
  "0 < pb_highWatermark (NewPendingBuffer cfg m)
   \<and> (2 \<le> pb_highWatermark (NewPendingBuffer cfg m) \<and> 3 * pb_highWatermark (NewPendingBuffer cfg m) < 2 ^ 63
      \<longrightarrow> 0 < pb_lowWatermark (NewPendingBuffer cfg m)
        \<and> pb_lowWatermark (NewPendingBuffer cfg m) < pb_highWatermark (NewPendingBuffer cfg m))"
  by (auto simp: NewPendingBuffer_def Let_def quot_def)

text \<open>
  C34: every operation keeps the buffer's invariant: the byte count is the sum of the queued segments'
  \<open>BytesLen\<close>, no queued segment could be merged into its predecessor, the wake channel is closed exactly
  when a barrier is pending (so it is never closed twice), and a barrier is pending exactly when the
  queue holds a boundary, or the buffer was closed.  No section of \<open>Append\<close> panics.
\<close>
theorem buffer_ok_preserved:
  assumes "buffer_ok b" "segment_ok seg"
  shows "(case Append_start d b ctx seg of AppendWait \<Rightarrow> True | AppendReturn b' e signal \<Rightarrow> buffer_ok b' | AppendPanic \<Rightarrow> False)
    \<and> (case Append_resume d b ctx seg of AppendWait \<Rightarrow> True | AppendReturn b' e signal \<Rightarrow> buffer_ok b' | AppendPanic \<Rightarrow> False)
    \<and> (case Swap_start b ctx of SwapReturn b' snapshot closed e broadcast \<Rightarrow> buffer_ok b' | _ \<Rightarrow> True)
    \<and> (case Swap_take b ctx of SwapReturn b' snapshot closed e broadcast \<Rightarrow> buffer_ok b' | _ \<Rightarrow> True)
    \<and> buffer_ok (fst (Close b e))"
proof -
  have a: "case Append_start d b ctx seg of AppendWait \<Rightarrow> True | AppendReturn b' e signal \<Rightarrow> buffer_ok b' | AppendPanic \<Rightarrow> False"
    using assms by (cases rule: Append_start_cases [where d = d and ctx = ctx])
      (use assms in \<open>auto dest!: appended_ok\<close>)
  have r: "case Append_resume d b ctx seg of AppendWait \<Rightarrow> True | AppendReturn b' e signal \<Rightarrow> buffer_ok b' | AppendPanic \<Rightarrow> False"
    using assms by (cases rule: Append_resume_cases [where d = d and ctx = ctx])
      (use assms in \<open>auto dest!: appended_ok\<close>)
  have t: "case Swap_take b ctx of SwapReturn b' snapshot closed e broadcast \<Rightarrow> buffer_ok b' | _ \<Rightarrow> True"
    using assms(1) by (cases rule: Swap_take_cases [where ctx = ctx]) (use assms(1) in auto)
  then have "case Swap_start b ctx of SwapReturn b' snapshot closed e broadcast \<Rightarrow> buffer_ok b' | _ \<Rightarrow> True"
    using assms(1) by (cases ctx) (simp_all add: Swap_start_def)
  with a r t buffer_ok_Close [OF assms(1)] show ?thesis by blast
qed

text \<open>
  \<open>Append\<close> on every branch.  It fails with \<open>ErrBufferClosed\<close> on a closed buffer; waits when the
  buffer is at the high watermark, still at the low one, and the context is live; fails with the
  context's error when it had to look at it; and otherwise queues or merges the segment, the byte count
  growing by at most the segment's \<open>BytesLen\<close>.
\<close>
theorem Append_start_branches:
  assumes "buffer_ok b" "segment_ok seg"
  shows "if pb_closed b then Append_start d b ctx seg = AppendReturn b (Some ErrBufferClosed) False
    else if pb_highWatermark b \<le> pb_currentBytes b \<and> pb_lowWatermark b \<le> pb_currentBytes b \<and> ctx = None
    then Append_start d b ctx seg = AppendWait
    else if pb_highWatermark b \<le> pb_currentBytes b \<and> ctx \<noteq> None
    then Append_start d b ctx seg = AppendReturn (with_metrics (AddReaderPause d) b) ctx False
    else \<exists>b'. Append_start d b ctx seg = AppendReturn b' None True
      \<and> push CanMerge merged (pb_segments b) seg = Some (pb_segments b')
      \<and> pb_currentBytes b \<le> pb_currentBytes b' \<and> pb_currentBytes b' \<le> pb_currentBytes b + BytesLen seg"
proof -
  have body: "\<exists>b'. Append_body c seg = AppendReturn b' None True
      \<and> push CanMerge merged (pb_segments b) seg = Some (pb_segments b')
      \<and> pb_currentBytes b \<le> pb_currentBytes b' \<and> pb_currentBytes b' \<le> pb_currentBytes b + BytesLen seg"
    if c: "c = b \<or> c = with_metrics (AddReaderPause d) b" for c
  proof -
    have "buffer_ok c" using c assms(1) by auto
    then obtain b' where b': "Append_body c seg = AppendReturn b' None True" "appended c seg b'"
      using assms(2) by (rule Append_body_ok)
    with c appended_bytes [OF b'(2) \<open>buffer_ok c\<close> assms(2)] show ?thesis
      by (auto simp: appended_def buffer_simps)
  qed
  show ?thesis
    using body [of b] body [of "with_metrics (AddReaderPause d) b"]
    by (auto simp: Append_start_def Append_resume_def Append_must_wait_def Let_def buffer_simps)
qed

section \<open>Witnesses\<close>

theorem buffer_ok_preserved_witness:
  "buffer_ok (fst (Close (NewPendingBuffer DefaultBufferConfig None) None))"
  using buffer_ok_preserved [OF buffer_ok_New, of "ToolCall (view_tool ''a'' ''{'')" 0 DefaultBufferConfig None None None]
  by simp

theorem Append_start_branches_witness:
  "\<exists>b'. Append_start 0 (NewPendingBuffer DefaultBufferConfig None) None (ToolCall (view_tool ''a'' ''{''))
      = AppendReturn b' None True
    \<and> push CanMerge merged (pb_segments (NewPendingBuffer DefaultBufferConfig None)) (ToolCall (view_tool ''a'' ''{''))
        = Some (pb_segments b')
    \<and> pb_currentBytes (NewPendingBuffer DefaultBufferConfig None) \<le> pb_currentBytes b'
    \<and> pb_currentBytes b' \<le> pb_currentBytes (NewPendingBuffer DefaultBufferConfig None)
        + BytesLen (ToolCall (view_tool ''a'' ''{''))"
  using Append_start_branches [OF buffer_ok_New, of "ToolCall (view_tool ''a'' ''{'')" DefaultBufferConfig None 0 None]
  by (simp add: NewPendingBuffer_def Let_def DefaultBufferConfig_def)

theorem NewPendingBuffer_watermarks_witness:
  "0 < pb_lowWatermark (NewPendingBuffer \<lparr>HighWatermark = 1000, LowWatermark = 5000, MinCoalesceWait = 0\<rparr> None)
   \<and> pb_lowWatermark (NewPendingBuffer \<lparr>HighWatermark = 1000, LowWatermark = 5000, MinCoalesceWait = 0\<rparr> None) < 1000"
proof -
  have "pb_highWatermark (NewPendingBuffer \<lparr>HighWatermark = 1000, LowWatermark = 5000, MinCoalesceWait = 0\<rparr> None) = 1000"
    by (simp add: NewPendingBuffer_def Let_def)
  with NewPendingBuffer_watermarks [of "\<lparr>HighWatermark = 1000, LowWatermark = 5000, MinCoalesceWait = 0\<rparr>" None]
  show ?thesis by simp
qed

end
