(* ===== verification/Config.thy ===== *)
theory Config
  imports Go_Url Buffer
begin

text \<open>
  \<open>pkg/config/config.go\<close>: the command line.  The flag package of the standard library is modelled with
  it: \<open>parse_args\<close> is \<open>(*FlagSet).Parse\<close> on the flags that \<open>ParseFlags\<close> declares.
\<close>

section \<open>Flags\<close>

record string_slice =
  ss_values :: "bytes list"
  ss_isSet :: bool

definition ss_String :: "string_slice \<Rightarrow> bytes" where
  "ss_String s = join '','' (ss_values s)"

definition ss_Set :: "bytes \<Rightarrow> string_slice \<Rightarrow> string_slice" where
  "ss_Set val s =
     (let s = (if \<not> ss_isSet s then \<lparr>ss_values = [], ss_isSet = True\<rparr> else s)
      in s\<lparr>ss_values := ss_values s @ [val]\<rparr>)"

record flag_values =
  fv_Host :: bytes
  fv_Port :: int
  fv_upstreams :: string_slice
  fv_apiKeys :: string_slice
  fv_MaxBufferMB :: int
  fv_LowWaterMB :: int
  fv_MinCoalesceMs :: int
  fv_EnableMetrics :: bool
  fv_EnableCompression :: bool

definition default_flags :: flag_values where
  "default_flags = \<lparr>fv_Host = ''0.0.0.0'', fv_Port = 8080,
     fv_upstreams = \<lparr>ss_values = [''http://127.0.0.1:8000''], ss_isSet = False\<rparr>,
     fv_apiKeys = \<lparr>ss_values = [], ss_isSet = False\<rparr>,
     fv_MaxBufferMB = 32, fv_LowWaterMB = 24, fv_MinCoalesceMs = 0,
     fv_EnableMetrics = True, fv_EnableCompression = True\<rparr>"

datatype flag_var = FHost | FPort | FUpstreams | FApiKeys | FMaxBufferMB | FLowWaterMB | FMinCoalesceMs
  | FEnableMetrics | FEnableCompression

definition declared_flags :: "(bytes \<times> flag_var) list" where
  "declared_flags =
     [(''host'', FHost), (''port'', FPort), (''upstream'', FUpstreams), (''upstreams'', FUpstreams),
      (''upstream-api-key'', FApiKeys), (''upstream-key'', FApiKeys), (''api-key'', FApiKeys),
      (''max-buffer-mb'', FMaxBufferMB), (''low-water-mb'', FLowWaterMB), (''min-coalesce-ms'', FMinCoalesceMs),
      (''enable-metrics'', FEnableMetrics), (''enable-compression'', FEnableCompression)]"

fun is_bool_flag :: "flag_var \<Rightarrow> bool" where
  "is_bool_flag FEnableMetrics \<longleftrightarrow> True"
| "is_bool_flag FEnableCompression \<longleftrightarrow> True"
| "is_bool_flag _ \<longleftrightarrow> False"

fun set_flag :: "flag_var \<Rightarrow> bytes \<Rightarrow> flag_values \<Rightarrow> flag_values option" where
  "set_flag FHost v fv = Some (fv\<lparr>fv_Host := v\<rparr>)"
| "set_flag FPort v fv = map_option (\<lambda>n. fv\<lparr>fv_Port := n\<rparr>) (ParseInt0 v)"
| "set_flag FUpstreams v fv = Some (fv\<lparr>fv_upstreams := ss_Set v (fv_upstreams fv)\<rparr>)"
| "set_flag FApiKeys v fv = Some (fv\<lparr>fv_apiKeys := ss_Set v (fv_apiKeys fv)\<rparr>)"
| "set_flag FMaxBufferMB v fv = map_option (\<lambda>n. fv\<lparr>fv_MaxBufferMB := n\<rparr>) (ParseInt0 v)"
| "set_flag FLowWaterMB v fv = map_option (\<lambda>n. fv\<lparr>fv_LowWaterMB := n\<rparr>) (ParseInt0 v)"
| "set_flag FMinCoalesceMs v fv = map_option (\<lambda>n. fv\<lparr>fv_MinCoalesceMs := n\<rparr>) (ParseInt0 v)"
| "set_flag FEnableMetrics v fv = map_option (\<lambda>b. fv\<lparr>fv_EnableMetrics := b\<rparr>) (ParseBool v)"
| "set_flag FEnableCompression v fv = map_option (\<lambda>b. fv\<lparr>fv_EnableCompression := b\<rparr>) (ParseBool v)"

datatype config_error = HelpRequested | BadFlags | InvalidUpstreamURL bytes | DuplicateUpstreamName bytes
  | NoValidUpstream | InvalidPort int

text \<open>
  \<open>parseOne\<close> on an argument that is a flag, with the argument after it: whether that one is used up, and
  the new values.  The flags end at the first argument that is none; what follows is left to the program,
  which ignores it.
\<close>

definition is_flag :: "bytes \<Rightarrow> bool" where
  "is_flag s \<longleftrightarrow> 2 \<le> length s \<and> hd s = CHR ''-'' \<and> s \<noteq> ''--''"

definition parse_one :: "bytes \<Rightarrow> bytes option \<Rightarrow> flag_values \<Rightarrow> config_error + bool \<times> flag_values" where
  "parse_one s next_arg fv =
     (let flag = drop (if s ! 1 = CHR ''-'' then 2 else 1) s; (name, value, hasValue) = Cut flag ''='';
          set = (\<lambda>var value used. case set_flag var value fv of Some fv \<Rightarrow> Inr (used, fv) | None \<Rightarrow> Inl BadFlags)
      in if flag = [] \<or> hd flag = CHR ''-'' \<or> hd flag = CHR ''='' then Inl BadFlags
         else (case map_of declared_flags name of
                 None \<Rightarrow> Inl (if name = ''help'' \<or> name = ''h'' then HelpRequested else BadFlags)
               | Some var \<Rightarrow>
                   if hasValue then set var value False
                   else if is_bool_flag var then set var ''true'' False
                   else (case next_arg of None \<Rightarrow> Inl BadFlags | Some value \<Rightarrow> set var value True)))"

fun parse_args :: "bytes list \<Rightarrow> flag_values \<Rightarrow> config_error + flag_values" where
  "parse_args [] fv = Inr fv"
| "parse_args (s # args) fv =
     (if \<not> is_flag s then Inr fv
      else (case parse_one s (case args of [] \<Rightarrow> None | a # _ \<Rightarrow> Some a) fv of
              Inl err \<Rightarrow> Inl err
            | Inr (used, fv) \<Rightarrow> parse_args (if used then drop 1 args else args) fv))"

section \<open>Keys and upstreams\<close>

definition parts_of :: "bytes list \<Rightarrow> bytes list" where
  "parts_of values = filter (\<lambda>p. p \<noteq> []) (map trim_space (concat (map (split_on (CHR '','')) values)))"

definition add_key :: "bytes \<Rightarrow> (bytes \<times> bytes) list \<Rightarrow> (bytes \<times> bytes) list" where
  "add_key part keyMap =
     (case Index part ''='' of
        Some idx \<Rightarrow> AList.update (trim_space (take idx part)) (trim_space (drop (idx + 1) part)) keyMap
      | None \<Rightarrow> AList.update [] part keyMap)"

text \<open>The name of an upstream and its URL text.\<close>

definition split_name :: "bytes \<Rightarrow> bytes \<times> bytes" where
  "split_name part =
     (case Index part ''='' of
        Some idx \<Rightarrow>
          (let candidateName = trim_space (take idx part)
           in if \<not> Contains candidateName ''://'' \<and> \<not> Contains candidateName ''/''
              then (candidateName, trim_space (drop (idx + 1) part))
              else ([], part))
      | None \<Rightarrow> ([], part))"

text \<open>The URL text without the key after its last \<open>@\<close>, and that key.\<close>

definition cut_key :: "bytes \<Rightarrow> bytes \<times> bytes" where
  "cut_key target =
     (case LastIndex target ''@'' of
        Some idx \<Rightarrow>
          (let after = drop (idx + 1) target; front = take idx target
           in if (has_prefix front ''http://'' \<or> has_prefix front ''https://'') \<and> \<not> Contains after ''/''
              then (front, after) else (target, []))
      | None \<Rightarrow> (target, []))"

text \<open>The URL without user and fragment, and the key: the one found before, or the user, or the fragment.\<close>

definition take_user :: "url \<times> bytes \<Rightarrow> url \<times> bytes" where
  "take_user uk =
     (case uk of (u, key) \<Rightarrow>
        (case u_User u of
           None \<Rightarrow> (u, key)
         | Some user \<Rightarrow>
             (u\<lparr>u_User := None\<rparr>,
              if key = []
              then (case user of User name \<Rightarrow> name | UserPassword name password \<Rightarrow> if name = [] then password else name)
              else key)))"

definition take_fragment :: "url \<times> bytes \<Rightarrow> url \<times> bytes" where
  "take_fragment uk =
     (case uk of (u, key) \<Rightarrow>
        if u_Fragment u \<noteq> [] then (u\<lparr>u_Fragment := []\<rparr>, if key = [] then u_Fragment u else key) else (u, key))"

record upstream_config =
  uc_Name :: bytes
  uc_URL :: url
  uc_APIKey :: bytes

definition parse_upstream :: "(bytes \<times> bytes) list \<Rightarrow> bytes \<Rightarrow> config_error + upstream_config" where
  "parse_upstream keyMap part =
     (let (name, target) = split_name part; (target, inlineAPIKey) = cut_key target
      in case Parse target of
           None \<Rightarrow> Inl (InvalidUpstreamURL target)
         | Some u \<Rightarrow>
             if u_Scheme u = [] \<or> u_Host u = [] then Inl (InvalidUpstreamURL target)
             else (let (u, key) = take_fragment (take_user (u, inlineAPIKey));
                       resolvedKey = (case map_of keyMap name of Some k \<Rightarrow> k | None \<Rightarrow> key)
                   in Inr \<lparr>uc_Name = name, uc_URL = u, uc_APIKey = resolvedKey\<rparr>))"

fun parse_upstreams :: "(bytes \<times> bytes) list \<Rightarrow> bytes list \<Rightarrow> upstream_config list \<Rightarrow> config_error + upstream_config list" where
  "parse_upstreams keyMap [] acc = Inr acc"
| "parse_upstreams keyMap (part # parts) acc =
     (case parse_upstream keyMap part of
        Inl err \<Rightarrow> Inl err
      | Inr uc \<Rightarrow>
          if uc_Name uc \<noteq> [] \<and> uc_Name uc \<in> uc_Name ` set acc then Inl (DuplicateUpstreamName (uc_Name uc))
          else parse_upstreams keyMap parts (acc @ [uc]))"

section \<open>ParseFlags\<close>

record config =
  cfg_Host :: bytes
  cfg_Port :: int
  cfg_Upstream :: bytes
  cfg_Upstreams :: "upstream_config list"
  cfg_MaxBufferMB :: int
  cfg_LowWaterMB :: int
  cfg_MinCoalesceMs :: int
  cfg_EnableMetrics :: bool
  cfg_EnableCompression :: bool
  cfg_ParsedUpstream :: url

definition make_config :: "flag_values \<Rightarrow> upstream_config list \<Rightarrow> config_error + config" where
  "make_config fv upstreams =
     (if fv_Port fv \<le> 0 \<or> 65535 < fv_Port fv then Inl (InvalidPort (fv_Port fv))
      else (let maxMB = (if fv_MaxBufferMB fv \<le> 0 then 32 else fv_MaxBufferMB fv);
                low = (if fv_LowWaterMB fv \<le> 0 \<or> maxMB \<le> fv_LowWaterMB fv then quot (wrap64 (maxMB * 3)) 4
                       else fv_LowWaterMB fv)
            in Inr \<lparr>cfg_Host = fv_Host fv, cfg_Port = fv_Port fv, cfg_Upstream = ss_String (fv_upstreams fv),
                    cfg_Upstreams = upstreams, cfg_MaxBufferMB = maxMB, cfg_LowWaterMB = low,
                    cfg_MinCoalesceMs = fv_MinCoalesceMs fv, cfg_EnableMetrics = fv_EnableMetrics fv,
                    cfg_EnableCompression = fv_EnableCompression fv, cfg_ParsedUpstream = uc_URL (hd upstreams)\<rparr>))"

text \<open>The unnamed key goes to a lone upstream without a key.\<close>

definition default_key :: "(bytes \<times> bytes) list \<Rightarrow> upstream_config list \<Rightarrow> upstream_config list" where
  "default_key keyMap upstreams =
     (case (upstreams, map_of keyMap []) of
        ([uc], Some k) \<Rightarrow> if uc_APIKey uc = [] \<and> k \<noteq> [] then [uc\<lparr>uc_APIKey := k\<rparr>] else [uc]
      | _ \<Rightarrow> upstreams)"

definition ParseFlags :: "bytes list \<Rightarrow> config_error + config" where
  "ParseFlags args =
     (case parse_args args default_flags of
        Inl err \<Rightarrow> Inl err
      | Inr fv \<Rightarrow>
          (let keyMap = fold add_key (parts_of (ss_values (fv_apiKeys fv))) []
           in case parse_upstreams keyMap (parts_of (ss_values (fv_upstreams fv))) [] of
                Inl err \<Rightarrow> Inl err
              | Inr upstreams \<Rightarrow>
                  (let upstreams = default_key keyMap upstreams
                   in if upstreams = [] then Inl NoValidUpstream else make_config fv upstreams)))"

definition BufferConfig :: "config \<Rightarrow> buffer_config" where
  "BufferConfig c = \<lparr>HighWatermark = wrap64 (wrap64 (cfg_MaxBufferMB c * 1024) * 1024),
     LowWatermark = wrap64 (wrap64 (cfg_LowWaterMB c * 1024) * 1024),
     MinCoalesceWait = wrap64 (cfg_MinCoalesceMs c * 1000000)\<rparr>"

definition Address :: "config \<Rightarrow> bytes" where
  "Address c = cfg_Host c @ '':'' @ int_digits (cfg_Port c)"

end
