(* ===== verification/Go_Http.thy ===== *)
theory Go_Http
  imports Go_Strconv
begin

text \<open>
  The part of \<open>net/http\<close> the program runs on: headers, and the \<open>ResponseWriter\<close> of the server with its
  one-shot header.  A header is an association list from canonical keys to lists of values.

  The connection to the client is modelled by the number of bytes it still takes: a write beyond it is
  cut short and fails, as do all later ones.  \<open>None\<close> is a connection that never breaks.
\<close>

section \<open>Header\<close>

type_synonym header = "(bytes \<times> bytes list) list"

definition token_char :: "char \<Rightarrow> bool" where
  "token_char c \<longleftrightarrow> is_digit c \<or> lower_in 97 122 c \<or> c \<in> set ''!#$%&*+-.^_`|~'' \<or> byte c = 39"

definition upper_char :: "char \<Rightarrow> char" where
  "upper_char c = (if 97 \<le> byte c \<and> byte c \<le> 122 then chr (byte c - 32) else c)"

fun canon_from :: "bool \<Rightarrow> bytes \<Rightarrow> bytes" where
  "canon_from up [] = []"
| "canon_from up (c # s) = (if up then upper_char c else lower_char c) # canon_from (c = CHR ''-'') s"

text \<open>\<open>CanonicalMIMEHeaderKey\<close>: a key that is no token is left alone.\<close>

definition canonical_key :: "bytes \<Rightarrow> bytes" where
  "canonical_key k = (if list_all token_char k then canon_from True k else k)"

definition header_values :: "header \<Rightarrow> bytes \<Rightarrow> bytes list" where
  "header_values h k = (case map_of h (canonical_key k) of Some vs \<Rightarrow> vs | None \<Rightarrow> [])"

definition header_get :: "header \<Rightarrow> bytes \<Rightarrow> bytes" where
  "header_get h k = (case header_values h k of v # _ \<Rightarrow> v | [] \<Rightarrow> [])"

definition header_set :: "bytes \<Rightarrow> bytes \<Rightarrow> header \<Rightarrow> header" where
  "header_set k v h = AList.update (canonical_key k) [v] h"

definition header_add :: "bytes \<Rightarrow> bytes \<Rightarrow> header \<Rightarrow> header" where
  "header_add k v h = AList.update (canonical_key k) (header_values h k @ [v]) h"

definition header_del :: "bytes \<Rightarrow> header \<Rightarrow> header" where
  "header_del k h = AList.delete (canonical_key k) h"

lemma header_values_simps [simp]:
  "header_values (header_set k v h) k' = (if canonical_key k' = canonical_key k then [v] else header_values h k')"
  "header_values (header_add k v h) k' =
     (if canonical_key k' = canonical_key k then header_values h k @ [v] else header_values h k')"
  "header_values (header_del k h) k' = (if canonical_key k' = canonical_key k then [] else header_values h k')"
  by (auto simp: header_values_def header_set_def header_add_def header_del_def update_conv' delete_conv')

section \<open>ResponseWriter\<close>

text \<open>
  \<open>hw_status\<close> and \<open>hw_sent\<close>: the status and the header as they went out, once they have.  \<open>hw_info\<close>:
  the informational responses sent before.  \<open>hw_flushed\<close>: how many bytes of the body have been flushed.
\<close>

record http_writer =
  hw_header :: header
  hw_status :: "int option"
  hw_sent :: header
  hw_info :: "int list"
  hw_body :: bytes
  hw_flushed :: nat
  hw_room :: "nat option"

definition new_writer :: "nat option \<Rightarrow> http_writer" where
  "new_writer room = \<lparr>hw_header = [], hw_status = None, hw_sent = [], hw_info = [], hw_body = [],
     hw_flushed = 0, hw_room = room\<rparr>"

definition body_allowed :: "int \<Rightarrow> bool" where
  "body_allowed status \<longleftrightarrow> \<not> (100 \<le> status \<and> status < 200) \<and> status \<noteq> 204 \<and> status \<noteq> 304"

definition hw_WriteHeader :: "int \<Rightarrow> http_writer \<Rightarrow> http_writer" where
  "hw_WriteHeader status w =
     (if hw_status w \<noteq> None then w
      else if 100 \<le> status \<and> status < 200 \<and> status \<noteq> 101 then w\<lparr>hw_info := hw_info w @ [status]\<rparr>
      else w\<lparr>hw_status := Some status, hw_sent := hw_header w\<rparr>)"

definition hw_begin :: "http_writer \<Rightarrow> http_writer" where
  "hw_begin w = (if hw_status w = None then hw_WriteHeader 200 w else w)"

text \<open>The number of bytes taken, and whether there was no error.\<close>

definition hw_Write :: "bytes \<Rightarrow> http_writer \<Rightarrow> http_writer \<times> nat \<times> bool" where
  "hw_Write p w =
     (let w = hw_begin w
      in if p \<noteq> [] \<and> \<not> body_allowed (the (hw_status w)) then (w, 0, False)
         else (case hw_room w of
                 None \<Rightarrow> (w\<lparr>hw_body := hw_body w @ p\<rparr>, length p, True)
               | Some room \<Rightarrow>
                   (let n = min room (length p)
                    in (w\<lparr>hw_body := hw_body w @ take n p, hw_room := Some (room - n)\<rparr>, n, n = length p))))"

definition hw_Flush :: "http_writer \<Rightarrow> http_writer" where
  "hw_Flush w = (let w = hw_begin w in w\<lparr>hw_flushed := length (hw_body w)\<rparr>)"

lemma hw_begin_simps [simp]:
  "hw_header (hw_begin w) = hw_header w" "hw_body (hw_begin w) = hw_body w" "hw_room (hw_begin w) = hw_room w"
  "hw_flushed (hw_begin w) = hw_flushed w" "hw_info (hw_begin w) = hw_info w"
  "hw_status (hw_begin w) = Some (case hw_status w of Some s \<Rightarrow> s | None \<Rightarrow> 200)"
  "hw_sent (hw_begin w) = (case hw_status w of Some s \<Rightarrow> hw_sent w | None \<Rightarrow> hw_header w)"
  by (auto simp: hw_begin_def hw_WriteHeader_def split: option.split)

end
