(* ===== verification/Monitor.thy ===== *)
theory Monitor
  imports Prelude
begin

text \<open>
  \<open>pkg/proxy/monitor.go\<close>: the hub that hands packets to the clients watching them.  A channel is a number,
  its content a bounded queue; the fields \<open>ch_model\<close> and \<open>ch_once\<close> are what the function returned by
  \<open>Subscribe\<close> has captured.  A set of channels is a list without repetition.  Every operation holds the
  hub's lock, so it is one step; a client receives between two steps, which commutes with the sends of a
  broadcast to other channels.
\<close>

section \<open>The hub\<close>

datatype packet_direction = DirectionUpstream | DirectionDownstream

record monitor_event =
  me_SessionID :: bytes
  me_Model :: bytes
  me_TimestampMs :: int
  me_Direction :: packet_direction
  me_PacketType :: bytes
  me_Payload :: bytes
  me_Summary :: bytes

record channel =
  ch_model :: bytes
  ch_once :: bool
  ch_queue :: "monitor_event list"
  ch_closed :: bool

record monitor_hub =
  hub_channels :: "channel list"
  hub_subscribers :: "(bytes \<times> nat list) list"
  hub_allSubs :: "nat list"

definition NewMonitorHub :: monitor_hub where
  "NewMonitorHub = \<lparr>hub_channels = [], hub_subscribers = [], hub_allSubs = []\<rparr>"

definition HasSubscribers :: "bytes \<Rightarrow> monitor_hub \<Rightarrow> bool" where
  "HasSubscribers model h \<longleftrightarrow>
     (if 0 < length (hub_allSubs h) then True
      else if model \<noteq> []
      then (case map_of (hub_subscribers h) model of Some subs \<Rightarrow> 0 < length subs | None \<Rightarrow> False)
      else False)"

definition Subscribe :: "bytes \<Rightarrow> monitor_hub \<Rightarrow> monitor_hub" where
  "Subscribe model h =
     (let ch = length (hub_channels h);
          h = h\<lparr>hub_channels := hub_channels h @ [\<lparr>ch_model = model, ch_once = False, ch_queue = [], ch_closed = False\<rparr>]\<rparr>
      in if model = [] then h\<lparr>hub_allSubs := hub_allSubs h @ [ch]\<rparr>
         else (let subs = (case map_of (hub_subscribers h) model of Some subs \<Rightarrow> subs | None \<Rightarrow> [])
               in h\<lparr>hub_subscribers := AList.update model (subs @ [ch]) (hub_subscribers h)\<rparr>))"

text \<open>
  The function that \<open>Subscribe\<close> returned with channel \<open>ch\<close>: it takes the channel out of the hub, and
  closes it; closing a closed channel panics.
\<close>

definition forget :: "nat \<Rightarrow> bytes \<Rightarrow> monitor_hub \<Rightarrow> monitor_hub" where
  "forget ch model h =
     (if model = [] then h\<lparr>hub_allSubs := filter (\<lambda>x. x \<noteq> ch) (hub_allSubs h)\<rparr>
      else (case map_of (hub_subscribers h) model of
              Some subs \<Rightarrow>
                (let subs = filter (\<lambda>x. x \<noteq> ch) subs
                 in if length subs = 0
                    then h\<lparr>hub_subscribers := AList.delete model (hub_subscribers h)\<rparr>
                    else h\<lparr>hub_subscribers := AList.update model subs (hub_subscribers h)\<rparr>)
            | None \<Rightarrow> h))"

definition unsub :: "nat \<Rightarrow> monitor_hub \<Rightarrow> monitor_hub option" where
  "unsub ch h =
     (let c = hub_channels h ! ch
      in if ch_once c then Some h
         else if ch_closed c then None
         else Some ((forget ch (ch_model c) h)
                    \<lparr>hub_channels := (hub_channels h)[ch := c\<lparr>ch_once := True, ch_closed := True\<rparr>]\<rparr>))"

definition capacity :: nat where
  "capacity = 256"

text \<open>A send that does not wait: a full channel drops the event, a closed one panics.\<close>

definition try_send :: "monitor_event \<Rightarrow> nat \<Rightarrow> channel list \<Rightarrow> channel list option" where
  "try_send ev ch cs =
     (let c = cs ! ch
      in if ch_closed c then None
         else Some (if length (ch_queue c) < capacity then cs[ch := c\<lparr>ch_queue := ch_queue c @ [ev]\<rparr>] else cs))"

fun send_all :: "monitor_event \<Rightarrow> nat list \<Rightarrow> channel list \<Rightarrow> channel list option" where
  "send_all ev [] cs = Some cs"
| "send_all ev (ch # chs) cs = (case try_send ev ch cs of Some cs \<Rightarrow> send_all ev chs cs | None \<Rightarrow> None)"

definition Broadcast :: "monitor_event \<Rightarrow> monitor_hub \<Rightarrow> monitor_hub option" where
  "Broadcast ev h =
     (case send_all ev (hub_allSubs h) (hub_channels h) of
        None \<Rightarrow> None
      | Some cs \<Rightarrow>
          if me_Model ev \<noteq> []
          then (case map_of (hub_subscribers h) (me_Model ev) of
                  Some subs \<Rightarrow> map_option (\<lambda>cs. h\<lparr>hub_channels := cs\<rparr>) (send_all ev subs cs)
                | None \<Rightarrow> Some (h\<lparr>hub_channels := cs\<rparr>))
          else Some (h\<lparr>hub_channels := cs\<rparr>))"

text \<open>The client takes the oldest event.\<close>

definition receive :: "nat \<Rightarrow> monitor_hub \<Rightarrow> monitor_hub" where
  "receive ch h = h\<lparr>hub_channels := (hub_channels h)[ch := (hub_channels h ! ch)\<lparr>ch_queue := drop 1 (ch_queue (hub_channels h ! ch))\<rparr>]\<rparr>"

section \<open>Subscriptions\<close>

text \<open>What the hub promises, one inbox per subscription.\<close>

record subscription =
  su_model :: bytes
  su_active :: bool
  su_inbox :: "monitor_event list"

definition interested :: "bytes \<Rightarrow> subscription \<Rightarrow> bool" where
  "interested model s \<longleftrightarrow> su_active s \<and> (su_model s = [] \<or> su_model s = model)"

definition deliver :: "monitor_event \<Rightarrow> subscription \<Rightarrow> subscription" where
  "deliver ev s =
     (if interested (me_Model ev) s \<and> length (su_inbox s) < capacity then s\<lparr>su_inbox := su_inbox s @ [ev]\<rparr> else s)"

datatype hub_op = OpSubscribe bytes | OpUnsub nat | OpBroadcast monitor_event | OpReceive nat

text \<open>A client can only use a subscription that has been made.\<close>

fun hub_step :: "hub_op \<Rightarrow> monitor_hub \<Rightarrow> monitor_hub option" where
  "hub_step (OpSubscribe m) h = Some (Subscribe m h)"
| "hub_step (OpUnsub i) h = (if i < length (hub_channels h) then unsub i h else Some h)"
| "hub_step (OpBroadcast ev) h = Broadcast ev h"
| "hub_step (OpReceive i) h = (if i < length (hub_channels h) then Some (receive i h) else Some h)"

fun sub_step :: "hub_op \<Rightarrow> subscription list \<Rightarrow> subscription list" where
  "sub_step (OpSubscribe m) ss = ss @ [\<lparr>su_model = m, su_active = True, su_inbox = []\<rparr>]"
| "sub_step (OpUnsub i) ss = (if i < length ss then ss[i := (ss ! i)\<lparr>su_active := False\<rparr>] else ss)"
| "sub_step (OpBroadcast ev) ss = map (deliver ev) ss"
| "sub_step (OpReceive i) ss = (if i < length ss then ss[i := (ss ! i)\<lparr>su_inbox := drop 1 (su_inbox (ss ! i))\<rparr>] else ss)"

fun hub_run :: "hub_op list \<Rightarrow> monitor_hub \<Rightarrow> monitor_hub option" where
  "hub_run [] h = Some h"
| "hub_run (o' # os) h = (case hub_step o' h of Some h \<Rightarrow> hub_run os h | None \<Rightarrow> None)"

section \<open>The hub keeps its promise\<close>

definition channel_of :: "subscription \<Rightarrow> channel" where
  "channel_of s = \<lparr>ch_model = su_model s, ch_once = \<not> su_active s, ch_queue = su_inbox s, ch_closed = \<not> su_active s\<rparr>"

definition members :: "subscription list \<Rightarrow> bytes \<Rightarrow> nat set" where
  "members ss m = {i. i < length ss \<and> su_active (ss ! i) \<and> su_model (ss ! i) = m}"

text \<open>The channels of one model; those of the empty model get everything.\<close>

definition audience :: "monitor_hub \<Rightarrow> bytes \<Rightarrow> nat list" where
  "audience h m = (if m = [] then hub_allSubs h
     else (case map_of (hub_subscribers h) m of Some subs \<Rightarrow> subs | None \<Rightarrow> []))"

definition represents :: "monitor_hub \<Rightarrow> subscription list \<Rightarrow> bool" where
  "represents h ss \<longleftrightarrow> hub_channels h = map channel_of ss \<and>
     (\<forall>m. distinct (audience h m) \<and> set (audience h m) = members ss m)"

lemma audience_channels [simp]: "audience (h\<lparr>hub_channels := cs\<rparr>) m = audience h m"
  by (simp add: audience_def)

lemma audience_Subscribe:
  "audience (Subscribe m h) k = (if k = m then audience h m @ [length (hub_channels h)] else audience h k)"
  by (auto simp: audience_def Subscribe_def update_conv' Let_def)

lemma Subscribe_channels:
  "hub_channels (Subscribe m h) = hub_channels h @ [\<lparr>ch_model = m, ch_once = False, ch_queue = [], ch_closed = False\<rparr>]"
  by (simp add: Subscribe_def Let_def)

lemma members_snoc:
  "members (ss @ [s]) m = (if su_active s \<and> su_model s = m then insert (length ss) (members ss m) else members ss m)"
  by (auto simp: members_def nth_append less_Suc_eq)

lemma represents_Subscribe:
  assumes "represents h ss"
  shows "represents (Subscribe m h) (ss @ [\<lparr>su_model = m, su_active = True, su_inbox = []\<rparr>])"
proof -
  have "length ss \<notin> members ss k" for k
    by (simp add: members_def)
  with assms show ?thesis
    by (auto simp: represents_def audience_Subscribe Subscribe_channels members_snoc channel_of_def)
qed

lemma members_update:
  assumes "i < length ss" "su_model s = su_model (ss ! i)"
  shows "members (ss[i := s]) m =
    (if su_model s = m then (if su_active s then insert i (members ss m) else members ss m - {i}) else members ss m)"
  using assms by (auto simp: members_def nth_list_update)

lemma represents_unsub:
  assumes "represents h ss" "i < length ss"
  shows "\<exists>h'. unsub i h = Some h' \<and> represents h' (ss[i := (ss ! i)\<lparr>su_active := False\<rparr>])"
proof (cases "su_active (ss ! i)")
  case False
  then have "ss[i := (ss ! i)\<lparr>su_active := False\<rparr>] = ss"
    by (metis (full_types) list_update_id subscription.surjective subscription.update_convs(2))
  moreover have "unsub i h = Some h"
    using assms False by (simp add: unsub_def represents_def channel_of_def)
  ultimately show ?thesis
    using assms(1) by simp
next
  case True
  define m where "m = su_model (ss ! i)"
  define h' where "h' = (forget i m h)\<lparr>hub_channels := (hub_channels h)[i := channel_of ((ss ! i)\<lparr>su_active := False\<rparr>)]\<rparr>"
  have "hub_channels h ! i = channel_of (ss ! i)"
    using assms by (simp add: represents_def)
  with True have "unsub i h = Some h'"
    by (simp add: unsub_def h'_def m_def channel_of_def Let_def)
  moreover have "audience h' k = (if k = m then filter (\<lambda>x. x \<noteq> i) (audience h m) else audience h k)" for k
    by (auto simp: audience_def h'_def forget_def update_conv' delete_conv' Let_def split: option.split)
  moreover have "hub_channels h' = map channel_of (ss[i := (ss ! i)\<lparr>su_active := False\<rparr>])"
    using assms by (simp add: h'_def represents_def map_update)
  ultimately show ?thesis
    using assms by (auto simp: represents_def members_update m_def)
qed

lemma send_all_open:
  assumes "distinct chs" "\<forall>ch\<in>set chs. ch < length ss \<and> su_active (ss ! ch)"
  shows "send_all ev chs (map channel_of ss) =
    Some (map channel_of (map (\<lambda>i. if i \<in> set chs \<and> length (su_inbox (ss ! i)) < capacity
      then (ss ! i)\<lparr>su_inbox := su_inbox (ss ! i) @ [ev]\<rparr> else ss ! i) [0..<length ss]))"
  using assms
proof (induction chs arbitrary: ss)
  case Nil
  then show ?case
    by (simp add: map_nth)
next
  case (Cons ch chs)
  define ss' where "ss' = (if length (su_inbox (ss ! ch)) < capacity
    then ss[ch := (ss ! ch)\<lparr>su_inbox := su_inbox (ss ! ch) @ [ev]\<rparr>] else ss)"
  have sent: "try_send ev ch (map channel_of ss) = Some (map channel_of ss')"
    using Cons.prems by (auto simp: try_send_def ss'_def channel_of_def map_update Let_def)
  have len: "length ss' = length ss"
    by (simp add: ss'_def)
  have same: "ss' ! i = ss ! i" if "i \<noteq> ch" for i
    using that by (simp add: ss'_def)
  have "send_all ev chs (map channel_of ss') =
    Some (map channel_of (map (\<lambda>i. if i \<in> set chs \<and> length (su_inbox (ss' ! i)) < capacity
      then (ss' ! i)\<lparr>su_inbox := su_inbox (ss' ! i) @ [ev]\<rparr> else ss' ! i) [0..<length ss']))"
  proof (rule Cons.IH)
    show "\<forall>c\<in>set chs. c < length ss' \<and> su_active (ss' ! c)"
      using Cons.prems same len by (metis distinct.simps(2) list.set_intros(2))
  qed (use Cons.prems in simp)
  moreover have "(if i \<in> set chs \<and> length (su_inbox (ss' ! i)) < capacity
      then (ss' ! i)\<lparr>su_inbox := su_inbox (ss' ! i) @ [ev]\<rparr> else ss' ! i) =
    (if i \<in> set (ch # chs) \<and> length (su_inbox (ss ! i)) < capacity
      then (ss ! i)\<lparr>su_inbox := su_inbox (ss ! i) @ [ev]\<rparr> else ss ! i)" for i
    using Cons.prems same by (cases "i = ch") (simp_all add: ss'_def)
  ultimately show ?case
    using sent by (simp add: len)
qed

lemma represents_sent:
  assumes "represents h ss" "A = members ss [] \<union> (if me_Model ev = [] then {} else members ss (me_Model ev))"
  shows "map (\<lambda>i. if i \<in> A \<and> length (su_inbox (ss ! i)) < capacity
      then (ss ! i)\<lparr>su_inbox := su_inbox (ss ! i) @ [ev]\<rparr> else ss ! i) [0..<length ss] = map (deliver ev) ss"
  by (rule nth_equalityI) (auto simp: assms(2) members_def deliver_def interested_def)

lemma deliver_simps [simp]: "su_active (deliver ev s) = su_active s" "su_model (deliver ev s) = su_model s"
  by (simp_all add: deliver_def)

lemma members_deliver: "members (map (deliver ev) ss) m = members ss m"
  unfolding members_def by (rule Collect_cong) (simp cong: conj_cong)

lemma represents_channels:
  "represents h ss \<Longrightarrow> represents (h\<lparr>hub_channels := map channel_of (map (deliver ev) ss)\<rparr>) (map (deliver ev) ss)"
  by (simp add: represents_def members_deliver)

lemma Broadcast_audience:
  "Broadcast ev h = map_option (\<lambda>cs. h\<lparr>hub_channels := cs\<rparr>)
     (send_all ev (audience h [] @ (if me_Model ev = [] then [] else audience h (me_Model ev))) (hub_channels h))"
proof -
  have "send_all ev (xs @ ys) cs = Option.bind (send_all ev xs cs) (send_all ev ys)" for xs ys cs
    by (induction xs arbitrary: cs) (auto split: option.split)
  then show ?thesis
    by (auto simp: Broadcast_def audience_def split: option.split)
qed

lemma represents_Broadcast:
  assumes "represents h ss"
  shows "\<exists>h'. Broadcast ev h = Some h' \<and> represents h' (map (deliver ev) ss)"
proof -
  define chs where "chs = audience h [] @ (if me_Model ev = [] then [] else audience h (me_Model ev))"
  have set: "set chs = members ss [] \<union> (if me_Model ev = [] then {} else members ss (me_Model ev))"
    using assms by (simp add: chs_def represents_def)
  have "distinct chs"
    using assms by (auto simp: chs_def represents_def) (auto simp: members_def)
  moreover have "\<forall>ch\<in>set chs. ch < length ss \<and> su_active (ss ! ch)"
    unfolding set by (auto simp: members_def)
  ultimately have "send_all ev chs (hub_channels h) = Some (map channel_of (map (deliver ev) ss))"
    using send_all_open [of chs ss ev] represents_sent [OF assms set] assms by (simp add: represents_def)
  with assms represents_channels [OF assms, of ev] show ?thesis
    by (simp add: Broadcast_audience chs_def)
qed

lemma represents_step:
  assumes "represents h ss"
  shows "\<exists>h'. hub_step o' h = Some h' \<and> represents h' (sub_step o' ss)"
proof (cases o')
  case (OpSubscribe m)
  with represents_Subscribe [OF assms] show ?thesis
    by simp
next
  case (OpUnsub i)
  with represents_unsub [OF assms, of i] assms show ?thesis
    by (simp add: represents_def)
next
  case (OpBroadcast ev)
  with represents_Broadcast [OF assms] show ?thesis
    by simp
next
  case (OpReceive i)
  have "members (ss[i := (ss ! i)\<lparr>su_inbox := q\<rparr>]) m = members ss m" for m q
    by (cases "i < length ss") (auto simp: members_def nth_list_update)
  with OpReceive assms show ?thesis
    by (auto simp: represents_def receive_def map_update channel_of_def)
qed

lemma represents_run:
  "represents h ss \<Longrightarrow> \<exists>h'. hub_run os h = Some h' \<and> represents h' (fold sub_step os ss)"
proof (induction os arbitrary: h ss)
  case (Cons o' os)
  then show ?case
    using represents_step [OF Cons.prems, of o'] by fastforce
qed simp

lemma represents_new: "represents NewMonitorHub []"
  by (simp add: represents_def NewMonitorHub_def audience_def members_def)

text \<open>
  C21: the hub is a set of independent inboxes.  Whatever clients and handlers do, in any order, nothing
  panics (no channel is closed twice or written to after it was closed), and every channel holds what its
  own inbox would hold: the events of the model it watches, or all events, that were broadcast while it was
  subscribed and found it not full, in their order, less those received.  \<open>HasSubscribers\<close> answers whether
  anyone would get an event of the model.
\<close>

theorem hub_refines_inboxes:
  "\<exists>h. hub_run os NewMonitorHub = Some h \<and>
     map ch_queue (hub_channels h) = map su_inbox (fold sub_step os []) \<and>
     map (\<lambda>c. \<not> ch_closed c) (hub_channels h) = map su_active (fold sub_step os []) \<and>
     (\<forall>model. HasSubscribers model h = list_ex (interested model) (fold sub_step os []))"
proof -
  obtain h where h: "hub_run os NewMonitorHub = Some h" "represents h (fold sub_step os [])"
    using represents_run [OF represents_new] by blast
  define ss where "ss = fold sub_step os []"
  have "HasSubscribers model h \<longleftrightarrow> members ss [] \<noteq> {} \<or> members ss model \<noteq> {}" for model
  proof -
    have "HasSubscribers model h \<longleftrightarrow> audience h [] \<noteq> [] \<or> audience h model \<noteq> []"
      by (auto simp: HasSubscribers_def audience_def split: option.split)
    moreover have "audience h m \<noteq> [] \<longleftrightarrow> members ss m \<noteq> {}" for m
      using h(2) by (metis represents_def set_empty ss_def)
    ultimately show ?thesis
      by simp
  qed
  then have "HasSubscribers model h = list_ex (interested model) ss" for model
    by (auto simp: members_def interested_def list_ex_length)
  with h show ?thesis
    by (auto simp: represents_def ss_def channel_of_def)
qed

text \<open>A sample: the client of all models and the client of one.\<close>

lemma hub_sample:
  "fold sub_step [OpSubscribe [], OpSubscribe ''m'',
      OpBroadcast \<lparr>me_SessionID = ''s'', me_Model = ''k'', me_TimestampMs = 0, me_Direction = DirectionUpstream,
        me_PacketType = ''request'', me_Payload = [], me_Summary = []\<rparr>, OpUnsub 0] [] =
    [\<lparr>su_model = [], su_active = False, su_inbox = [\<lparr>me_SessionID = ''s'', me_Model = ''k'', me_TimestampMs = 0,
        me_Direction = DirectionUpstream, me_PacketType = ''request'', me_Payload = [], me_Summary = []\<rparr>]\<rparr>,
     \<lparr>su_model = ''m'', su_active = True, su_inbox = []\<rparr>]"
  by code_simp

end
