(* ===== verification/Server_Base.thy ===== *)
theory Server_Base
  imports Config Go_Http Monitor Json_Value
begin

text \<open>
  \<open>pkg/proxy/server.go\<close>, the parts every handler uses: the server's configuration and its upstreams, the
  choice of an upstream for a model, headers, paths, the model in a body, the payload of a packet, the
  recorder, and the wiring of \<open>cmd/proxy/main.go\<close>.
\<close>

section \<open>Upstreams\<close>

record upstream_target =
  ut_Name :: bytes
  ut_URL :: url
  ut_APIKey :: bytes

record server_config =
  sc_UpstreamURL :: "url option"
  sc_Upstreams :: "upstream_target list"
  sc_BufferConfig :: buffer_config
  sc_AllowMetricsAPI :: bool
  sc_DisableCompression :: bool

record cached_models =
  cm_statusCode :: int
  cm_header :: header
  cm_body :: bytes

record last_request =
  lr_Model :: bytes
  lr_TimestampMs :: int
  lr_DurationMs :: int
  lr_StatusCode :: int
  lr_Stream :: bool
  lr_Request :: bytes
  lr_Response :: bytes

text \<open>The HTTP client is no field: it is a parameter of the handlers that use it.\<close>

record proxy_server =
  sv_cfg :: server_config
  sv_totalMetrics :: stream_metrics
  sv_monitorHub :: monitor_hub
  sv_sessionSeq :: nat
  sv_upstreams :: "upstream_target list"
  sv_upstreamMap :: "(bytes \<times> upstream_target) list"
  sv_modelsCache :: "cached_models option"
  sv_modelsUpdating :: bool
  sv_lastReqs :: "(bytes \<times> last_request) list"

definition add_target :: "upstream_target \<Rightarrow> (bytes \<times> upstream_target) list \<Rightarrow> (bytes \<times> upstream_target) list" where
  "add_target u m = (if ut_Name u \<noteq> [] then AList.update (ut_Name u) u m else m)"

definition NewProxyServer :: "server_config \<Rightarrow> proxy_server" where
  "NewProxyServer cfg =
     (let (cfg, upstreams, upstreamMap) =
            (if 0 < length (sc_Upstreams cfg)
             then (cfg\<lparr>sc_UpstreamURL := (if sc_UpstreamURL cfg = None then Some (ut_URL (hd (sc_Upstreams cfg)))
                                          else sc_UpstreamURL cfg)\<rparr>,
                   sc_Upstreams cfg, fold add_target (sc_Upstreams cfg) [])
             else (case sc_UpstreamURL cfg of
                     Some u \<Rightarrow>
                       (let target = \<lparr>ut_Name = [], ut_URL = u, ut_APIKey = []\<rparr>
                        in (cfg\<lparr>sc_Upstreams := [target]\<rparr>, [target], [([], target)]))
                   | None \<Rightarrow> (cfg, [], [])))
      in \<lparr>sv_cfg = cfg, sv_totalMetrics = zero_metrics, sv_monitorHub = NewMonitorHub, sv_sessionSeq = 0,
          sv_upstreams = upstreams, sv_upstreamMap = upstreamMap, sv_modelsCache = None, sv_modelsUpdating = False,
          sv_lastReqs = []\<rparr>)"

text \<open>\<open>main\<close>: the server of a configuration.\<close>

definition target_of :: "upstream_config \<Rightarrow> upstream_target" where
  "target_of u = \<lparr>ut_Name = uc_Name u, ut_URL = uc_URL u, ut_APIKey = uc_APIKey u\<rparr>"

definition server_config_of :: "config \<Rightarrow> server_config" where
  "server_config_of cfg =
     \<lparr>sc_UpstreamURL = Some (cfg_ParsedUpstream cfg), sc_Upstreams = map target_of (cfg_Upstreams cfg),
      sc_BufferConfig = BufferConfig cfg, sc_AllowMetricsAPI = cfg_EnableMetrics cfg,
      sc_DisableCompression = \<not> cfg_EnableCompression cfg\<rparr>"

record effective_config =
  ec_UpstreamURL :: bytes
  ec_Upstreams :: "upstream_target list"
  ec_HighWatermarkMB :: int
  ec_HighWatermarkBytes :: int
  ec_LowWatermarkMB :: int
  ec_LowWatermarkBytes :: int
  ec_MinCoalesceWaitMs :: int
  ec_CompressionEnabled :: bool
  ec_MetricsAPIEnabled :: bool

definition EffectiveConfig :: "proxy_server \<Rightarrow> effective_config" where
  "EffectiveConfig s =
     (let upstreamStr =
            (if 0 < length (sv_upstreams s)
             then join '', '' (map (\<lambda>u. if ut_Name u \<noteq> [] then ut_Name u @ ''='' @ url_String (ut_URL u)
                                        else url_String (ut_URL u)) (sv_upstreams s))
             else (case sc_UpstreamURL (sv_cfg s) of Some u \<Rightarrow> url_String u | None \<Rightarrow> []));
          hw = HighWatermark (sc_BufferConfig (sv_cfg s));
          lw = LowWatermark (sc_BufferConfig (sv_cfg s))
      in \<lparr>ec_UpstreamURL = upstreamStr, ec_Upstreams = sv_upstreams s, ec_HighWatermarkMB = quot hw (1024 * 1024),
          ec_HighWatermarkBytes = hw, ec_LowWatermarkMB = quot lw (1024 * 1024), ec_LowWatermarkBytes = lw,
          ec_MinCoalesceWaitMs = quot (MinCoalesceWait (sc_BufferConfig (sv_cfg s))) 1000000,
          ec_CompressionEnabled = (\<not> sc_DisableCompression (sv_cfg s)),
          ec_MetricsAPIEnabled = sc_AllowMetricsAPI (sv_cfg s)\<rparr>)"

section \<open>The upstream of a model\<close>

text \<open>
  \<open>strconv.Quote\<close>, as the verb \<open>%q\<close> uses it.  Which runes outside ASCII are printable is a table of the
  \<open>unicode\<close> package, the parameter \<open>is_print\<close>.
\<close>

definition quote_escape :: "(nat \<Rightarrow> bool) \<Rightarrow> nat \<Rightarrow> bytes" where
  "quote_escape is_print r =
     (if r = 34 \<or> r = 92 then [chr 92, chr r]
      else if (if r < 128 then 32 \<le> r \<and> r < 127 else is_print r) then encode_rune r
      else if r = 7 then [chr 92, CHR ''a'']
      else if r = 8 then [chr 92, CHR ''b'']
      else if r = 12 then [chr 92, CHR ''f'']
      else if r = 10 then [chr 92, CHR ''n'']
      else if r = 13 then [chr 92, CHR ''r'']
      else if r = 9 then [chr 92, CHR ''t'']
      else if r = 11 then [chr 92, CHR ''v'']
      else if r < 32 \<or> r = 127 then [chr 92, CHR ''x'', hex_char (r div 16), hex_char (r mod 16)]
      else if r < 65536 then u_escape r
      else chr 92 # CHR ''U'' # map (\<lambda>k. hex_char (r div 16 ^ k mod 16)) [7, 6, 5, 4, 3, 2, 1, 0])"

function quote_runes :: "(nat \<Rightarrow> bool) \<Rightarrow> bytes \<Rightarrow> bytes" where
  "quote_runes is_print s =
     (case s of
        [] \<Rightarrow> []
      | c # _ \<Rightarrow>
          (if \<not> good_rune s then [chr 92, CHR ''x'', hex_char (byte c div 16), hex_char (byte c mod 16)]
           else quote_escape is_print (fst (decode_rune s))) @ quote_runes is_print (drop (snd (decode_rune s)) s))"
  by pat_completeness auto
termination
proof (relation "measure (length \<circ> snd)")
  fix is_print :: "nat \<Rightarrow> bool" and s :: bytes and c t
  assume "s = c # t"
  then show "((is_print, drop (snd (decode_rune s)) s), (is_print, s)) \<in> measure (length \<circ> snd)"
    using decode_rune_width [of s] by simp
qed auto

declare quote_runes.simps [simp del]

definition go_quote :: "(nat \<Rightarrow> bool) \<Rightarrow> bytes \<Rightarrow> bytes" where
  "go_quote is_print s = [chr 34] @ quote_runes is_print s @ [chr 34]"

text \<open>The target and the model it knows, or the text of the error.\<close>

definition resolveUpstream :: "(nat \<Rightarrow> bool) \<Rightarrow> proxy_server \<Rightarrow> bytes \<Rightarrow> bytes + upstream_target \<times> bytes" where
  "resolveUpstream is_print s model =
     (let (prefix, targetModel, found) = Cut model ''/''
      in if found
         then (case map_of (sv_upstreamMap s) prefix of
                 Some tgt \<Rightarrow> Inr (tgt, targetModel)
               | None \<Rightarrow> Inl (''upstream '' @ go_quote is_print prefix @ '' not found for model '' @ go_quote is_print model))
         else if length (sv_upstreams s) = 1 then Inr (hd (sv_upstreams s), model)
         else (case map_of (sv_upstreamMap s) ''default'' of
                 Some tgt \<Rightarrow> Inr (tgt, model)
               | None \<Rightarrow>
                   (case map_of (sv_upstreamMap s) [] of
                      Some tgt \<Rightarrow> Inr (tgt, model)
                    | None \<Rightarrow>
                        (case map_of (sv_upstreamMap s) model of
                           Some tgt \<Rightarrow> Inr (tgt, model)
                         | None \<Rightarrow> Inl (''model '' @ go_quote is_print model
                             @ '' does not specify upstream prefix (expected <upstream>/<model>)'')))))"

section \<open>Headers and paths\<close>

definition applyAuthHeader :: "bytes \<Rightarrow> header \<Rightarrow> header" where
  "applyAuthHeader apiKey h =
     (if apiKey \<noteq> []
      then header_set ''Authorization'' (if has_prefix (ToLower apiKey) ''bearer '' then apiKey else ''Bearer '' @ apiKey) h
      else h)"

definition isHopByHop :: "bytes \<Rightarrow> bool" where
  "isHopByHop header \<longleftrightarrow> ToLower header \<in> {''connection'', ''keep-alive'', ''proxy-authenticate'',
     ''proxy-authorization'', ''te'', ''trailers'', ''transfer-encoding'', ''upgrade''}"

definition copyHeaders :: "header \<Rightarrow> header \<Rightarrow> header" where
  "copyHeaders src dst =
     fold (\<lambda>(k, vv) dst. if isHopByHop k then dst else fold (header_add k) vv dst) src dst"

definition singleJoiningSlash :: "bytes \<Rightarrow> bytes \<Rightarrow> bytes" where
  "singleJoiningSlash a b =
     (let aslash = has_suffix a ''/''; bslash = has_prefix b ''/''
      in if aslash \<and> bslash then a @ drop 1 b
         else if \<not> aslash \<and> \<not> bslash then a @ ''/'' @ b
         else a @ b)"

definition dest_url :: "url \<Rightarrow> bytes \<Rightarrow> bytes \<Rightarrow> url" where
  "dest_url target path rawQuery = target\<lparr>u_Path := singleJoiningSlash (u_Path target) path, u_RawQuery := rawQuery\<rparr>"

section \<open>Bodies\<close>

text \<open>
  How \<open>json.Marshal\<close> writes a \<open>json.RawMessage\<close>: without white space between its tokens and with the
  characters that HTML would misread escaped.
\<close>

fun compact :: "bool \<Rightarrow> bool \<Rightarrow> bytes \<Rightarrow> bytes" where
  "compact str esc [] = []"
| "compact str esc (c # s) =
     (if c = CHR ''<'' \<or> c = CHR ''>'' \<or> c = CHR ''&'' then u_escape (byte c) @ compact str False s
      else if byte c = 226 \<and> (take 2 s = [chr 128, chr 168] \<or> take 2 s = [chr 128, chr 169])
      then u_escape (8192 + (byte (s ! 1) - 128)) @ compact str False (drop 2 s)
      else if \<not> str \<and> is_json_space c then compact str False s
      else c # compact (if str then esc \<or> c \<noteq> chr 34 else c = chr 34) (str \<and> \<not> esc \<and> c = chr 92) s)"

definition compact_raw :: "bytes \<Rightarrow> bytes" where
  "compact_raw raw = compact False False raw"

definition raw_map_text :: "(bytes \<times> bytes) list \<Rightarrow> bytes" where
  "raw_map_text m = object_text (map (\<lambda>(k, r). (k, compact_raw r)) m)"

text \<open>\<open>None\<close>: the body is \<open>null\<close>, so the map is nil and storing into it panics.\<close>

definition rewriteModelInBody :: "bytes \<Rightarrow> bytes \<Rightarrow> bytes option" where
  "rewriteModelInBody bodyBytes targetModel =
     (case um_map_raw bodyBytes of
        None \<Rightarrow> Some bodyBytes
      | Some rawMap \<Rightarrow>
          if json_parse bodyBytes = Some JNull then None
          else Some (raw_map_text (AList.update ''model'' (quote_string targetModel) rawMap)))"

text \<open>The model of a response, if it has one, becomes the model the client asked for.\<close>

definition restore_model :: "bytes \<Rightarrow> header \<Rightarrow> bytes \<Rightarrow> bytes" where
  "restore_model model h respBytes =
     (if model \<noteq> [] \<and> Contains (header_get h ''Content-Type'') ''application/json''
      then (case um_map_raw respBytes of
              Some rawMap \<Rightarrow>
                if map_of rawMap ''model'' \<noteq> None
                then raw_map_text (AList.update ''model'' (quote_string model) rawMap) else respBytes
            | None \<Rightarrow> respBytes)
      else respBytes)"

record stream_check =
  sk_Stream :: bool
  sk_Model :: bytes

fun field_bool :: "jval \<Rightarrow> bool option option" where
  "field_bool (JBool b) = Some (Some b)"
| "field_bool JNull = Some None"
| "field_bool _ = None"

definition check_member :: "bytes \<times> bytes \<times> jval \<Rightarrow> stream_check \<times> bool \<Rightarrow> stream_check \<times> bool" where
  "check_member m s = (case m of (k, raw, v) \<Rightarrow>
     if names ''stream'' k then set_field (keep_or (\<lambda>x. sk_Stream_update (\<lambda>_. x))) (field_bool v) s
     else if names ''model'' k then set_field (keep_or (\<lambda>x. sk_Model_update (\<lambda>_. x))) (field_string v) s
     else s)"

text \<open>What \<open>Unmarshal\<close> has stored; its error is ignored.\<close>

definition stored_check :: "bytes \<Rightarrow> stream_check" where
  "stored_check body =
     (case json_parse body of
        Some (JObj ms) \<Rightarrow> fst (fold check_member ms (\<lparr>sk_Stream = False, sk_Model = []\<rparr>, True))
      | _ \<Rightarrow> \<lparr>sk_Stream = False, sk_Model = []\<rparr>)"

section \<open>Packets and recording\<close>

definition sse_line :: "bytes \<Rightarrow> bytes" where
  "sse_line line =
     (let line = trim_space line in if has_prefix line ''data:'' then trim_space (drop 5 line) else line)"

fun join_lines :: "bool \<Rightarrow> bytes list \<Rightarrow> bytes \<Rightarrow> bytes" where
  "join_lines first [] buf = buf"
| "join_lines first (line # lines) buf =
     (let line = sse_line line
      in join_lines False lines
           (buf @ (if \<not> first \<and> 0 < length buf \<and> 0 < length line then '' '' else []) @ line))"

definition extractSSEPayload :: "bytes \<Rightarrow> bytes" where
  "extractSSEPayload data =
     (let trimmed = trim_space data
      in case Index trimmed ''data:'' of
           Some idx \<Rightarrow> join_lines True (split_on nl (drop (idx + 5) trimmed)) []
         | None \<Rightarrow> trimmed)"

record response_recorder =
  rr_buf :: bytes
  rr_maxRecord :: nat

text \<open>What a write leaves in the recorder; the write itself goes on to the client as it is.\<close>

definition record_Write :: "bytes \<Rightarrow> response_recorder \<Rightarrow> response_recorder" where
  "record_Write p rr =
     (if length (rr_buf rr) < rr_maxRecord rr
      then (let avail = rr_maxRecord rr - length (rr_buf rr)
            in if length p \<le> avail then rr\<lparr>rr_buf := rr_buf rr @ p\<rparr> else rr\<lparr>rr_buf := rr_buf rr @ take avail p\<rparr>)
      else rr)"

definition recordLastReq :: "last_request \<Rightarrow> proxy_server \<Rightarrow> proxy_server" where
  "recordLastReq rec s =
     (if lr_Model rec = [] then s else s\<lparr>sv_lastReqs := AList.update (lr_Model rec) rec (sv_lastReqs s)\<rparr>)"

definition getLastReq :: "bytes \<Rightarrow> proxy_server \<Rightarrow> last_request option" where
  "getLastReq model s = map_of (sv_lastReqs s) model"

end
