(* ===== verification/Body_Laws.thy ===== *)
theory Body_Laws
  imports Server_Base Chat_Trip "HOL-Library.Multiset"
begin

text \<open>
  The model in a body: for a body that \<open>json.Marshal\<close> could have written, exchanging the model in it is an
  update of the object, and nothing else changes.
\<close>

section \<open>Written texts are compact\<close>

text \<open>Between tokens and within a string, a text that compacting leaves alone.\<close>

definition kept :: "bytes \<Rightarrow> bool" where
  "kept t \<longleftrightarrow> (\<forall>r. compact False False (t @ r) = t @ compact False False r)"

definition kept_in :: "bytes \<Rightarrow> bool" where
  "kept_in t \<longleftrightarrow> (\<forall>r. compact True False (t @ r) = t @ compact True False r)"

definition tame :: "char \<Rightarrow> bool" where
  "tame c \<longleftrightarrow> c \<noteq> CHR ''<'' \<and> c \<noteq> CHR ''>'' \<and> c \<noteq> CHR ''&'' \<and> byte c \<noteq> 226"

lemma char_codes [simp]: "chr 34 = quote" "chr 92 = backslash" "quote \<noteq> backslash" "backslash \<noteq> quote"
  by code_simp+

lemma kept_append: "kept s \<Longrightarrow> kept t \<Longrightarrow> kept (s @ t)"
  by (simp add: kept_def)

lemma kept_Nil [simp]: "kept []" "kept_in []"
  by (simp_all add: kept_def kept_in_def)

lemma kept_in_append: "kept_in s \<Longrightarrow> kept_in t \<Longrightarrow> kept_in (s @ t)"
  by (simp add: kept_in_def)

lemma kept_Cons:
  assumes "tame c" "\<not> is_json_space c" "c \<noteq> quote" "kept t"
  shows "kept (c # t)"
  using assms by (simp add: kept_def tame_def)

lemma kept_tame: "\<forall>c \<in> set t. tame c \<and> \<not> is_json_space c \<and> c \<noteq> quote \<Longrightarrow> kept t"
  by (induction t) (simp_all add: kept_Cons)

lemma kept_in_Cons:
  assumes "tame c" "c \<noteq> quote" "c \<noteq> backslash" "kept_in t"
  shows "kept_in (c # t)"
  using assms by (simp add: kept_in_def tame_def)

lemma kept_in_escaped: "tame d \<Longrightarrow> kept_in [backslash, d]"
  by (simp add: kept_in_def tame_def)

lemma hex_char_tame: "n < 16 \<Longrightarrow> tame (hex_char n) \<and> hex_char n \<noteq> quote \<and> hex_char n \<noteq> backslash"
proof -
  assume n: "n < 16"
  then have "byte (hex_char n) = (if n < 10 then 48 + n else 87 + n)"
    by (simp add: hex_char_def byte_chr)
  with n show ?thesis
    by (auto simp: tame_def split: if_splits)
qed

lemma u_escape_kept: "kept_in (u_escape r)"
proof -
  have "kept_in [hex_char (r div 4096 mod 16), hex_char (r div 256 mod 16), hex_char (r div 16 mod 16), hex_char (r mod 16)]"
    by (intro kept_in_Cons) (simp_all add: hex_char_tame)
  from kept_in_append [OF kept_in_escaped [of "CHR ''u''"] this] show ?thesis
    by (simp add: u_escape_def tame_def)
qed

lemma escape_char_kept:
  assumes "byte c < 128"
  shows "kept_in (escape_char c)"
proof (cases rule: escape_char_cases [of c])
  case hex
  then show ?thesis by (simp add: u_escape_kept)
next
  case (simple d)
  then show ?thesis
    by (auto simp: simple_escape_def tame_def intro!: kept_in_escaped split: if_splits)
next
  case plain
  with assms have "tame c"
    by (auto simp: escape_char_def tame_def u_escape_def split: if_splits)
  with plain show ?thesis by (simp add: kept_in_Cons)
qed

lemma rune_kept:
  assumes "good_rune (c # t)" "\<not> byte c < 128" "fst (decode_rune (c # t)) \<noteq> 8232" "fst (decode_rune (c # t)) \<noteq> 8233"
  shows "kept_in (take (snd (decode_rune (c # t))) (c # t))"
proof -
  note wide = good_rune_wide [OF assms(1) refl assms(2)]
  have high: "tame y \<and> y \<noteq> quote \<and> y \<noteq> backslash" if "128 \<le> byte y" "byte y \<noteq> 226" for y
    using that by (auto simp: tame_def)
  show ?thesis
  proof (cases "byte c = 226")
    case False
    have "\<forall>y \<in> set (take (snd (decode_rune (c # t))) (c # t)). byte y \<noteq> 226"
    proof -
      have w: "1 < snd (decode_rune (c # t))"
        using assms(1, 2) by (simp add: good_rune_def)
      consider "byte c < 194" | "\<not> byte c < 194" "byte c < 224" | "\<not> byte c < 224" "byte c < 240"
        | "\<not> byte c < 240" "byte c < 245" | "\<not> byte c < 245"
        by linarith
      then show ?thesis
      proof cases
        case 2
        with False w assms(2) show ?thesis
          by (cases t) (auto simp: Let_def in_range_def split: if_splits)
      next
        case 3
        have "second3 b y \<Longrightarrow> byte y \<noteq> 226" for b y
          by (auto simp: second3_def in_range_def split: if_splits)
        with 3 False w assms(2) show ?thesis
          by (cases t rule: remdups_adj.cases) (auto simp: Let_def in_range_def split: if_splits)
      next
        case 4
        have "second4 b y \<Longrightarrow> byte y \<noteq> 226" for b y
          by (auto simp: second4_def in_range_def split: if_splits)
        with 4 False w assms(2) show ?thesis
          by (cases t; cases "tl t"; cases "tl (tl t)") (auto simp: Let_def in_range_def split: if_splits)
      qed (use w assms(2) in \<open>auto simp: Let_def\<close>)
    qed
    with wide(4) have "\<forall>y \<in> set (take (snd (decode_rune (c # t))) (c # t)). tame y \<and> y \<noteq> quote \<and> y \<noteq> backslash"
      using high by blast
    then have "kept_in ys" if "set ys \<subseteq> set (take (snd (decode_rune (c # t))) (c # t))" for ys
      using that by (induction ys) (auto intro: kept_in_Cons)
    then show ?thesis by blast
  next
    case True
    then obtain c1 c2 u where t: "t = c1 # c2 # u" "second3 226 c1" "cont c2"
      using assms(1) by (auto simp: good_rune_def Let_def split: list.splits if_splits)
    then have dec: "decode_rune (c # t) = (six (six 2 (byte c1 - 128)) (byte c2 - 128), 3)"
      using True by (simp add: Let_def)
    have b: "128 \<le> byte c1" "byte c1 < 192" "128 \<le> byte c2" "byte c2 < 192"
      using t by (auto simp: second3_def in_range_def)
    have "\<not> (byte c1 = 128 \<and> (byte c2 = 168 \<or> byte c2 = 169))"
      using assms(3, 4) unfolding dec by (auto simp: six_def)
    then have "\<not> (c1 = chr 128 \<and> (c2 = chr 168 \<or> c2 = chr 169))"
      by (auto simp: byte_chr)
    moreover have "tame c1" "c1 \<noteq> quote" "c1 \<noteq> backslash" "tame c2" "c2 \<noteq> quote" "c2 \<noteq> backslash"
      using high b by auto
    moreover have "c \<noteq> CHR ''<''" "c \<noteq> CHR ''>''" "c \<noteq> CHR ''&''" "c \<noteq> quote" "c \<noteq> backslash"
      using True by auto
    moreover have "take (snd (decode_rune (c # t))) (c # t) = [c, c1, c2]"
      unfolding dec by (simp add: t)
    ultimately show ?thesis
      using True by (auto simp: kept_in_def tame_def simp del: decode_rune.simps)
  qed
qed

lemma escape_string_kept: "kept_in (escape_string s)"
proof (induction s rule: escape_string.induct)
  case (1 s)
  show ?case
  proof (cases s)
    case Nil
    then show ?thesis by (simp add: escape_string.simps)
  next
    case (Cons c t)
    show ?thesis
    proof (cases "byte c < 128")
      case True
      with 1(1) [OF Cons] Cons show ?thesis
        by (subst escape_string.simps) (simp add: kept_in_append escape_char_kept)
    next
      case False
      with 1(2) [OF Cons False] Cons show ?thesis
        by (subst escape_string.simps)
           (auto simp del: decode_rune.simps intro!: kept_in_append u_escape_kept rune_kept)
    qed
  qed
qed

lemma quote_string_kept: "kept (quote_string s)"
  using escape_string_kept [of s]
  by (simp add: quote_string_def kept_def kept_in_def is_json_space_def)

definition plain_char :: "char \<Rightarrow> bool" where
  "plain_char c \<longleftrightarrow> tame c \<and> \<not> is_json_space c \<and> c \<noteq> quote"

lemma number_kept:
  assumes "scan_number s = Some (t, u)"
  shows "kept t"
proof -
  have digit: "plain_char c" if "is_digit c" for c
    using that by (auto simp: is_digit_def plain_char_def tame_def is_json_space_def)
  have digits: "\<forall>c \<in> set (digits_prefix s). plain_char c" for s
    using digit by (auto simp: digits_prefix_def dest: set_takeWhileD)
  have others: "plain_char (CHR ''-'')" "plain_char (CHR ''+'')" "plain_char (CHR ''.'')" "plain_char (CHR ''e'')" "plain_char (CHR ''E'')" "plain_char (CHR ''0'')"
    by code_simp+
  have "\<forall>c \<in> set (minus_sign s). plain_char c" for s
    using others by (auto simp: minus_sign_def split: list.splits)
  moreover have "\<forall>c \<in> set (int_part s). plain_char c" for s
    using digits others by (auto simp: int_part_def split: list.splits)
  moreover have "\<forall>c \<in> set f. plain_char c" if "frac_part s = Some f" for s f
    using that digits others by (auto simp: frac_part_def split: list.splits if_splits)
  moreover have "\<forall>c \<in> set e. plain_char c" if "exp_part s = Some e" for s e
    using that digits others by (auto simp: exp_part_def exp_sign_def Let_def split: list.splits if_splits)
  ultimately have "\<forall>c \<in> set t. plain_char c"
    using assms by (auto simp: scan_number_def Let_def split: if_splits option.splits)
  then show ?thesis
    by (intro kept_tame) (simp add: plain_char_def)
qed

lemma delimiters_kept: "kept '',''" "kept ''[''" "kept '']''" "kept ''{''" "kept ''}''" "kept '':''"
  by (rule kept_tame; simp add: tame_def is_json_space_def)+

lemma join_kept: "\<forall>t \<in> set ts. kept t \<Longrightarrow> kept (join '','' ts)"
proof (induction ts)
  case (Cons t ts)
  then show ?case
    using kept_append [OF kept_append [of t "'',''"], of "join '','' ts"] delimiters_kept by (cases ts) simp_all
qed simp

lemma object_text_kept:
  assumes "\<forall>(k, t) \<in> set ms. kept t"
  shows "kept (object_text ms)"
proof -
  have "kept (member_text m)" if "m \<in> set ms" for m
    using kept_append [OF kept_append [OF quote_string_kept delimiters_kept(6)], of "snd m"] assms that
    by (auto simp: member_text_def)
  then have "kept (join '','' (map member_text (sort_key fst ms)))"
    by (intro join_kept) auto
  from kept_append [OF kept_append [OF delimiters_kept(4) this] delimiters_kept(5)] show ?thesis
    by (simp add: object_text_def)
qed

lemma jtext_arr:
  assumes "writable (GArr vs)"
  shows "jtext (GArr vs) = array_text (map jtext vs)"
proof -
  have "json_marshal v = Some (jtext v)" if "v \<in> set vs" for v
    using assms marshal_reads that by (auto simp: list_all_iff)
  then show ?thesis
    by (simp add: jtext_def [of "GArr vs"] those_map_Some [where g = jtext] list_all_iff)
qed

lemma jtext_obj:
  assumes "writable (GObj kvs)"
  shows "jtext (GObj kvs) = object_text (map (\<lambda>(k, v). (k, jtext v)) kvs)"
proof -
  have "json_marshal v = Some (jtext v)" if "(k, v) \<in> set kvs" for k v
    using assms marshal_reads that by (auto simp: list_all_iff)
  then have "those (map (\<lambda>(k, v). map_option (Pair k) (json_marshal v)) kvs) = Some (map (\<lambda>(k, v). (k, jtext v)) kvs)"
    by (subst those_map_Some [where g = "\<lambda>(k, v). (k, jtext v)"]) (auto simp: list_all_iff)
  then show ?thesis
    by (simp add: jtext_def [of "GObj kvs"])
qed

lemma jtext_kept: "writable v \<Longrightarrow> kept (jtext v)"
proof (induction v)
  case GNil
  have "jtext GNil = lit_null"
    by (simp add: jtext_def)
  moreover have "kept lit_null"
    by (rule kept_tame) code_simp
  ultimately show ?case by simp
next
  case (GBool b)
  have "kept lit_true" "kept lit_false"
    by (rule kept_tame; code_simp)+
  then show ?case by (simp add: jtext_def)
next
  case (GFloat f)
  then show ?case using number_kept by (cases f) (auto simp: jtext_def clean_float_def)
next
  case (GInt i)
  then show ?case using number_kept [OF scan_int_digits] by (simp add: jtext_def)
next
  case (GStr s)
  then show ?case by (simp add: jtext_def quote_string_kept)
next
  case (GArr vs)
  then have "kept (join '','' (map jtext vs))"
    by (intro join_kept) (auto simp: list_all_iff)
  from kept_append [OF kept_append [OF delimiters_kept(2) this] delimiters_kept(3)] show ?case
    unfolding jtext_arr [OF GArr.prems] by (simp add: array_text_def)
next
  case (GObj kvs)
  then show ?case
    unfolding jtext_obj [OF GObj.prems] by (intro object_text_kept) (fastforce simp: list_all_iff)
qed

lemma compact_kept: "kept t \<Longrightarrow> compact_raw t = t"
  using spec [of "\<lambda>r. compact False False (t @ r) = t @ compact False False r" "[]"] by (simp add: kept_def compact_raw_def)

section \<open>Exchanging the model\<close>

lemma object_text_same:
  assumes "set ms = set ms'" "distinct (map fst ms)" "distinct (map fst ms')"
  shows "object_text ms = object_text ms'"
proof -
  have "mset ms = mset ms'"
    using assms distinct_map set_eq_iff_mset_eq_distinct by blast
  moreover have "inj_on fst (set ms)"
    using assms(2) by (simp add: distinct_map)
  ultimately have "sort_key fst ms = sort_key fst ms'"
    by (intro sort_key_inj_key_eq) simp_all
  then show ?thesis by (simp add: object_text_def)
qed

lemma set_update_distinct:
  "distinct (map fst m) \<Longrightarrow> set (AList.update k v m) = insert (k, v) {x \<in> set m. fst x \<noteq> k}"
  by (induction m) (force split: if_splits)+

lemma written_update:
  assumes "writable_to 10000 (GObj kvs)" "valid_utf8 m"
  shows "raw_map_text (AList.update ''model'' (quote_string m) (written kvs)) = jtext (GObj (put ''model'' (GStr m) kvs))"
proof -
  let ?t = "\<lambda>(k, v). (k, jtext v)"
  have q: "quote_string m = jtext (GStr m)" by (simp add: jtext_def)
  have d: "distinct (map fst kvs)" and w: "writable (GObj kvs)"
    using assms(1) by (auto simp: writable_to_def)
  have w': "writable (GObj (put ''model'' (GStr m) kvs))"
    using writable_put [of 9999 kvs "''model''" "GStr m"] assms by (simp add: writable_to_def)
  have dw: "distinct (map fst (written kvs))"
  proof -
    have "map fst (written kvs) = map fst (sort_key fst kvs)"
      by (auto simp: written_def)
    then show ?thesis using d by (simp add: distinct_map)
  qed
  have sw: "set (written kvs) = ?t ` set kvs"
    by (simp add: written_def)
  have kept: "(\<lambda>(k, r). (k, compact_raw r)) x = x" if "x \<in> set (AList.update ''model'' (quote_string m) (written kvs))" for x
    using that w compact_kept [OF jtext_kept] compact_kept [OF quote_string_kept]
    unfolding set_update_distinct [OF dw] sw by (fastforce simp: list_all_iff)
  have "raw_map_text (AList.update ''model'' (quote_string m) (written kvs))
      = object_text (AList.update ''model'' (quote_string m) (written kvs))"
    unfolding raw_map_text_def using kept by (simp add: map_idI)
  also have "\<dots> = object_text (map ?t (put ''model'' (GStr m) kvs))"
  proof (rule object_text_same)
    show "set (AList.update ''model'' (quote_string m) (written kvs)) = set (map ?t (put ''model'' (GStr m) kvs))"
      unfolding set_update_distinct [OF dw] set_map set_update_distinct [OF d] sw q by force
    show "distinct (map fst (AList.update ''model'' (quote_string m) (written kvs)))"
      by (simp add: dw distinct_update)
    have e: "fst \<circ> ?t = fst" by auto
    show "distinct (map fst (map ?t (put ''model'' (GStr m) kvs)))"
      unfolding list.map_comp e by (rule distinct_update [OF d])
  qed
  also have "\<dots> = jtext (GObj (put ''model'' (GStr m) kvs))"
    using jtext_obj [OF w'] by simp
  finally show ?thesis .
qed

text \<open>
  C5: exchanging the model of a body is an update of its object.  For a body that \<open>json.Marshal\<close> has written,
  the rewritten request is the written text of the same object with the key \<open>model\<close> set and every other key
  and value as it was; the restored answer likewise if it is JSON and has a model, and is otherwise untouched.
\<close>

theorem model_rewrite_is_update:
  assumes "writable_to 10000 (GObj kvs)" "valid_utf8 m"
  shows "rewriteModelInBody (jtext (GObj kvs)) m = Some (jtext (GObj (put ''model'' (GStr m) kvs)))
    \<and> restore_model m h (jtext (GObj kvs)) =
       jtext (GObj (if m \<noteq> [] \<and> Contains (header_get h ''Content-Type'') ''application/json'' \<and> map_of kvs ''model'' \<noteq> None
                    then put ''model'' (GStr m) kvs else kvs))"
proof -
  have "json_parse (jtext (GObj kvs)) \<noteq> Some JNull"
    using writable_to_parse [OF assms(1)] by simp
  then show ?thesis
    using um_map_raw_written [OF assms(1)] written_update [OF assms]
    by (auto simp: rewriteModelInBody_def restore_model_def)
qed

lemma model_rewrite_is_update_witness:
  "let body = jtext (GObj [(''stream'', GBool False), (''model'', GStr ''a/x''), (''n'', GInt 2)])
   in body = jtext (GObj [(''model'', GStr ''a/x''), (''n'', GInt 2), (''stream'', GBool False)]) \<and>
      rewriteModelInBody body ''x'' = Some (jtext (GObj [(''stream'', GBool False), (''model'', GStr ''x''), (''n'', GInt 2)]))"
proof -
  let ?kvs = "[(''stream'', GBool False), (''model'', GStr ''a/x''), (''n'', GInt 2)]"
  have "writable_to 10000 (GObj ?kvs)" "valid_utf8 ''x''"
    by (simp add: writable_to_def, code_simp)+
  from model_rewrite_is_update [OF this] show ?thesis
    by (auto simp: Let_def jtext_def object_text_def)
qed

end
