(* ===== verification/Compress.thy ===== *)
theory Compress
  imports Go_Http Metrics
begin

text \<open>
  \<open>pkg/compress/compress.go\<close>: the choice of a response encoding and the \<open>ResponseWriter\<close> that compresses.
  The two encoders are code of other packages, so they are a parameter: a codec, with what it emits for
  each write, flush and close.  An encoder whose output could not be written fails from then on.
\<close>

datatype encoding = EncodingNone | EncodingZstd | EncodingGzip

fun encoding_name :: "encoding \<Rightarrow> bytes" where
  "encoding_name EncodingNone = []"
| "encoding_name EncodingZstd = ''zstd''"
| "encoding_name EncodingGzip = ''gzip''"

section \<open>SelectEncoding\<close>

record item =
  it_q :: float64
  it_present :: bool

definition no_item :: item where
  "no_item = \<lparr>it_q = f64_zero, it_present = False\<rparr>"

definition clamp :: "float64 \<Rightarrow> float64" where
  "clamp v = (if f64_less v f64_zero then f64_zero else if f64_less f64_one v then f64_one else v)"

definition param_q :: "bytes \<Rightarrow> float64 \<Rightarrow> float64" where
  "param_q param q =
     (let param = trim_space param
      in if has_prefix (ToLower param) ''q=''
         then (case ParseFloat (trim_space (drop 2 param)) of Some v \<Rightarrow> clamp v | None \<Rightarrow> q)
         else q)"

text \<open>One part of the header: its coding in lower case, and its weight.\<close>

definition parse_part :: "bytes \<Rightarrow> bytes \<times> float64" where
  "parse_part part =
     (case index_byte part (CHR '';'') of
        None \<Rightarrow> (ToLower part, f64_one)
      | Some semi \<Rightarrow>
          (ToLower (trim_space (take semi part)),
           fold param_q (split_on (CHR '';'') (drop (semi + 1) part)) f64_one))"

definition select_part :: "bytes \<Rightarrow> item \<times> item \<times> item \<Rightarrow> item \<times> item \<times> item" where
  "select_part part items =
     (case items of (zstdItem, gzipItem, starItem) \<Rightarrow>
        let part = trim_space part
        in if part = [] then items
           else (let (encoding, q) = parse_part part; it = \<lparr>it_q = q, it_present = True\<rparr>
                 in if encoding = ''zstd'' then (it, gzipItem, starItem)
                    else if encoding = ''gzip'' then (zstdItem, it, starItem)
                    else if encoding = ''*'' then (zstdItem, gzipItem, it)
                    else items))"

definition wanted :: "item \<Rightarrow> bool" where
  "wanted it \<longleftrightarrow> it_present it \<and> f64_less f64_zero (it_q it)"

definition SelectEncoding :: "bytes \<Rightarrow> encoding" where
  "SelectEncoding acceptHeader =
     (if acceptHeader = [] then EncodingNone
      else (let (zstdItem, gzipItem, starItem) =
                  fold select_part (split_on (CHR '','') acceptHeader) (no_item, no_item, no_item);
                zstdItem = (if \<not> it_present zstdItem \<and> it_present starItem
                            then \<lparr>it_q = it_q starItem, it_present = True\<rparr> else zstdItem);
                gzipItem = (if \<not> it_present gzipItem \<and> it_present starItem
                            then \<lparr>it_q = it_q starItem, it_present = True\<rparr> else gzipItem)
            in if wanted zstdItem \<and> wanted gzipItem
               then (if f64_le (it_q gzipItem) (it_q zstdItem) then EncodingZstd else EncodingGzip)
               else if wanted zstdItem then EncodingZstd
               else if wanted gzipItem then EncodingGzip
               else EncodingNone))"

section \<open>Codecs\<close>

text \<open>
  A codec: the state of a fresh encoder, what it emits when it is given bytes, flushed or closed, what the
  client decodes from a whole body, and what it can decode from a body that is still arriving.
\<close>

record 's codec =
  cd_new :: 's
  cd_write :: "bytes \<Rightarrow> 's \<Rightarrow> 's \<times> bytes"
  cd_flush :: "'s \<Rightarrow> 's \<times> bytes"
  cd_close :: "'s \<Rightarrow> bytes"
  cd_decode :: "bytes \<Rightarrow> bytes option"
  cd_partial :: "bytes \<Rightarrow> bytes"

section \<open>The compressing writer\<close>

text \<open>An encoder in use is its state and whether its output has failed.\<close>

record 's compress_writer =
  rw_base :: http_writer
  rw_encoding :: encoding
  rw_wroteHeader :: bool
  rw_statusCode :: int
  rw_gzipWriter :: "('s \<times> bool) option"
  rw_zstdEncoder :: "('s \<times> bool) option"
  rw_written :: int
  rw_uncompressedBytes :: int
  rw_metrics :: "stream_metrics option"
  rw_recordedMetrics :: bool
  rw_closed :: bool

definition WrapResponseWriter :: "http_writer \<Rightarrow> header \<Rightarrow> stream_metrics option \<Rightarrow> 's compress_writer" where
  "WrapResponseWriter w reqHeader mr =
     (let enc = SelectEncoding (header_get reqHeader ''Accept-Encoding'');
          enc = (if header_get reqHeader ''Range'' \<noteq> [] then EncodingNone else enc)
      in \<lparr>rw_base = w, rw_encoding = enc, rw_wroteHeader = False, rw_statusCode = 0, rw_gzipWriter = None,
          rw_zstdEncoder = None, rw_written = 0, rw_uncompressedBytes = 0, rw_metrics = mr,
          rw_recordedMetrics = False, rw_closed = False\<rparr>)"

definition SelectedEncoding :: "'s compress_writer \<Rightarrow> encoding" where
  "SelectedEncoding rw = rw_encoding rw"

definition compressed_header :: "encoding \<Rightarrow> header \<Rightarrow> header" where
  "compressed_header enc h =
     header_add ''Vary'' ''Accept-Encoding''
       (header_set ''Content-Encoding'' (encoding_name enc) (header_del ''Content-Length'' h))"

definition WriteHeader :: "(encoding \<Rightarrow> 's codec) \<Rightarrow> int \<Rightarrow> 's compress_writer \<Rightarrow> 's compress_writer" where
  "WriteHeader cs status rw =
     (if rw_wroteHeader rw then rw
      else (let rw = rw\<lparr>rw_wroteHeader := True, rw_statusCode := status\<rparr>
            in if rw_encoding rw = EncodingNone \<or> status = 204 \<or> status = 304 \<or> 100 \<le> status \<and> status < 200
                  \<or> header_get (hw_header (rw_base rw)) ''Content-Encoding'' \<noteq> []
               then rw\<lparr>rw_encoding := EncodingNone, rw_base := hw_WriteHeader status (rw_base rw)\<rparr>
               else (let rw = rw\<lparr>rw_base := (rw_base rw)
                                  \<lparr>hw_header := compressed_header (rw_encoding rw) (hw_header (rw_base rw))\<rparr>\<rparr>;
                         rw = (case rw_encoding rw of
                                 EncodingZstd \<Rightarrow> rw\<lparr>rw_zstdEncoder := Some (cd_new (cs EncodingZstd), False)\<rparr>
                               | EncodingGzip \<Rightarrow> rw\<lparr>rw_gzipWriter := Some (cd_new (cs EncodingGzip), False)\<rparr>
                               | EncodingNone \<Rightarrow> rw)
                     in rw\<lparr>rw_base := hw_WriteHeader status (rw_base rw)\<rparr>)))"

text \<open>\<open>byteCounter.Write\<close>; encoders write only what they have.\<close>

definition byteCounter_Write :: "bytes \<Rightarrow> 's compress_writer \<Rightarrow> 's compress_writer \<times> bool" where
  "byteCounter_Write p rw =
     (let (w, n, ok) = hw_Write p (rw_base rw)
      in (rw\<lparr>rw_base := w, rw_written := wrap64 (rw_written rw + int n)\<rparr>, ok))"

definition emit :: "bytes \<Rightarrow> 's compress_writer \<Rightarrow> 's compress_writer \<times> bool" where
  "emit out rw = (if out = [] then (rw, True) else byteCounter_Write out rw)"

text \<open>The encoder takes a step that emits \<open>out\<close>, unless it has failed before.\<close>

definition encoder_step :: "('s \<Rightarrow> 's \<times> bytes) \<Rightarrow> 's \<times> bool \<Rightarrow> 's compress_writer
    \<Rightarrow> ('s \<times> bool) \<times> 's compress_writer \<times> bool" where
  "encoder_step f enc rw =
     (if snd enc then (enc, rw, False)
      else (let (s, out) = f (fst enc); (rw, ok) = emit out rw in ((s, \<not> ok), rw, ok)))"

definition ensure_header :: "(encoding \<Rightarrow> 's codec) \<Rightarrow> 's compress_writer \<Rightarrow> 's compress_writer" where
  "ensure_header cs rw = (if \<not> rw_wroteHeader rw then WriteHeader cs 200 rw else rw)"

text \<open>
  \<open>Write\<close>: \<open>None\<close> is the nil dereference after \<open>Close\<close>; the flag says that there was no error (no caller
  uses the count).
\<close>

definition Write :: "(encoding \<Rightarrow> 's codec) \<Rightarrow> bytes \<Rightarrow> 's compress_writer \<Rightarrow> ('s compress_writer \<times> bool) option" where
  "Write cs p rw =
     (let rw = ensure_header cs rw;
          counted = rw\<lparr>rw_uncompressedBytes := wrap64 (rw_uncompressedBytes rw + int (length p))\<rparr>
      in case rw_encoding rw of
           EncodingZstd \<Rightarrow>
             (case rw_zstdEncoder rw of
                None \<Rightarrow> None
              | Some enc \<Rightarrow>
                  (let (enc, rw, ok) = encoder_step (cd_write (cs EncodingZstd) p) enc counted
                   in Some (rw\<lparr>rw_zstdEncoder := Some enc\<rparr>, ok)))
         | EncodingGzip \<Rightarrow>
             (case rw_gzipWriter rw of
                None \<Rightarrow> None
              | Some enc \<Rightarrow>
                  (let (enc, rw, ok) = encoder_step (cd_write (cs EncodingGzip) p) enc counted
                   in Some (rw\<lparr>rw_gzipWriter := Some enc\<rparr>, ok)))
         | EncodingNone \<Rightarrow> (let (w, n, ok) = hw_Write p (rw_base rw) in Some (rw\<lparr>rw_base := w\<rparr>, ok)))"

definition Flush :: "(encoding \<Rightarrow> 's codec) \<Rightarrow> 's compress_writer \<Rightarrow> 's compress_writer" where
  "Flush cs rw =
     (let rw = ensure_header cs rw;
          rw = (case rw_encoding rw of
                  EncodingZstd \<Rightarrow>
                    (case rw_zstdEncoder rw of
                       Some enc \<Rightarrow>
                         (let (enc, rw, ok) = encoder_step (cd_flush (cs EncodingZstd)) enc rw
                          in rw\<lparr>rw_zstdEncoder := Some enc\<rparr>)
                     | None \<Rightarrow> rw)
                | EncodingGzip \<Rightarrow>
                    (case rw_gzipWriter rw of
                       Some enc \<Rightarrow>
                         (let (enc, rw, ok) = encoder_step (cd_flush (cs EncodingGzip)) enc rw
                          in rw\<lparr>rw_gzipWriter := Some enc\<rparr>)
                     | None \<Rightarrow> rw)
                | EncodingNone \<Rightarrow> rw)
      in rw\<lparr>rw_base := hw_Flush (rw_base rw)\<rparr>)"

text \<open>\<open>Close\<close>, with whether it returned no error.\<close>

definition close_encoder :: "'s codec \<Rightarrow> 's \<times> bool \<Rightarrow> 's compress_writer \<Rightarrow> 's compress_writer \<times> bool" where
  "close_encoder c enc rw = snd (encoder_step (\<lambda>s. (s, cd_close c s)) enc rw)"

definition record_compression :: "'s compress_writer \<Rightarrow> 's compress_writer" where
  "record_compression rw =
     (case rw_metrics rw of
        Some m \<Rightarrow>
          if \<not> rw_recordedMetrics rw \<and> rw_encoding rw \<noteq> EncodingNone
          then rw\<lparr>rw_recordedMetrics := True,
                  rw_metrics := Some (AddCompressionBytes (rw_uncompressedBytes rw) (rw_written rw) m)\<rparr>
          else rw
      | None \<Rightarrow> rw)"

definition Close_writer :: "(encoding \<Rightarrow> 's codec) \<Rightarrow> 's compress_writer \<Rightarrow> 's compress_writer \<times> bool" where
  "Close_writer cs rw =
     (if rw_closed rw then (rw, True)
      else (let rw = rw\<lparr>rw_closed := True\<rparr>
            in if \<not> rw_wroteHeader rw then (rw, True)
               else (let (rw, ok) =
                           (case rw_encoding rw of
                              EncodingZstd \<Rightarrow>
                                (case rw_zstdEncoder rw of
                                   Some enc \<Rightarrow>
                                     (let (rw, ok) = close_encoder (cs EncodingZstd) enc rw
                                      in (rw\<lparr>rw_zstdEncoder := None\<rparr>, ok))
                                 | None \<Rightarrow> (rw, True))
                            | EncodingGzip \<Rightarrow>
                                (case rw_gzipWriter rw of
                                   Some enc \<Rightarrow>
                                     (let (rw, ok) = close_encoder (cs EncodingGzip) enc rw
                                      in (rw\<lparr>rw_gzipWriter := None\<rparr>, ok))
                                 | None \<Rightarrow> (rw, True))
                            | EncodingNone \<Rightarrow> (rw, True));
                         rw = record_compression rw
                     in (rw\<lparr>rw_base := hw_Flush (rw_base rw)\<rparr>, ok))))"

end
