(* ===== verification/Compress_Laws.thy ===== *)
theory Compress_Laws
  imports Compress
begin

text \<open>
  What \<open>SelectEncoding\<close> chooses, and that a compressing writer is a plain writer seen through the codec:
  the status, the header up to the three compression fields, the body and what has been flushed agree.
\<close>

section \<open>The chosen encoding\<close>

text \<open>
  The weight of a coding in an \<open>Accept-Encoding\<close> header: the last part that names it decides, or else the
  last \<open>*\<close>.
\<close>

definition offers :: "bytes \<Rightarrow> (bytes \<times> float64) list" where
  "offers h = map parse_part (filter (\<lambda>p. p \<noteq> []) (map trim_space (split_on (CHR '','') h)))"

definition weight :: "bytes \<Rightarrow> bytes \<Rightarrow> float64 option" where
  "weight h coding =
     (case map_of (rev (offers h)) coding of Some q \<Rightarrow> Some q | None \<Rightarrow> map_of (rev (offers h)) ''*'')"

definition acceptable :: "bytes \<Rightarrow> bytes \<Rightarrow> bool" where
  "acceptable h coding \<longleftrightarrow> (case weight h coding of Some q \<Rightarrow> f64_less f64_zero q | None \<Rightarrow> False)"

definition named_item :: "(bytes \<times> float64) list \<Rightarrow> bytes \<Rightarrow> item" where
  "named_item os coding =
     (case map_of (rev os) coding of Some q \<Rightarrow> \<lparr>it_q = q, it_present = True\<rparr> | None \<Rightarrow> no_item)"

lemma named_item_simps [simp]:
  "named_item [] c = no_item"
  "named_item (os @ [(d, q)]) c = (if c = d then \<lparr>it_q = q, it_present = True\<rparr> else named_item os c)"
  by (auto simp: named_item_def)

lemma fold_select_part:
  "fold select_part ps (no_item, no_item, no_item) =
     (let os = map parse_part (filter (\<lambda>p. p \<noteq> []) (map trim_space ps))
      in (named_item os ''zstd'', named_item os ''gzip'', named_item os ''*''))"
proof (induction ps rule: rev_induct)
  case (snoc p ps)
  obtain c q where "parse_part (trim_space p) = (c, q)"
    by fastforce
  with snoc show ?case
    by (auto simp: select_part_def Let_def)
qed simp

lemma wanted_named_item:
  "wanted (named_item os c) \<longleftrightarrow> (case map_of (rev os) c of Some q \<Rightarrow> f64_less f64_zero q | None \<Rightarrow> False)"
  "it_present (named_item os c) \<longleftrightarrow> map_of (rev os) c \<noteq> None"
  by (auto simp: wanted_def named_item_def no_item_def split: option.splits)

lemma f64_less_le: "f64_less f64_zero q \<Longrightarrow> f64_le q q"
  by (cases q) (auto simp: f64_le_def f64_zero_def)


section \<open>Contract of a codec\<close>

text \<open>What an encoder is asked to do, and what it has done after a sequence of requests.\<close>

datatype request = CWrite bytes | CFlush

fun cd_request :: "'s codec \<Rightarrow> request \<Rightarrow> 's \<Rightarrow> 's \<times> bytes" where
  "cd_request c (CWrite p) s = cd_write c p s"
| "cd_request c CFlush s = cd_flush c s"

definition cd_run :: "'s codec \<Rightarrow> request list \<Rightarrow> 's \<times> bytes" where
  "cd_run c rs =
     fold (\<lambda>r (s, out). let (s, more) = cd_request c r s in (s, out @ more)) rs (cd_new c, [])"

fun given :: "request \<Rightarrow> bytes" where
  "given (CWrite p) = p"
| "given CFlush = []"

text \<open>
  The documented behaviour the writer relies on: a closed body decodes to the bytes written, and after a
  flush the body so far decodes to the bytes written so far.
\<close>

definition codec_ok :: "'s codec \<Rightarrow> bool" where
  "codec_ok c \<longleftrightarrow>
     (\<forall>rs. cd_decode c (snd (cd_run c rs) @ cd_close c (fst (cd_run c rs))) = Some (concat (map given rs))) \<and>
     (\<forall>rs. cd_partial c (snd (cd_run c (rs @ [CFlush]))) = concat (map given rs))"

lemma cd_run_simps:
  "cd_run c [] = (cd_new c, [])"
  "cd_run c (rs @ [r]) = (let (s, more) = cd_request c r (fst (cd_run c rs)) in (s, snd (cd_run c rs) @ more))"
  by (auto simp: cd_run_def split: prod.split)

section \<open>Handlers on both writers\<close>

text \<open>What a handler does with its \<open>ResponseWriter\<close>.\<close>

datatype response_op = OpHeader "header \<Rightarrow> header" | OpWriteHeader int | OpWrite bytes | OpFlush

fun plain_op :: "response_op \<Rightarrow> http_writer \<Rightarrow> http_writer" where
  "plain_op (OpHeader f) w = w\<lparr>hw_header := f (hw_header w)\<rparr>"
| "plain_op (OpWriteHeader s) w = hw_WriteHeader s w"
| "plain_op (OpWrite p) w = fst (hw_Write p w)"
| "plain_op OpFlush w = hw_Flush w"

fun coded_op :: "(encoding \<Rightarrow> 's codec) \<Rightarrow> response_op \<Rightarrow> 's compress_writer \<Rightarrow> 's compress_writer option" where
  "coded_op cs (OpHeader f) rw = Some (rw\<lparr>rw_base := (rw_base rw)\<lparr>hw_header := f (hw_header (rw_base rw))\<rparr>\<rparr>)"
| "coded_op cs (OpWriteHeader s) rw = Some (WriteHeader cs s rw)"
| "coded_op cs (OpWrite p) rw = map_option fst (Write cs p rw)"
| "coded_op cs OpFlush rw = Some (Flush cs rw)"

definition plain_run :: "response_op list \<Rightarrow> http_writer" where
  "plain_run os = fold plain_op os (new_writer None)"

fun coded_from :: "(encoding \<Rightarrow> 's codec) \<Rightarrow> response_op list \<Rightarrow> 's compress_writer \<Rightarrow> 's compress_writer option" where
  "coded_from cs [] rw = Some rw"
| "coded_from cs (o' # os) rw = (case coded_op cs o' rw of None \<Rightarrow> None | Some rw \<Rightarrow> coded_from cs os rw)"

definition coded_run :: "(encoding \<Rightarrow> 's codec) \<Rightarrow> header \<Rightarrow> stream_metrics option \<Rightarrow> response_op list
    \<Rightarrow> 's compress_writer option" where
  "coded_run cs req mr os = coded_from cs os (WrapResponseWriter (new_writer None) req mr)"

fun op_final :: "response_op \<Rightarrow> bool" where
  "op_final (OpWriteHeader s) \<longleftrightarrow> \<not> (100 \<le> s \<and> s < 200)"
| "op_final _ \<longleftrightarrow> True"

section \<open>A coded response follows the plain one\<close>

fun encoder :: "'s compress_writer \<Rightarrow> encoding \<Rightarrow> ('s \<times> bool) option" where
  "encoder rw EncodingZstd = rw_zstdEncoder rw"
| "encoder rw EncodingGzip = rw_gzipWriter rw"
| "encoder rw EncodingNone = None"

text \<open>The chosen encoding is given up when the response has no body or is already encoded.\<close>

definition effective :: "encoding \<Rightarrow> http_writer \<Rightarrow> encoding" where
  "effective enc w =
     (case hw_status w of
        None \<Rightarrow> enc
      | Some s \<Rightarrow> if body_allowed s \<and> header_get (hw_sent w) ''Content-Encoding'' = [] then enc else EncodingNone)"

lemma encoder_base [simp]: "encoder (rw\<lparr>rw_base := b\<rparr>) enc = encoder rw enc"
  by (cases enc) auto

definition is_open :: "stream_metrics option \<Rightarrow> 's compress_writer \<Rightarrow> http_writer \<Rightarrow> bool" where
  "is_open mr rw w \<longleftrightarrow> \<not> rw_closed rw \<and> \<not> rw_recordedMetrics rw \<and> rw_metrics rw = mr \<and> hw_room w = None"

definition unsent :: "'s compress_writer \<Rightarrow> http_writer \<Rightarrow> bool" where
  "unsent rw w \<longleftrightarrow> \<not> rw_wroteHeader rw \<and> rw_base rw = w \<and> hw_status w = None \<and> hw_body w = [] \<and>
     hw_room w = None \<and> rw_written rw = 0 \<and> rw_uncompressedBytes rw = 0"

definition passed_on :: "'s compress_writer \<Rightarrow> http_writer \<Rightarrow> bool" where
  "passed_on rw w \<longleftrightarrow> rw_wroteHeader rw \<and> rw_encoding rw = EncodingNone \<and> rw_base rw = w \<and> hw_status w \<noteq> None"

definition coded_as :: "(encoding \<Rightarrow> 's codec) \<Rightarrow> encoding \<Rightarrow> request list \<Rightarrow> 's compress_writer \<Rightarrow> http_writer \<Rightarrow> bool" where
  "coded_as cs enc rs rw w \<longleftrightarrow>
     enc \<noteq> EncodingNone \<and> rw_wroteHeader rw \<and> rw_encoding rw = enc \<and>
     encoder rw enc = Some (fst (cd_run (cs enc) rs), False) \<and>
     hw_body (rw_base rw) = snd (cd_run (cs enc) rs) \<and> hw_body w = concat (map given rs) \<and>
     hw_room (rw_base rw) = None \<and> hw_status (rw_base rw) = hw_status w \<and>
     (\<exists>s. hw_status w = Some s \<and> body_allowed s) \<and> hw_sent (rw_base rw) = compressed_header enc (hw_sent w) \<and>
     rw_written rw = wrap64 (int (length (hw_body (rw_base rw)))) \<and>
     rw_uncompressedBytes rw = wrap64 (int (length (hw_body w)))"

definition follows :: "(encoding \<Rightarrow> 's codec) \<Rightarrow> encoding \<Rightarrow> stream_metrics option \<Rightarrow> 's compress_writer \<Rightarrow> http_writer \<Rightarrow> bool" where
  "follows cs enc0 mr rw w \<longleftrightarrow> is_open mr rw w \<and> rw_encoding rw = effective enc0 w \<and>
     (unsent rw w \<or> passed_on rw w \<or> (\<exists>enc rs. coded_as cs enc rs rw w))"

lemma emit_all:
  assumes "hw_room (rw_base rw) = None" "hw_status (rw_base rw) = Some s" "body_allowed s"
    "rw_written rw = wrap64 (int (length (hw_body (rw_base rw))))"
  shows "emit out rw =
    (rw\<lparr>rw_base := (rw_base rw)\<lparr>hw_body := hw_body (rw_base rw) @ out\<rparr>,
        rw_written := wrap64 (int (length (hw_body (rw_base rw) @ out)))\<rparr>, True)"
  using assms by (auto simp: emit_def byteCounter_Write_def hw_Write_def hw_begin_def Let_def wrap64_add)

lemma coded_step:
  assumes "coded_as cs enc rs rw w" "encoder rw enc = Some e"
  shows "encoder_step (cd_request (cs enc) r) e (rw\<lparr>rw_uncompressedBytes := u\<rparr>) =
    ((fst (cd_run (cs enc) (rs @ [r])), False),
     rw\<lparr>rw_base := (rw_base rw)\<lparr>hw_body := snd (cd_run (cs enc) (rs @ [r]))\<rparr>,
        rw_written := wrap64 (int (length (snd (cd_run (cs enc) (rs @ [r]))))),
        rw_uncompressedBytes := u\<rparr>, True)"
  using assms
  by (auto simp: coded_as_def encoder_step_def cd_run_simps emit_all Let_def split: prod.split)

lemma follows_cases [consumes 1, case_names unsent passed_on coded_as]:
  assumes "follows cs enc0 mr rw w"
  obtains "unsent rw w" | "passed_on rw w" | enc rs where "coded_as cs enc rs rw w"
  using assms by (auto simp: follows_def)

lemma unsent_WriteHeader:
  assumes "unsent rw w" "follows cs enc0 mr rw w" "op_final (OpWriteHeader s)"
  shows "follows cs enc0 mr (WriteHeader cs s rw) (hw_WriteHeader s w)" "rw_wroteHeader (WriteHeader cs s rw)"
proof -
  have "passed_on (WriteHeader cs s rw) (hw_WriteHeader s w) \<or>
    coded_as cs (rw_encoding rw) [] (WriteHeader cs s rw) (hw_WriteHeader s w)"
    using assms
    by (cases "rw_encoding rw")
       (auto simp: unsent_def passed_on_def coded_as_def WriteHeader_def hw_WriteHeader_def cd_run_simps
          body_allowed_def Let_def)
  moreover have "is_open mr (WriteHeader cs s rw) (hw_WriteHeader s w)"
    using assms by (auto simp: follows_def is_open_def WriteHeader_def hw_WriteHeader_def Let_def split: encoding.split)
  moreover have "rw_encoding (WriteHeader cs s rw) = effective enc0 (hw_WriteHeader s w)"
    using assms
    by (cases enc0) (auto simp: follows_def unsent_def effective_def WriteHeader_def hw_WriteHeader_def body_allowed_def
        Let_def)
  ultimately show "follows cs enc0 mr (WriteHeader cs s rw) (hw_WriteHeader s w)"
    by (auto simp: follows_def)
  show "rw_wroteHeader (WriteHeader cs s rw)"
    by (auto simp: WriteHeader_def Let_def split: encoding.split)
qed

lemma follows_ensure_header:
  assumes "follows cs enc0 mr rw w"
  shows "follows cs enc0 mr (ensure_header cs rw) (hw_begin w)" "rw_wroteHeader (ensure_header cs rw)"
  using assms
  by (cases rule: follows_cases;
      auto simp: ensure_header_def hw_begin_def unsent_WriteHeader unsent_def passed_on_def coded_as_def)+

lemma follows_wrote [consumes 2, case_names passed_on coded_as]:
  assumes "follows cs enc0 mr rw w" "rw_wroteHeader rw"
  obtains "passed_on rw w" | enc rs where "coded_as cs enc rs rw w"
  using assms by (auto simp: follows_def unsent_def)

lemma hw_begin_again [simp]: "hw_begin (hw_begin w) = hw_begin w" "hw_status w \<noteq> None \<Longrightarrow> hw_begin w = w"
  by (auto simp: hw_begin_def hw_WriteHeader_def)

lemma hw_ops_begin: "hw_Write p w = hw_Write p (hw_begin w)" "hw_Flush w = hw_Flush (hw_begin w)"
  by (simp_all add: hw_Write_def hw_Flush_def)

lemma Write_ensured:
  "Write cs p rw = Write cs p (ensure_header cs rw)" "Flush cs rw = Flush cs (ensure_header cs rw)"
  by (simp_all add: Write_def Flush_def ensure_header_def WriteHeader_def Let_def split: encoding.split)

lemma effective_ops [simp]:
  "effective enc (w\<lparr>hw_body := b\<rparr>) = effective enc w" "effective enc (w\<lparr>hw_flushed := n\<rparr>) = effective enc w"
  by (simp_all add: effective_def split: option.split)

lemma requests: "cd_write c p = cd_request c (CWrite p)" "cd_flush c = cd_request c CFlush"
  by auto

lemmas coded_write = coded_step [of _ _ _ _ _ _ "CWrite p" for p, folded requests]
lemmas coded_flush = coded_step [of _ _ _ _ _ _ CFlush "rw_uncompressedBytes rw" for rw, folded requests]

lemma follows_written:
  assumes "follows cs enc0 mr rw w" "rw_wroteHeader rw"
  shows "\<exists>rw'. map_option fst (Write cs p rw) = Some rw' \<and> follows cs enc0 mr rw' (fst (hw_Write p w))"
  using assms
proof (cases rule: follows_wrote)
  case passed_on
  with assms show ?thesis
    by (cases "hw_room w")
       (auto simp: follows_def passed_on_def is_open_def Write_def ensure_header_def hw_Write_def Let_def)
next
  case (coded_as enc rs)
  then obtain e where e: "encoder rw enc = Some e"
    by (auto simp: coded_as_def)
  have "coded_as cs enc (rs @ [CWrite p]) (fst (the (Write cs p rw))) (fst (hw_Write p w))
      \<and> Write cs p rw \<noteq> None \<and> is_open mr (fst (the (Write cs p rw))) (fst (hw_Write p w))
      \<and> effective enc0 (fst (hw_Write p w)) = effective enc0 w"
    using coded_as assms(1) coded_write [OF coded_as e, of p] e
    by (cases enc)
       (auto simp: coded_as_def follows_def is_open_def Write_def ensure_header_def hw_Write_def
          wrap64_add Let_def split: prod.splits)
  with coded_as assms(1) show ?thesis
    by (cases "Write cs p rw") (auto simp: follows_def coded_as_def)
qed

lemma follows_flushed:
  assumes "follows cs enc0 mr rw w" "rw_wroteHeader rw"
  shows "follows cs enc0 mr (Flush cs rw) (hw_Flush w)"
    "hw_flushed (rw_base (Flush cs rw)) = length (hw_body (rw_base (Flush cs rw)))"
    "rw_encoding rw = EncodingNone \<Longrightarrow> rw_base (Flush cs rw) = hw_Flush w"
    "rw_encoding rw \<noteq> EncodingNone \<Longrightarrow> \<exists>rs. coded_as cs (rw_encoding rw) (rs @ [CFlush]) (Flush cs rw) (hw_Flush w)"
proof -
  note * = follows_def is_open_def Flush_def ensure_header_def hw_Flush_def Let_def
  have "follows cs enc0 mr (Flush cs rw) (hw_Flush w) \<and>
    hw_flushed (rw_base (Flush cs rw)) = length (hw_body (rw_base (Flush cs rw))) \<and>
    (rw_encoding rw = EncodingNone \<longrightarrow> rw_base (Flush cs rw) = hw_Flush w) \<and>
    (rw_encoding rw \<noteq> EncodingNone \<longrightarrow> (\<exists>rs. coded_as cs (rw_encoding rw) (rs @ [CFlush]) (Flush cs rw) (hw_Flush w)))"
    using assms
  proof (cases rule: follows_wrote)
    case passed_on
    with assms show ?thesis
      by (auto simp: * passed_on_def)
  next
    case (coded_as enc rs)
    then obtain e where e: "encoder rw enc = Some e"
      by (auto simp: coded_as_def)
    note step = coded_flush [OF coded_as e, of rw]
    define base where "base = (rw_base rw)\<lparr>hw_body := snd (cd_run (cs enc) (rs @ [CFlush]))\<rparr>"
    define rw' where "rw' = rw\<lparr>rw_base := base\<lparr>hw_flushed := length (hw_body base)\<rparr>,
      rw_written := wrap64 (int (length (hw_body base)))\<rparr>"
    have known: "rw_wroteHeader rw" "rw_encoding rw = enc" "hw_status base \<noteq> None"
      using coded_as by (auto simp: coded_as_def base_def)
    have flush: "Flush cs rw = (case enc of
        EncodingZstd \<Rightarrow> rw'\<lparr>rw_zstdEncoder := Some (fst (cd_run (cs enc) (rs @ [CFlush])), False)\<rparr>
      | EncodingGzip \<Rightarrow> rw'\<lparr>rw_gzipWriter := Some (fst (cd_run (cs enc) (rs @ [CFlush])), False)\<rparr>
      | EncodingNone \<Rightarrow> Flush cs rw)"
      using known e step
      by (cases enc) (simp_all add: Flush_def ensure_header_def hw_Flush_def rw'_def base_def Let_def)
    have plain: "hw_Flush w = w\<lparr>hw_flushed := length (hw_body w)\<rparr>"
      using coded_as by (auto simp: hw_Flush_def Let_def coded_as_def)
    have "coded_as cs enc (rs @ [CFlush]) (Flush cs rw) (hw_Flush w) \<and> is_open mr (Flush cs rw) (hw_Flush w)
      \<and> effective enc0 (hw_Flush w) = effective enc0 w \<and>
      hw_flushed (rw_base (Flush cs rw)) = length (hw_body (rw_base (Flush cs rw)))"
      unfolding plain using coded_as assms(1) flush
      by (cases enc) (simp_all add: coded_as_def follows_def is_open_def rw'_def base_def)
    moreover have "rw_encoding rw = enc" "enc \<noteq> EncodingNone" "rw_encoding (Flush cs rw) = enc"
      using coded_as calculation by (auto simp: coded_as_def)
    ultimately show ?thesis
      using assms(1) by (auto simp: follows_def)
  qed
  then show "follows cs enc0 mr (Flush cs rw) (hw_Flush w)"
    "hw_flushed (rw_base (Flush cs rw)) = length (hw_body (rw_base (Flush cs rw)))"
    "rw_encoding rw = EncodingNone \<Longrightarrow> rw_base (Flush cs rw) = hw_Flush w"
    "rw_encoding rw \<noteq> EncodingNone \<Longrightarrow> \<exists>rs. coded_as cs (rw_encoding rw) (rs @ [CFlush]) (Flush cs rw) (hw_Flush w)"
    by auto
qed

lemma follows_op:
  assumes "follows cs enc0 mr rw w" "op_final o'"
  shows "\<exists>rw'. coded_op cs o' rw = Some rw' \<and> follows cs enc0 mr rw' (plain_op o' w)"
proof (cases o')
  case (OpHeader f)
  with assms(1) show ?thesis
    by (cases rule: follows_cases [OF assms(1)])
       (auto simp: follows_def is_open_def unsent_def passed_on_def coded_as_def effective_def)
next
  case (OpWriteHeader s)
  have again: "rw_wroteHeader rw \<Longrightarrow> WriteHeader cs s rw = rw" "hw_status w \<noteq> None \<Longrightarrow> hw_WriteHeader s w = w"
    by (auto simp: WriteHeader_def hw_WriteHeader_def)
  show ?thesis
    using assms(1)
  proof (cases rule: follows_cases)
    case unsent
    with unsent_WriteHeader(1) [OF unsent assms(1), of s] assms(2) OpWriteHeader show ?thesis
      by simp
  qed (use assms(1) OpWriteHeader again in \<open>auto simp: passed_on_def coded_as_def\<close>)
next
  case (OpWrite p)
  then show ?thesis
    using follows_written [OF follows_ensure_header [OF assms(1), of]] Write_ensured(1) [of cs p rw]
      hw_ops_begin(1) [of p w]
    by simp
next
  case OpFlush
  then show ?thesis
    using follows_flushed(1) [OF follows_ensure_header [OF assms(1), of]] Write_ensured(2) [of cs rw]
      hw_ops_begin(2) [of w]
    by simp
qed

lemma follows_run:
  assumes "follows cs enc0 mr rw w" "list_all op_final os"
  shows "\<exists>rw'. coded_from cs os rw = Some rw' \<and> follows cs enc0 mr rw' (fold plain_op os w)"
  using assms
proof (induction os arbitrary: rw w)
  case (Cons o' os)
  then show ?case
    using follows_op [of cs enc0 mr rw w o'] by fastforce
qed simp

text \<open>What the request asks for.\<close>

definition requested :: "header \<Rightarrow> encoding" where
  "requested req =
     (if header_get req ''Range'' \<noteq> [] then EncodingNone else SelectEncoding (header_get req ''Accept-Encoding''))"

lemma follows_new: "follows cs (requested req) mr (WrapResponseWriter (new_writer None) req mr) (new_writer None)"
  by (simp add: follows_def is_open_def unsent_def effective_def WrapResponseWriter_def new_writer_def requested_def Let_def)

lemma coded_run_follows:
  assumes "list_all op_final os"
  shows "\<exists>rw. coded_run cs req mr os = Some rw \<and> follows cs (requested req) mr rw (plain_run os)"
  unfolding coded_run_def plain_run_def by (rule follows_run [OF follows_new assms])

lemma close_coded:
  assumes "coded_as cs enc rs rw w" "encoder rw enc = Some e"
  shows "close_encoder (cs enc) e rw =
    (rw\<lparr>rw_base := (rw_base rw)\<lparr>hw_body := hw_body (rw_base rw) @ cd_close (cs enc) (fst e)\<rparr>,
        rw_written := wrap64 (int (length (hw_body (rw_base rw) @ cd_close (cs enc) (fst e))))\<rparr>, True)"
  using assms
  by (auto simp: coded_as_def close_encoder_def encoder_step_def emit_all Let_def split: prod.split)

definition agrees :: "(encoding \<Rightarrow> 's codec) \<Rightarrow> encoding \<Rightarrow> stream_metrics option \<Rightarrow> 's compress_writer \<times> bool
    \<Rightarrow> http_writer \<Rightarrow> bool" where
  "agrees cs enc mr result w \<longleftrightarrow>
     (case result of (rw, ok) \<Rightarrow>
        let out = rw_base rw
        in ok \<and> rw_encoding rw = enc \<and> hw_status out = hw_status w \<and>
           (if hw_status w = None \<or> enc = EncodingNone
            then hw_body out = hw_body w \<and> hw_sent out = hw_sent w \<and> rw_metrics rw = mr
            else cd_decode (cs enc) (hw_body out) = Some (hw_body w) \<and>
                 hw_sent out = compressed_header enc (hw_sent w) \<and>
                 rw_metrics rw = map_option (AddCompressionBytes (wrap64 (int (length (hw_body w))))
                                               (wrap64 (int (length (hw_body out))))) mr) \<and>
           (hw_status w \<noteq> None \<longrightarrow> hw_flushed out = length (hw_body out)))"

lemma follows_close:
  assumes "follows cs enc0 mr rw w" "\<And>enc. enc \<noteq> EncodingNone \<Longrightarrow> codec_ok (cs enc)"
  shows "agrees cs (effective enc0 w) mr (Close_writer cs rw) w"
  using assms(1)
proof (cases rule: follows_cases)
  case unsent
  with assms(1) show ?thesis
    by (auto simp: agrees_def Close_writer_def follows_def is_open_def unsent_def Let_def)
next
  case passed_on
  with assms(1) show ?thesis
    by (auto simp: agrees_def Close_writer_def follows_def is_open_def passed_on_def hw_Flush_def record_compression_def
        Let_def split: option.split)
next
  case (coded_as enc rs)
  then obtain e where e: "encoder rw enc = Some e"
    by (auto simp: coded_as_def)
  have open': "coded_as cs enc rs (rw\<lparr>rw_closed := True\<rparr>) w" "encoder (rw\<lparr>rw_closed := True\<rparr>) enc = Some e"
    using coded_as e by (cases enc; simp add: coded_as_def)+
  have dec: "cd_decode (cs enc) (snd (cd_run (cs enc) rs) @ cd_close (cs enc) (fst (cd_run (cs enc) rs))) =
      Some (concat (map given rs))"
    using assms(2) coded_as by (auto simp: coded_as_def codec_ok_def)
  define body where "body = hw_body (rw_base rw) @ cd_close (cs enc) (fst e)"
  define base where "base = (rw_base rw)\<lparr>hw_body := body, hw_flushed := length body\<rparr>"
  define rw' where "rw' = rw\<lparr>rw_base := base, rw_written := wrap64 (int (length body)), rw_closed := True,
    rw_recordedMetrics := rw_metrics rw \<noteq> None,
    rw_metrics := map_option (AddCompressionBytes (rw_uncompressedBytes rw) (wrap64 (int (length body)))) (rw_metrics rw)\<rparr>"
  have known: "rw_wroteHeader rw" "rw_encoding rw = enc" "hw_status (rw_base rw) \<noteq> None" "\<not> rw_closed rw"
    "\<not> rw_recordedMetrics rw" "enc \<noteq> EncodingNone"
    using coded_as assms(1) by (auto simp: coded_as_def follows_def is_open_def)
  have "Close_writer cs rw = (case enc of
      EncodingZstd \<Rightarrow> rw'\<lparr>rw_zstdEncoder := None\<rparr>
    | EncodingGzip \<Rightarrow> rw'\<lparr>rw_gzipWriter := None\<rparr>
    | EncodingNone \<Rightarrow> rw, True)"
    using known open'(2) close_coded [OF open']
    by (cases enc; cases "rw_metrics rw")
       (simp_all add: Close_writer_def hw_Flush_def record_compression_def rw'_def base_def body_def Let_def)
  then show ?thesis
    using coded_as known dec assms(1) e
    by (cases enc) (auto simp: agrees_def coded_as_def follows_def is_open_def rw'_def base_def body_def Let_def)
qed

text \<open>A codec that holds back what it is given until it is flushed, and ends a body with a mark.\<close>

definition holding_codec :: "bytes codec" where
  "holding_codec = \<lparr>cd_new = [], cd_write = (\<lambda>p s. (s @ p, [])), cd_flush = (\<lambda>s. ([], s)), cd_close = (\<lambda>s. s @ ''.''),
     cd_decode = (\<lambda>b. if b = [] then None else Some (butlast b)), cd_partial = (\<lambda>b. b)\<rparr>"

lemma holding_run:
  "snd (cd_run holding_codec rs) @ fst (cd_run holding_codec rs) = concat (map given rs)"
proof (induction rs rule: rev_induct)
  case (snoc r rs)
  then show ?case
    by (cases r) (auto simp: cd_run_simps holding_codec_def Let_def)
qed (simp add: cd_run_simps holding_codec_def)

lemma holding_codec_ok: "codec_ok holding_codec"
  using holding_run
  by (auto simp: codec_ok_def cd_run_simps Let_def) (auto simp: holding_codec_def butlast_append)

lemma coded_run_agrees:
  assumes "\<And>enc. enc \<noteq> EncodingNone \<Longrightarrow> codec_ok (cs enc)"
    and "list_all op_final os"
  shows "\<exists>rw. coded_run cs req mr os = Some rw \<and>
    agrees cs (effective (requested req) (plain_run os)) mr (Close_writer cs rw) (plain_run os)"
  using coded_run_follows [OF assms(2), of cs req mr] follows_close assms(1) by blast

text \<open>
  C15: compression is transparent.  A handler sees a compressing writer that behaves like the plain one:
  nothing fails, and after \<open>Close\<close> the client has the same status, the same header up to
  \<open>Content-Length\<close>, \<open>Content-Encoding\<close> and \<open>Vary\<close>, and a body that decodes to the body of the plain
  writer, all of it flushed.  The encoding is the requested one unless the response has no body or brings
  its own encoding, in which case status, header and body are exactly the plain ones.  The metrics get the
  size of the plain and of the encoded body once.  The handler sends no informational status and the
  connection does not break.
\<close>

theorem compress_transparent:
  assumes "\<And>enc. enc \<noteq> EncodingNone \<Longrightarrow> codec_ok (cs enc)"
    and "list_all op_final os"
  shows "\<exists>rw. coded_run cs req mr os = Some rw \<and>
    agrees cs (effective (requested req) (plain_run os)) mr (Close_writer cs rw) (plain_run os)"
  by (rule coded_run_agrees [OF assms])

lemma compress_transparent_witness:
  "\<exists>rw. coded_run (\<lambda>_. holding_codec) [(''Accept-Encoding'', [''gzip''])] None
        [OpHeader (header_set ''Content-Length'' ''5''), OpWrite ''hello'', OpFlush, OpWrite ''!''] = Some rw \<and>
      agrees (\<lambda>_. holding_codec)
        (effective (requested [(''Accept-Encoding'', [''gzip''])])
          (plain_run [OpHeader (header_set ''Content-Length'' ''5''), OpWrite ''hello'', OpFlush, OpWrite ''!'']))
        None (Close_writer (\<lambda>_. holding_codec) rw)
        (plain_run [OpHeader (header_set ''Content-Length'' ''5''), OpWrite ''hello'', OpFlush, OpWrite ''!''])"
  by (rule compress_transparent) (simp_all add: holding_codec_ok)

text \<open>
  C16: compression does not delay what is flushed.  After a \<open>Flush\<close> everything the encoder has emitted has
  been flushed to the client, and it decodes to all that the handler has written so far.
\<close>

theorem compress_flush_prompt:
  assumes "\<And>enc. enc \<noteq> EncodingNone \<Longrightarrow> codec_ok (cs enc)"
    and "list_all op_final os"
  shows "\<exists>rw. coded_run cs req mr (os @ [OpFlush]) = Some rw \<and>
    hw_flushed (rw_base rw) = length (hw_body (rw_base rw)) \<and>
    (if rw_encoding rw = EncodingNone then hw_body (rw_base rw) = hw_body (plain_run os)
     else cd_partial (cs (rw_encoding rw)) (hw_body (rw_base rw)) = hw_body (plain_run os))"
proof -
  obtain rw where rw: "coded_run cs req mr os = Some rw" "follows cs (requested req) mr rw (plain_run os)"
    using coded_run_follows [OF assms(2)] by blast
  define ew where "ew = ensure_header cs rw"
  note flushed = follows_flushed [OF follows_ensure_header [OF rw(2), of], folded ew_def]
  have flush: "Flush cs rw = Flush cs ew"
    unfolding ew_def by (rule Write_ensured)
  have same: "rw_encoding (Flush cs ew) = rw_encoding ew"
    using flushed(1) flushed(4) follows_ensure_header(1) [OF rw(2)]
    by (auto simp: follows_def coded_as_def ew_def hw_Flush_def Let_def)
  have run: "coded_run cs req mr (os @ [OpFlush]) = Some (Flush cs rw)"
  proof -
    have "coded_from cs (os @ ps) r = Option.bind (coded_from cs os r) (coded_from cs ps)" for ps r
      by (induction os arbitrary: r) (auto split: option.split)
    with rw(1) show ?thesis
      by (simp add: coded_run_def)
  qed
  show ?thesis
  proof (cases "rw_encoding ew = EncodingNone")
    case True
    with run flushed(2, 3) same flush show ?thesis
      by (simp add: hw_Flush_def Let_def)
  next
    case False
    with flushed(4) obtain rs where rs: "coded_as cs (rw_encoding ew) (rs @ [CFlush]) (Flush cs ew) (hw_Flush (hw_begin (plain_run os)))"
      by auto
    have "codec_ok (cs (rw_encoding ew))"
      using assms(1) False by blast
    with rs have "cd_partial (cs (rw_encoding ew)) (hw_body (rw_base (Flush cs ew))) = hw_body (plain_run os)"
      by (simp add: coded_as_def codec_ok_def hw_Flush_def Let_def)
    with run flushed(2) same flush False show ?thesis
      by simp
  qed
qed

lemma compress_flush_prompt_witness:
  "\<exists>rw. coded_run (\<lambda>_. holding_codec) [(''Accept-Encoding'', [''zstd, gzip;q=0.5''])] None
        ([OpWriteHeader 200, OpWrite ''data: 1''] @ [OpFlush]) = Some rw \<and>
    hw_flushed (rw_base rw) = length (hw_body (rw_base rw)) \<and>
    (if rw_encoding rw = EncodingNone then hw_body (rw_base rw) = hw_body (plain_run [OpWriteHeader 200, OpWrite ''data: 1''])
     else cd_partial holding_codec (hw_body (rw_base rw)) = hw_body (plain_run [OpWriteHeader 200, OpWrite ''data: 1'']))"
  by (rule compress_flush_prompt) (simp_all add: holding_codec_ok)

section \<open>Informational statuses\<close>

text \<open>
  An informational status counts as the header: the status that the handler sends after it is lost, while a
  plain writer would send both.
\<close>

lemma informational_hides_status:
  assumes "100 \<le> i" "i < 200" "i \<noteq> 101"
  shows "\<exists>rw. coded_run cs req mr [OpWriteHeader i, OpWriteHeader s] = Some rw \<and>
    hw_info (rw_base rw) = [i] \<and> hw_status (rw_base rw) = None"
    and "\<not> (100 \<le> s \<and> s < 200) \<Longrightarrow> hw_status (plain_run [OpWriteHeader i, OpWriteHeader s]) = Some s"
  using assms
  by (auto simp: coded_run_def plain_run_def WriteHeader_def WrapResponseWriter_def new_writer_def hw_WriteHeader_def Let_def)

end
