(* ===== verification/Server_Models.thy ===== *)
theory Server_Models
  imports Server_Base Compress_Laws
begin

text \<open>
  \<open>pkg/proxy/server.go\<close>: the list of models, fetched from one upstream or merged from all, and its cache.

  A handler is a function to the new state of the server and the operations it performs on its
  \<open>ResponseWriter\<close>; it ignores what they return.  The HTTP client is the parameter \<open>env_do\<close>: a request and
  the response to it, or the text of an error.  The other parameters are texts that the standard library
  makes and readings of the clock.
\<close>

section \<open>Requests and responses\<close>

record client_request =
  cr_Method :: bytes
  cr_Path :: bytes
  cr_RawQuery :: bytes
  cr_Header :: header
  cr_Body :: bytes
  cr_readErr :: "bytes option"

record upstream_request =
  up_Method :: bytes
  up_URL :: url
  up_Header :: header
  up_Body :: bytes

record upstream_response =
  rs_StatusCode :: int
  rs_Header :: header
  rs_Body :: bytes
  rs_readErr :: "bytes option"

record env =
  env_do :: "upstream_request \<Rightarrow> bytes + upstream_response"
  env_urlErr :: "bytes \<Rightarrow> bytes"
  env_jsonErr :: "bytes \<Rightarrow> bytes"
  env_marshalErr :: bytes
  env_is_print :: "nat \<Rightarrow> bool"
  env_dashboard :: "effective_config \<Rightarrow> bytes list"
  env_start :: int
  env_clock :: "nat \<Rightarrow> int"

text \<open>\<open>http.NewRequestWithContext\<close>: the URL is printed and parsed again; an error is its text.\<close>

definition new_request :: "env \<Rightarrow> bytes \<Rightarrow> url \<Rightarrow> bytes \<Rightarrow> bytes + upstream_request" where
  "new_request env meth u body =
     (case Parse (url_String u) of
        Some u \<Rightarrow> Inr \<lparr>up_Method = meth, up_URL = u, up_Header = [], up_Body = body\<rparr>
      | None \<Rightarrow> Inl (env_urlErr env (url_String u)))"

text \<open>\<open>io.ReadAll\<close> of a response body.\<close>

definition read_body :: "upstream_response \<Rightarrow> bytes + bytes" where
  "read_body resp = (case rs_readErr resp of Some err \<Rightarrow> Inl err | None \<Rightarrow> Inr (rs_Body resp))"

definition http_Error :: "bytes \<Rightarrow> int \<Rightarrow> response_op list" where
  "http_Error msg code =
     [OpHeader (\<lambda>h. header_set ''X-Content-Type-Options'' ''nosniff''
                  (header_set ''Content-Type'' ''text/plain; charset=utf-8'' (header_del ''Content-Length'' h))),
      OpWriteHeader code, OpWrite (msg @ [nl])]"

section \<open>context_length\<close>

text \<open>
  The value of \<open>context_window\<close> is stored under \<open>context_length\<close> too.  Both keys then hold the same value,
  so what the recursion does to one it does to the other.
\<close>

fun injectContextLength :: "goval \<Rightarrow> goval \<times> bool" where
  "injectContextLength (GObj kvs) =
     (let rs = map (\<lambda>(k, v). (k, injectContextLength v)) kvs;
          kvs' = map (\<lambda>(k, r). (k, fst r)) rs
      in case map_of kvs' ''context_window'' of
           Some cw \<Rightarrow> (GObj (AList.update ''context_length'' cw kvs'), True)
         | None \<Rightarrow> (GObj kvs', list_ex (\<lambda>(k, r). snd r) rs))"
| "injectContextLength (GArr vs) =
     (let rs = map injectContextLength vs in (GArr (map fst rs), list_ex snd rs))"
| "injectContextLength v = (v, False)"

section \<open>Fetching\<close>

definition models_request :: "env \<Rightarrow> header \<Rightarrow> bytes \<Rightarrow> upstream_target \<Rightarrow> bytes + upstream_request" where
  "models_request env origHeader rawQuery target =
     (case new_request env ''GET'' (dest_url (ut_URL target) ''/v1/models'' rawQuery) [] of
        Inl err \<Rightarrow> Inl err
      | Inr req \<Rightarrow>
          Inr (req\<lparr>up_Header := applyAuthHeader (ut_APIKey target)
                     (header_set ''User-Agent'' ''grok-shell'' (copyHeaders origHeader (up_Header req)))\<rparr>))"

definition fetchSingleModelData :: "env \<Rightarrow> header \<Rightarrow> bytes \<Rightarrow> upstream_target \<Rightarrow> bytes + cached_models" where
  "fetchSingleModelData env origHeader rawQuery target =
     (case models_request env origHeader rawQuery target of
        Inl err \<Rightarrow> Inl (''failed to create upstream request: '' @ err)
      | Inr req \<Rightarrow>
          (case env_do env req of
             Inl err \<Rightarrow> Inl (''upstream error: '' @ err)
           | Inr resp \<Rightarrow>
               (case read_body resp of
                  Inl err \<Rightarrow> Inl (''failed to read upstream response: '' @ err)
                | Inr bodyBytes \<Rightarrow>
                    (let body =
                           (if rs_StatusCode resp = 200
                               \<and> Contains (header_get (rs_Header resp) ''Content-Type'') ''application/json''
                            then (case um_any bodyBytes of
                                    Some root \<Rightarrow>
                                      (let (root, modified) = injectContextLength root
                                       in if modified
                                          then (case json_marshal root of Some t \<Rightarrow> t | None \<Rightarrow> bodyBytes)
                                          else bodyBytes)
                                  | None \<Rightarrow> bodyBytes)
                            else bodyBytes)
                     in Inr \<lparr>cm_statusCode = rs_StatusCode resp, cm_header = copyHeaders (rs_Header resp) [],
                             cm_body = body\<rparr>))))"

definition raw_list :: "goval \<Rightarrow> goval list" where
  "raw_list root =
     (case root of
        GObj kvs \<Rightarrow> (case map_of kvs ''data'' of Some (GArr data) \<Rightarrow> data | _ \<Rightarrow> [])
      | GArr vs \<Rightarrow> vs
      | _ \<Rightarrow> [])"

definition prefix_field :: "bytes \<Rightarrow> bytes \<Rightarrow> gomap \<Rightarrow> gomap" where
  "prefix_field name key m =
     (case map_of m key of Some (GStr s) \<Rightarrow> AList.update key (GStr (name @ ''/'' @ s)) m | _ \<Rightarrow> m)"

definition name_item :: "bytes \<Rightarrow> goval \<Rightarrow> goval list" where
  "name_item name v =
     (case v of
        GObj m \<Rightarrow> [GObj (if name \<noteq> [] then prefix_field name ''name'' (prefix_field name ''id'' m) else m)]
      | _ \<Rightarrow> [])"

definition fetchUpstreamModels :: "env \<Rightarrow> header \<Rightarrow> bytes \<Rightarrow> upstream_target \<Rightarrow> bytes + goval list" where
  "fetchUpstreamModels env origHeader rawQuery tgt =
     (case models_request env origHeader rawQuery tgt of
        Inl err \<Rightarrow> Inl err
      | Inr req \<Rightarrow>
          (case env_do env req of
             Inl err \<Rightarrow> Inl err
           | Inr resp \<Rightarrow>
               if rs_StatusCode resp \<noteq> 200
               then Inl (''upstream '' @ ut_Name tgt @ '' returned status '' @ int_digits (rs_StatusCode resp))
               else (case read_body resp of
                       Inl err \<Rightarrow> Inl err
                     | Inr bodyBytes \<Rightarrow>
                         (case um_any bodyBytes of
                            None \<Rightarrow> Inl (env_jsonErr env bodyBytes)
                          | Some root \<Rightarrow>
                              Inr (concat (map (name_item (ut_Name tgt)) (raw_list (fst (injectContextLength root)))))))))"

text \<open>The upstreams are asked at the same time; the answers are put together in their order.\<close>

definition fetchMultiModelsData :: "env \<Rightarrow> header \<Rightarrow> bytes \<Rightarrow> upstream_target list \<Rightarrow> bytes + cached_models" where
  "fetchMultiModelsData env origHeader rawQuery upstreams =
     (let results = map (fetchUpstreamModels env origHeader rawQuery) upstreams;
          errors = concat (map (\<lambda>r. case r of Inl err \<Rightarrow> [err] | Inr _ \<Rightarrow> []) results);
          lists = concat (map (\<lambda>r. case r of Inl _ \<Rightarrow> [] | Inr ms \<Rightarrow> [ms]) results)
      in if length lists = 0 \<and> errors \<noteq> [] then Inl (''upstream error: '' @ last errors)
         else (case json_marshal (GObj [(''object'', GStr ''list''), (''data'', GArr (concat lists))]) of
                 None \<Rightarrow> Inl (''failed to marshal models: '' @ env_marshalErr env)
               | Some respBytes \<Rightarrow>
                   Inr \<lparr>cm_statusCode = 200, cm_header = header_set ''Content-Type'' ''application/json'' [],
                        cm_body = respBytes\<rparr>))"

definition fetchModelsData :: "env \<Rightarrow> header \<Rightarrow> bytes \<Rightarrow> proxy_server \<Rightarrow> bytes + cached_models" where
  "fetchModelsData env origHeader rawQuery s =
     (case (sv_upstreams s, sc_UpstreamURL (sv_cfg s)) of
        ([], Some u) \<Rightarrow> fetchSingleModelData env origHeader rawQuery \<lparr>ut_Name = [], ut_URL = u, ut_APIKey = []\<rparr>
      | ([], None) \<Rightarrow> Inl ''no upstream configured''
      | (u # us, _) \<Rightarrow>
          if us = [] \<and> ut_Name u = [] then fetchSingleModelData env origHeader rawQuery u
          else fetchMultiModelsData env origHeader rawQuery (u # us))"

section \<open>The cache\<close>

definition writeModelsResponse :: "cached_models \<Rightarrow> response_op list" where
  "writeModelsResponse resp =
     [OpHeader (\<lambda>h. header_del ''Content-Length'' (copyHeaders (cm_header resp) h)),
      OpWriteHeader (cm_statusCode resp), OpWrite (cm_body resp)]"

text \<open>
  The last component says whether a refresh has been started in the background, with the header and the
  query of this request.
\<close>

definition handleModels :: "env \<Rightarrow> client_request \<Rightarrow> proxy_server \<Rightarrow> proxy_server \<times> response_op list \<times> bool" where
  "handleModels env r s =
     (case sv_modelsCache s of
        None \<Rightarrow>
          (case fetchModelsData env (cr_Header r) (cr_RawQuery r) s of
             Inl err \<Rightarrow> (s, http_Error (''upstream error: '' @ err) 502, False)
           | Inr res \<Rightarrow>
               (if cm_statusCode res = 200 then s\<lparr>sv_modelsCache := Some res\<rparr> else s, writeModelsResponse res, False))
      | Some cached \<Rightarrow>
          if sv_modelsUpdating s then (s, writeModelsResponse cached, False)
          else (s\<lparr>sv_modelsUpdating := True\<rparr>, writeModelsResponse cached, True))"

definition refreshModels :: "env \<Rightarrow> client_request \<Rightarrow> proxy_server \<Rightarrow> proxy_server" where
  "refreshModels env r s =
     (let s = (case fetchModelsData env (cr_Header r) (cr_RawQuery r) s of
                 Inr newRes \<Rightarrow> if cm_statusCode newRes = 200 then s\<lparr>sv_modelsCache := Some newRes\<rparr> else s
               | Inl _ \<Rightarrow> s)
      in s\<lparr>sv_modelsUpdating := False\<rparr>)"

end
