(* ===== verification/Exchange.thy ===== *)
theory Exchange
  imports Buffer
begin

text \<open>
  The two goroutines of \<open>StreamPipeline.ProcessStream\<close> (\<open>pkg/aggregator/stream.go\<close>) and the pending
  buffer between them, as a step relation.  The reader takes the segments of one event after another
  and appends them; the writer swaps, writes and decides when to stop; the environment cancels the
  context; the monitor goroutine closes the buffer of a cancelled stream.  Each step is one section
  under the buffer's mutex, or one action outside it, so every interleaving is a run.

  The segments of the events are a parameter here (\<open>ex_source\<close>): the parser produces them.  Time is
  abstracted to the durations the metrics are told and to the timed wait, which may end at any moment.
\<close>

section \<open>State\<close>

text \<open>
  \<open>ReaderSend segs\<close>: in the loop over the segments of an event.  \<open>ReaderParked\<close> waits on
  \<open>belowHighWater\<close>, \<open>ReaderWoken\<close> was woken and has yet to take the mutex.  \<open>ReaderDone segs\<close> has
  returned, leaving \<open>segs\<close> of its last event unsent.
\<close>

datatype reader_pc =
    ReaderTop
  | ReaderSend "segment list"
  | ReaderParked segment "segment list"
  | ReaderWoken segment "segment list"
  | ReaderDone "segment list"
  | ReaderPanic

text \<open>
  \<open>WriterWrite segs closed\<close>: in the loop over a snapshot, \<open>closed\<close> as returned by \<open>Swap\<close>.
  \<open>WriterReturn segs e\<close>: about to return \<open>e\<close>, with \<open>segs\<close> of the snapshot unwritten; the deferred
  calls follow, then \<open>WriterDone\<close>.
\<close>

datatype writer_pc =
    WriterTop
  | WriterParked
  | WriterWoken
  | WriterTimed nat
  | WriterWrite "segment list" bool
  | WriterReturn "segment list" "err option"
  | WriterDone "segment list" "err option"

record exchange =
  ex_buf :: pending_buffer
  ex_ctx :: "err option"
  ex_readerCtx :: "err option"
  ex_source :: "segment list list"
  ex_end :: io_error
  ex_reader :: reader_pc
  ex_writer :: writer_pc
  ex_out :: "segment list"

fun wake_reader :: "reader_pc \<Rightarrow> reader_pc" where
  "wake_reader (ReaderParked seg segs) = ReaderWoken seg segs"
| "wake_reader pc = pc"

fun wake_writer :: "writer_pc \<Rightarrow> writer_pc" where
  "wake_writer WriterParked = WriterWoken"
| "wake_writer pc = pc"

definition ex_init :: "buffer_config \<Rightarrow> stream_metrics option \<Rightarrow> segment list list \<Rightarrow> io_error \<Rightarrow> exchange" where
  "ex_init cfg m source e =
     \<lparr>ex_buf = NewPendingBuffer cfg m, ex_ctx = None, ex_readerCtx = None, ex_source = source, ex_end = e,
      ex_reader = ReaderTop, ex_writer = WriterTop, ex_out = []\<rparr>"

section \<open>Actions\<close>

text \<open>\<open>buf.Close(e)\<close>, waking both sides when it broadcasts.\<close>

definition do_Close :: "err option \<Rightarrow> exchange \<Rightarrow> exchange" where
  "do_Close e s =
     (let (b, broadcast) = Close (ex_buf s) e
      in if broadcast
         then s\<lparr>ex_buf := b, ex_reader := wake_reader (ex_reader s), ex_writer := wake_writer (ex_writer s)\<rparr>
         else s\<lparr>ex_buf := b\<rparr>)"

definition cancelReader :: "exchange \<Rightarrow> exchange" where
  "cancelReader s =
     (if ex_readerCtx s = None then s\<lparr>ex_readerCtx := Some (ErrContext ''context canceled'')\<rparr> else s)"

text \<open>The reader after a section of \<open>Append\<close> for \<open>seg\<close>, with \<open>segs\<close> still to send.\<close>

fun after_Append :: "segment \<Rightarrow> segment list \<Rightarrow> append_result \<Rightarrow> exchange \<Rightarrow> exchange" where
  "after_Append seg segs AppendWait s = s\<lparr>ex_reader := ReaderParked seg segs\<rparr>"
| "after_Append seg segs AppendPanic s = s\<lparr>ex_reader := ReaderPanic\<rparr>"
| "after_Append seg segs (AppendReturn b None signal) s =
     s\<lparr>ex_buf := b, ex_reader := ReaderSend segs,
       ex_writer := (if signal then wake_writer (ex_writer s) else ex_writer s)\<rparr>"
| "after_Append seg segs (AppendReturn b (Some e) signal) s =
     s\<lparr>ex_buf := b, ex_reader := ReaderDone (seg # segs),
       ex_writer := (if signal then wake_writer (ex_writer s) else ex_writer s)\<rparr>"

text \<open>
  The writer after a section of \<open>Swap\<close>: an error with an empty snapshot ends \<open>ProcessStream\<close>,
  except \<open>io.EOF\<close>; otherwise the snapshot is written.
\<close>

fun after_Swap :: "swap_result \<Rightarrow> exchange \<Rightarrow> exchange" where
  "after_Swap SwapWait s = s\<lparr>ex_writer := WriterParked\<rparr>"
| "after_Swap (SwapTimed ch) s = s\<lparr>ex_writer := WriterTimed ch\<rparr>"
| "after_Swap (SwapReturn b snapshot closed e broadcast) s =
     (let s = s\<lparr>ex_buf := b, ex_reader := (if broadcast then wake_reader (ex_reader s) else ex_reader s)\<rparr>
      in if e \<noteq> None \<and> e \<noteq> Some (ErrRead EOF) \<and> length snapshot = 0
         then (cancelReader s)\<lparr>ex_writer := WriterReturn [] e\<rparr>
         else s\<lparr>ex_writer := WriterWrite snapshot closed\<rparr>)"

definition close_error :: "io_error \<Rightarrow> err option" where
  "close_error e = (if e = EOF then None else Some (ErrRead e))"

section \<open>Steps\<close>

inductive step :: "exchange \<Rightarrow> exchange \<Rightarrow> bool" where
  reader_cancelled: "ex_reader s = ReaderTop \<Longrightarrow> ex_readerCtx s = Some e
    \<Longrightarrow> step s ((do_Close (Some e) s)\<lparr>ex_reader := ReaderDone []\<rparr>)"
| reader_event: "ex_reader s = ReaderTop \<Longrightarrow> ex_readerCtx s = None \<Longrightarrow> ex_source s = segs # rest
    \<Longrightarrow> step s (s\<lparr>ex_source := rest, ex_reader := ReaderSend segs\<rparr>)"
| reader_end: "ex_reader s = ReaderTop \<Longrightarrow> ex_readerCtx s = None \<Longrightarrow> ex_source s = []
    \<Longrightarrow> step s ((do_Close (close_error (ex_end s)) s)\<lparr>ex_reader := ReaderDone []\<rparr>)"
| reader_sent: "ex_reader s = ReaderSend [] \<Longrightarrow> step s (s\<lparr>ex_reader := ReaderTop\<rparr>)"
| reader_append: "ex_reader s = ReaderSend (seg # segs)
    \<Longrightarrow> step s (after_Append seg segs (Append_start d (ex_buf s) (ex_readerCtx s) seg) s)"
| reader_resume: "ex_reader s = ReaderWoken seg segs
    \<Longrightarrow> step s (after_Append seg segs (Append_resume d (ex_buf s) (ex_readerCtx s) seg) s)"
| writer_swap: "ex_writer s = WriterTop \<or> ex_writer s = WriterWoken
    \<Longrightarrow> step s (after_Swap (Swap_start (ex_buf s) (ex_ctx s)) s)"
| writer_timed: "ex_writer s = WriterTimed ch
    \<Longrightarrow> step s (after_Swap (Swap_take (ex_buf s) (ex_ctx s)) s)"
| writer_write: "ex_writer s = WriterWrite (seg # segs) closed
    \<Longrightarrow> step s (s\<lparr>ex_out := ex_out s @ [seg], ex_writer := WriterWrite segs closed\<rparr>)"
| writer_fails: "ex_writer s = WriterWrite (seg # segs) closed
    \<Longrightarrow> step s ((cancelReader s)\<lparr>ex_writer := WriterReturn (seg # segs) (Some (ErrWrite e))\<rparr>)"
| writer_check: "ex_writer s = WriterWrite [] closed
    \<Longrightarrow> step s (s\<lparr>ex_writer := (if closed \<and> Len (ex_buf s) = 0 then WriterReturn [] None else WriterTop)\<rparr>)"
| writer_defers: "ex_writer s = WriterReturn segs e
    \<Longrightarrow> step s ((do_Close (ex_readerCtx (cancelReader s)) (cancelReader s))\<lparr>ex_writer := WriterDone segs e\<rparr>)"
| cancel: "ex_ctx s = None \<Longrightarrow> step s (s\<lparr>ex_ctx := Some (ErrContext e)\<rparr>)"
| propagate: "ex_ctx s = Some e \<Longrightarrow> ex_readerCtx s = None \<Longrightarrow> step s (s\<lparr>ex_readerCtx := Some e\<rparr>)"
| monitor: "ex_readerCtx s = Some e \<Longrightarrow> \<not> pb_closed (ex_buf s) \<Longrightarrow> step s (do_Close (Some e) s)"

section \<open>Effects of the sections\<close>

lemma after_Append_cases:
  assumes "buffer_ok (ex_buf s)" "segment_ok seg"
    and "r = Append_start d (ex_buf s) (ex_readerCtx s) seg \<or> r = Append_resume d (ex_buf s) (ex_readerCtx s) seg"
  obtains (waits) "after_Append seg segs r s = s\<lparr>ex_reader := ReaderParked seg segs\<rparr>"
      "Append_must_wait (ex_buf s) (ex_readerCtx s)"
  | (fails) f where "after_Append seg segs r s =
        s\<lparr>ex_buf := with_metrics f (ex_buf s), ex_reader := ReaderDone (seg # segs)\<rparr>"
      "pb_closed (ex_buf s) \<or> ex_readerCtx s \<noteq> None"
  | (queues) f b' where "after_Append seg segs r s =
        s\<lparr>ex_buf := b', ex_reader := ReaderSend segs, ex_writer := wake_writer (ex_writer s)\<rparr>"
      "appended (with_metrics f (ex_buf s)) seg b'" "\<not> pb_closed (ex_buf s)"
      "pb_currentBytes (ex_buf s) < pb_highWatermark (ex_buf s) \<or> pb_currentBytes (ex_buf s) < pb_lowWatermark (ex_buf s)"
  using assms(3)
proof
  assume r: "r = Append_start d (ex_buf s) (ex_readerCtx s) seg"
  show thesis
    using assms(1,2)
  proof (cases rule: Append_start_cases [where d = d and ctx = "ex_readerCtx s"])
    case waits
    with r that(1) show thesis by simp
  next
    case (fails b' e f)
    with r that(2) [of f] show thesis by auto
  next
    case (queues b0 b' f)
    with r that(3) [of b' f] show thesis by simp
  qed
next
  assume r: "r = Append_resume d (ex_buf s) (ex_readerCtx s) seg"
  show thesis
    using assms(1,2)
  proof (cases rule: Append_resume_cases [where d = d and ctx = "ex_readerCtx s"])
    case waits
    with r that(1) show thesis by simp
  next
    case (fails b' e f)
    with r that(2) [of f] show thesis by auto
  next
    case (queues b0 b' f)
    with r that(3) [of b' f] show thesis by simp
  qed
qed

text \<open>Context errors are never \<open>io.EOF\<close>, and the buffer never holds one as upstream error.\<close>

definition errors_ok :: "exchange \<Rightarrow> bool" where
  "errors_ok s \<longleftrightarrow> ex_ctx s \<noteq> Some (ErrRead EOF) \<and> ex_readerCtx s \<noteq> Some (ErrRead EOF)
     \<and> pb_upstreamErr (ex_buf s) \<noteq> Some (ErrRead EOF)"

lemma after_take_cases:
  assumes "buffer_ok (ex_buf s)" "pb_segments (ex_buf s) \<noteq> []"
  obtains b' where "after_Swap (Swap_take (ex_buf s) ctx) s =
        s\<lparr>ex_buf := b', ex_reader := wake_reader (ex_reader s),
          ex_writer := WriterWrite (pb_segments (ex_buf s)) (pb_closed (ex_buf s))\<rparr>"
      "pb_segments b' = []" "pb_currentBytes b' = 0" "buffer_ok b'" "same_config (ex_buf s) b'"
      "pb_closed b' = pb_closed (ex_buf s)" "pb_upstreamErr b' = pb_upstreamErr (ex_buf s)"
  using assms(1)
proof (cases rule: Swap_take_cases [where ctx = ctx])
  case (gives_up e)
  with assms(2) show thesis by simp
next
  case (takes b')
  with assms(2) that [of b'] show thesis by (simp add: Let_def)
qed

lemma after_Swap_cases:
  assumes "buffer_ok (ex_buf s)" "errors_ok s"
  obtains (waits) "after_Swap (Swap_start (ex_buf s) (ex_ctx s)) s = s\<lparr>ex_writer := WriterParked\<rparr>"
      "pb_segments (ex_buf s) = []" "\<not> pb_closed (ex_buf s)" "ex_ctx s = None"
  | (timed) "after_Swap (Swap_start (ex_buf s) (ex_ctx s)) s =
        s\<lparr>ex_writer := WriterTimed (pb_barrierWake (ex_buf s))\<rparr>"
      "pb_segments (ex_buf s) \<noteq> []" "\<not> pb_hasBarrier (ex_buf s)" "\<not> pb_closed (ex_buf s)"
  | (fails) e where "after_Swap (Swap_start (ex_buf s) (ex_ctx s)) s =
        (cancelReader s)\<lparr>ex_writer := WriterReturn [] (Some e)\<rparr>" 
      "ex_ctx s = Some e \<or> pb_upstreamErr (ex_buf s) = Some e \<and> pb_segments (ex_buf s) = []"
  | (drained) "after_Swap (Swap_start (ex_buf s) (ex_ctx s)) s = s\<lparr>ex_writer := WriterWrite [] True\<rparr>"
      "pb_segments (ex_buf s) = []" "pb_closed (ex_buf s)"
  | (takes) "after_Swap (Swap_start (ex_buf s) (ex_ctx s)) s =
       after_Swap (Swap_take (ex_buf s) (ex_ctx s)) s" "pb_segments (ex_buf s) \<noteq> []" "ex_ctx s = None"
proof -
  let ?b = "ex_buf s"
  have same: "s\<lparr>ex_buf := ex_buf s, ex_reader := ex_reader s\<rparr> = s" by simp
  consider "Swap_must_wait ?b (ex_ctx s)" | e where "ex_ctx s = Some e"
    | "\<not> Swap_must_wait ?b (ex_ctx s)" "ex_ctx s = None" "pb_segments ?b = []"
    | "\<not> Swap_must_wait ?b (ex_ctx s)" "ex_ctx s = None" "pb_segments ?b \<noteq> []" by blast
  then show thesis
  proof cases
    case 1
    with waits show thesis by (simp add: Swap_start_def Swap_must_wait_def)
  next
    case 2
    then have "e \<noteq> ErrRead EOF" using assms(2) by (auto simp: errors_ok_def)
    with 2 fails [of e] show thesis
      by (simp add: Swap_start_def Swap_must_wait_def Let_def cancelReader_def)
  next
    case 3
    then have c: "pb_closed ?b" using assms(1) by (auto simp: Swap_must_wait_def buffer_ok_def)
    show thesis
    proof (cases "pb_upstreamErr ?b")
      case None
      with 3 c drained show thesis by (simp add: Swap_start_def Let_def)
    next
      case (Some e)
      then have "e \<noteq> ErrRead EOF" using assms(2) by (auto simp: errors_ok_def)
      with 3 Some fails [of e] show thesis by (simp add: Swap_start_def Let_def cancelReader_def)
    qed
  next
    case 4
    show thesis
    proof (cases "Swap_should_wait ?b")
      case True
      with 4 timed show thesis by (simp add: Swap_start_def Swap_should_wait_def)
    next
      case False
      with 4 takes show thesis by (simp add: Swap_start_def)
    qed
  qed
qed

lemma do_Close_simps [simp]:
  "ex_buf (do_Close e s) = fst (Close (ex_buf s) e)" "ex_ctx (do_Close e s) = ex_ctx s"
  "ex_readerCtx (do_Close e s) = ex_readerCtx s" "ex_source (do_Close e s) = ex_source s"
  "ex_end (do_Close e s) = ex_end s" "ex_out (do_Close e s) = ex_out s"
  "ex_reader (do_Close e s) = (if pb_closed (ex_buf s) then ex_reader s else wake_reader (ex_reader s))"
  "ex_writer (do_Close e s) = (if pb_closed (ex_buf s) then ex_writer s else wake_writer (ex_writer s))"
  by (auto simp: do_Close_def Close_def)

lemma cancelReader_simps [simp]:
  "ex_buf (cancelReader s) = ex_buf s" "ex_ctx (cancelReader s) = ex_ctx s"
  "ex_source (cancelReader s) = ex_source s" "ex_end (cancelReader s) = ex_end s"
  "ex_out (cancelReader s) = ex_out s" "ex_reader (cancelReader s) = ex_reader s"
  "ex_writer (cancelReader s) = ex_writer s" "ex_readerCtx (cancelReader s) \<noteq> None"
  by (auto simp: cancelReader_def)

section \<open>Invariants\<close>

fun unsent_at :: "reader_pc \<Rightarrow> segment list" where
  "unsent_at (ReaderSend segs) = segs"
| "unsent_at (ReaderParked seg segs) = seg # segs"
| "unsent_at (ReaderWoken seg segs) = seg # segs"
| "unsent_at (ReaderDone segs) = segs"
| "unsent_at ReaderTop = []"
| "unsent_at ReaderPanic = []"

fun unwritten_at :: "writer_pc \<Rightarrow> segment list" where
  "unwritten_at (WriterWrite segs c) = segs"
| "unwritten_at (WriterReturn segs e) = segs"
| "unwritten_at (WriterDone segs e) = segs"
| "unwritten_at WriterTop = []"
| "unwritten_at WriterParked = []"
| "unwritten_at WriterWoken = []"
| "unwritten_at (WriterTimed ch) = []"

definition ex_unsent :: "exchange \<Rightarrow> segment list" where
  "ex_unsent s = unsent_at (ex_reader s) @ concat (ex_source s)"

definition ex_unwritten :: "exchange \<Rightarrow> segment list" where
  "ex_unwritten s = unwritten_at (ex_writer s)"

lemma at_wake [simp]: "unsent_at (wake_reader pc) = unsent_at pc" "unwritten_at (wake_writer w) = unwritten_at w"
  by (cases pc; simp) (cases w; simp)

text \<open>Where a goroutine stands tells what it knows of the buffer.\<close>

fun reader_at :: "pending_buffer \<Rightarrow> err option \<Rightarrow> reader_pc \<Rightarrow> bool" where
  "reader_at b ctx (ReaderParked seg segs) \<longleftrightarrow> pb_lowWatermark b \<le> pb_currentBytes b \<and> \<not> pb_closed b"
| "reader_at b ctx (ReaderDone segs) \<longleftrightarrow> pb_closed b \<or> ctx \<noteq> None"
| "reader_at b ctx ReaderPanic \<longleftrightarrow> False"
| "reader_at b ctx _ \<longleftrightarrow> True"

fun writer_at :: "pending_buffer \<Rightarrow> writer_pc \<Rightarrow> bool" where
  "writer_at b WriterParked \<longleftrightarrow> pb_segments b = [] \<and> \<not> pb_closed b"
| "writer_at b (WriterTimed ch) \<longleftrightarrow> pb_segments b \<noteq> []"
| "writer_at b (WriterWrite segs c) \<longleftrightarrow> (c \<longrightarrow> pb_segments b = [] \<and> pb_closed b)"
| "writer_at b (WriterReturn segs e) \<longleftrightarrow> (e = None \<longrightarrow> segs = [] \<and> pb_segments b = [] \<and> pb_closed b)"
| "writer_at b (WriterDone segs e) \<longleftrightarrow> pb_closed b"
| "writer_at b _ \<longleftrightarrow> True"

text \<open>A buffer that is closed while the stream is not cancelled was closed by the reader's end.\<close>

definition end_ok :: "exchange \<Rightarrow> bool" where
  "end_ok s \<longleftrightarrow> (pb_closed (ex_buf s) \<and> ex_readerCtx s = None \<longrightarrow>
     ex_source s = [] \<and> ex_reader s = ReaderDone [] \<and> pb_upstreamErr (ex_buf s) = close_error (ex_end s))"

definition sched_ok :: "exchange \<Rightarrow> bool" where
  "sched_ok s \<longleftrightarrow> errors_ok s \<and> buffer_ok (ex_buf s) \<and> reader_at (ex_buf s) (ex_readerCtx s) (ex_reader s)
     \<and> writer_at (ex_buf s) (ex_writer s) \<and> end_ok s \<and> list_all segment_ok (ex_unsent s)"

lemmas ex_defs = sched_ok_def end_ok_def errors_ok_def ex_unsent_def

lemma sched_ok_reader_append:
  assumes "sched_ok s" "ex_reader s = ReaderSend (seg # segs) \<or> ex_reader s = ReaderWoken seg segs"
    and "r = Append_start d (ex_buf s) (ex_readerCtx s) seg \<or> r = Append_resume d (ex_buf s) (ex_readerCtx s) seg"
  shows "sched_ok (after_Append seg segs r s)"
proof -
  have b: "buffer_ok (ex_buf s)" and seg: "segment_ok seg"
    using assms(1,2) by (auto simp: sched_ok_def ex_unsent_def)
  show ?thesis
    using b seg assms(3)
  proof (cases rule: after_Append_cases [where segs = segs])
    case waits
    with assms(1,2) show ?thesis by (auto simp: ex_defs Append_must_wait_def)
  next
    case (fails f)
    with assms(1,2) show ?thesis by (cases "ex_writer s") (auto simp: ex_defs buffer_simps)
  next
    case (queues f b')
    have "buffer_ok b'" using appended_ok [OF queues(2)] b seg by simp
    moreover have "pb_segments b' \<noteq> []" using queues(2) by (auto simp: appended_def push_def split: if_splits)
    ultimately show ?thesis using queues assms(1,2)
      by (cases "ex_writer s") (auto simp: ex_defs appended_def buffer_simps)
  qed
qed

lemma sched_ok_take:
  assumes "sched_ok s" "pb_segments (ex_buf s) \<noteq> []"
  shows "sched_ok (after_Swap (Swap_take (ex_buf s) ctx) s)"
proof -
  have "buffer_ok (ex_buf s)" using assms(1) by (simp add: sched_ok_def)
  then show ?thesis
    using assms(2)
  proof (cases rule: after_take_cases [where ctx = ctx])
    case (1 b')
    with assms(1) show ?thesis
      by (cases "ex_reader s") (auto simp: ex_defs)
  qed
qed

lemma sched_ok_swap:
  assumes "sched_ok s"
  shows "sched_ok (after_Swap (Swap_start (ex_buf s) (ex_ctx s)) s)"
proof -
  have "buffer_ok (ex_buf s)" "errors_ok s" using assms by (simp_all add: sched_ok_def)
  then show ?thesis
  proof (cases rule: after_Swap_cases)
    case waits
    with assms show ?thesis by (simp add: ex_defs)
  next
    case timed
    with assms show ?thesis by (simp add: ex_defs)
  next
    case (fails e)
    with assms show ?thesis by (cases "ex_reader s") (auto simp: ex_defs cancelReader_def)
  next
    case drained
    with assms show ?thesis by (simp add: ex_defs)
  next
    case takes
    with assms sched_ok_take [of s] show ?thesis by simp
  qed
qed

lemma sched_ok_Close:
  assumes "sched_ok s" "ex_readerCtx s \<noteq> None" "e \<noteq> Some (ErrRead EOF)"
  shows "sched_ok (do_Close e s)"
  using assms buffer_ok_Close [of "ex_buf s" e]
  by (cases "ex_reader s"; cases "ex_writer s") (auto simp: ex_defs Close_props)

lemma sched_ok_reader_close:
  assumes "sched_ok s" "ex_reader s = ReaderTop" "e \<noteq> Some (ErrRead EOF)"
    and "ex_readerCtx s \<noteq> None \<or> ex_source s = [] \<and> e = close_error (ex_end s)"
  shows "sched_ok ((do_Close e s)\<lparr>ex_reader := ReaderDone []\<rparr>)"
  using assms buffer_ok_Close [of "ex_buf s" e]
  by (cases "ex_writer s") (auto simp: ex_defs Close_props)

lemma sched_ok_cancelReader: "sched_ok s \<Longrightarrow> sched_ok (cancelReader s)"
  by (cases "ex_reader s") (auto simp: ex_defs cancelReader_def)

lemma sched_ok_errors: "sched_ok s \<Longrightarrow> ex_readerCtx s \<noteq> Some (ErrRead EOF)"
  by (simp add: sched_ok_def errors_ok_def)

lemma sched_ok_step:
  assumes "sched_ok s" "step s s'"
  shows "sched_ok s'"
  using assms(2)
proof cases
  case (reader_cancelled e)
  with sched_ok_errors [OF assms(1)] show ?thesis
    unfolding reader_cancelled(1) by (intro sched_ok_reader_close [OF assms(1)]) simp_all
next
  case (reader_event segs rest)
  then show ?thesis using assms(1) by (auto simp: ex_defs)
next
  case reader_end
  then show ?thesis
    unfolding reader_end(1) by (intro sched_ok_reader_close [OF assms(1)]) (simp_all add: close_error_def)
next
  case reader_sent
  then show ?thesis using assms(1) by (auto simp: ex_defs)
next
  case (reader_append seg segs d)
  then show ?thesis unfolding reader_append(1) by (intro sched_ok_reader_append [OF assms(1), where d = d]) simp_all
next
  case (reader_resume seg segs d)
  then show ?thesis unfolding reader_resume(1) by (intro sched_ok_reader_append [OF assms(1), where d = d]) simp_all
next
  case writer_swap
  show ?thesis unfolding writer_swap(1) by (rule sched_ok_swap [OF assms(1)])
next
  case (writer_timed ch)
  have "pb_segments (ex_buf s) \<noteq> []" using assms(1) writer_timed(2) by (simp add: sched_ok_def)
  then show ?thesis unfolding writer_timed(1) by (rule sched_ok_take [OF assms(1)])
next
  case (writer_write seg segs closed)
  then show ?thesis using assms(1) by (auto simp: ex_defs)
next
  case (writer_fails seg segs closed e)
  then show ?thesis using sched_ok_cancelReader [OF assms(1)] by (auto simp: ex_defs)
next
  case (writer_check closed)
  then show ?thesis using assms(1) by (auto simp: ex_defs Len_def)
next
  case (writer_defers segs e)
  note c = sched_ok_cancelReader [OF assms(1)]
  have "sched_ok (do_Close (ex_readerCtx (cancelReader s)) (cancelReader s))"
    by (rule sched_ok_Close [OF c _ sched_ok_errors [OF c]]) simp
  with writer_defers show ?thesis by (auto simp: ex_defs Close_props)
next
  case (cancel e)
  then show ?thesis using assms(1) by (auto simp: ex_defs)
next
  case (propagate e)
  then show ?thesis using assms(1) by (cases "ex_reader s") (auto simp: ex_defs)
next
  case (monitor e)
  with sched_ok_errors [OF assms(1)] show ?thesis
    unfolding monitor(1) by (intro sched_ok_Close [OF assms(1)]) simp_all
qed

lemma sched_ok_init: "list_all segment_ok (concat source) \<Longrightarrow> sched_ok (ex_init cfg m source e)"
  using buffer_ok_New [of cfg m]
  by (simp add: ex_defs ex_init_def) (simp add: NewPendingBuffer_def Let_def)

lemma sched_ok_reachable:
  assumes "step\<^sup>*\<^sup>* (ex_init cfg m source e) s" "list_all segment_ok (concat source)"
  shows "sched_ok s"
  using assms(1) by (induction rule: rtranclp_induct) (use sched_ok_init assms(2) sched_ok_step in blast)+

section \<open>Nothing is lost or reordered\<close>

text \<open>
  What has been written, what is being written and what is queued together result from pushing what was
  appended; what was appended and what is still to be appended are the input.
\<close>

definition flow_ok :: "segment list \<Rightarrow> exchange \<Rightarrow> bool" where
  "flow_ok input s \<longleftrightarrow> (\<exists>sent. input = sent @ ex_unsent s
     \<and> gathered CanMerge merged (ex_out s @ ex_unwritten s @ pb_segments (ex_buf s)) sent)"

lemma flow_ok_same:
  assumes "flow_ok input s" "ex_unsent s' = ex_unsent s"
    "ex_out s' @ ex_unwritten s' @ pb_segments (ex_buf s') = ex_out s @ ex_unwritten s @ pb_segments (ex_buf s)"
  shows "flow_ok input s'"
  using assms by (simp add: flow_ok_def)

lemmas flow_defs = ex_unsent_def ex_unwritten_def

lemma flow_ok_reader_append:
  assumes "sched_ok s" "flow_ok input s" "ex_reader s = ReaderSend (seg # segs) \<or> ex_reader s = ReaderWoken seg segs"
    and "r = Append_start d (ex_buf s) (ex_readerCtx s) seg \<or> r = Append_resume d (ex_buf s) (ex_readerCtx s) seg"
  shows "flow_ok input (after_Append seg segs r s)"
proof -
  have b: "buffer_ok (ex_buf s)" and seg: "segment_ok seg"
    using assms(1,3) by (auto simp: sched_ok_def ex_unsent_def)
  show ?thesis
    using b seg assms(4)
  proof (cases rule: after_Append_cases [where segs = segs])
    case waits
    with assms(3) show ?thesis by (intro flow_ok_same [OF assms(2)]) (auto simp: flow_defs)
  next
    case (fails f)
    with assms(3) show ?thesis by (intro flow_ok_same [OF assms(2)]) (auto simp: flow_defs buffer_simps)
  next
    case (queues f b')
    obtain sent where sent: "input = sent @ ex_unsent s"
      and g: "gathered CanMerge merged ((ex_out s @ ex_unwritten s) @ pb_segments (ex_buf s)) sent"
      using assms(2) by (auto simp: flow_ok_def)
    have p: "push CanMerge merged (pb_segments (ex_buf s)) seg = Some (pb_segments b')"
      using queues(2) by (simp add: appended_def buffer_simps)
    have "gathered CanMerge merged ((ex_out s @ ex_unwritten s) @ pb_segments b') (sent @ [seg])"
      by (rule gathered_push [OF g p])
    moreover have "input = (sent @ [seg]) @ segs @ concat (ex_source s)"
      using sent assms(3) by (auto simp: ex_unsent_def)
    ultimately show ?thesis
      unfolding flow_ok_def queues(1) by (intro exI [of _ "sent @ [seg]"]) (simp add: flow_defs)
  qed
qed

lemma flow_ok_take:
  assumes "sched_ok s" "flow_ok input s" "pb_segments (ex_buf s) \<noteq> []" "ex_unwritten s = []"
  shows "flow_ok input (after_Swap (Swap_take (ex_buf s) ctx) s)"
proof -
  have "buffer_ok (ex_buf s)" using assms(1) by (simp add: sched_ok_def)
  then show ?thesis
    using assms(3)
  proof (cases rule: after_take_cases [where ctx = ctx])
    case (1 b')
    with assms(4) show ?thesis by (intro flow_ok_same [OF assms(2)]) (simp_all add: flow_defs)
  qed
qed

lemma flow_ok_swap:
  assumes "sched_ok s" "flow_ok input s" "ex_unwritten s = []"
  shows "flow_ok input (after_Swap (Swap_start (ex_buf s) (ex_ctx s)) s)"
proof -
  have "buffer_ok (ex_buf s)" "errors_ok s" using assms(1) by (simp_all add: sched_ok_def)
  then show ?thesis
  proof (cases rule: after_Swap_cases)
    case takes
    with flow_ok_take [OF assms(1,2) takes(2) assms(3)] show ?thesis by simp
  qed (use assms(3) in \<open>auto intro!: flow_ok_same [OF assms(2)] simp: flow_defs\<close>)
qed

lemma flow_ok_cancelReader: "flow_ok input s \<Longrightarrow> flow_ok input (cancelReader s)"
  by (erule flow_ok_same) (simp_all add: flow_defs)

lemma flow_ok_Close: "flow_ok input s \<Longrightarrow> flow_ok input (do_Close e s)"
  by (erule flow_ok_same) (simp_all add: flow_defs Close_props)

lemma flow_ok_step:
  assumes "sched_ok s" "flow_ok input s" "step s s'"
  shows "flow_ok input s'"
  using assms(3)
proof cases
  case (reader_append seg segs d)
  then show ?thesis
    unfolding reader_append(1) by (intro flow_ok_reader_append [OF assms(1,2), where d = d]) simp_all
next
  case (reader_resume seg segs d)
  then show ?thesis
    unfolding reader_resume(1) by (intro flow_ok_reader_append [OF assms(1,2), where d = d]) simp_all
next
  case writer_swap
  then have "ex_unwritten s = []" by (auto simp: ex_unwritten_def)
  then show ?thesis unfolding writer_swap(1) by (rule flow_ok_swap [OF assms(1,2)])
next
  case (writer_timed ch)
  have "pb_segments (ex_buf s) \<noteq> []" "ex_unwritten s = []"
    using assms(1) writer_timed(2) by (simp_all add: sched_ok_def ex_unwritten_def)
  then show ?thesis unfolding writer_timed(1) by (rule flow_ok_take [OF assms(1,2)])
next
  case (writer_defers segs e)
  show ?thesis unfolding writer_defers(1)
    by (rule flow_ok_same [OF flow_ok_Close [OF flow_ok_cancelReader [OF assms(2)],
        of "ex_readerCtx (cancelReader s)"]]) (simp_all add: flow_defs writer_defers)
next
  case (monitor e)
  show ?thesis unfolding monitor(1) by (rule flow_ok_Close [OF assms(2)])
qed (auto intro!: flow_ok_same [OF assms(2)] simp: flow_defs Close_props)

lemma flow_ok_init: "flow_ok (concat source) (ex_init cfg m source e)"
  by (simp add: flow_ok_def ex_init_def flow_defs NewPendingBuffer_def Let_def gathered_Nil)

lemma flow_ok_reachable:
  assumes "step\<^sup>*\<^sup>* (ex_init cfg m source e) s" "list_all segment_ok (concat source)"
  shows "flow_ok (concat source) s"
  using assms(1)
proof (induction rule: rtranclp_induct)
  case base
  show ?case by (rule flow_ok_init)
next
  case (step s s')
  show ?case by (rule flow_ok_step [OF sched_ok_reachable [OF step(1) assms(2)] step(3,2)])
qed

section \<open>The queue stays within the watermark\<close>

lemma same_config_trans: "same_config a b \<Longrightarrow> same_config b c \<Longrightarrow> same_config a c"
  by (simp add: same_config_def)

lemma same_config_refl [simp]: "same_config b b"
  by (simp add: same_config_def)

text \<open>How a step changes the byte count: only an append below a watermark adds, one segment at most.\<close>

definition grows_by :: "exchange \<Rightarrow> exchange \<Rightarrow> bool" where
  "grows_by s s' \<longleftrightarrow> same_config (ex_buf s) (ex_buf s') \<and> set (ex_unsent s') \<subseteq> set (ex_unsent s)
     \<and> (pb_currentBytes (ex_buf s') \<le> pb_currentBytes (ex_buf s)
        \<or> (\<exists>seg \<in> set (ex_unsent s). pb_currentBytes (ex_buf s') \<le> pb_currentBytes (ex_buf s) + BytesLen seg)
           \<and> pb_currentBytes (ex_buf s) < max (pb_highWatermark (ex_buf s)) (pb_lowWatermark (ex_buf s)))"

lemma grows_by_reader_append:
  assumes "sched_ok s" "ex_reader s = ReaderSend (seg # segs) \<or> ex_reader s = ReaderWoken seg segs"
    and "r = Append_start d (ex_buf s) (ex_readerCtx s) seg \<or> r = Append_resume d (ex_buf s) (ex_readerCtx s) seg"
  shows "grows_by s (after_Append seg segs r s)"
proof -
  have b: "buffer_ok (ex_buf s)" and seg: "segment_ok seg"
    using assms(1,2) by (auto simp: sched_ok_def ex_unsent_def)
  show ?thesis
    using b seg assms(3)
  proof (cases rule: after_Append_cases [where segs = segs])
    case (queues f b')
    have "pb_currentBytes b' \<le> pb_currentBytes (ex_buf s) + BytesLen seg"
      using appended_bytes [OF queues(2)] b seg by (simp add: buffer_simps)
    moreover have "same_config (ex_buf s) b'"
      using queues(2) by (auto simp: appended_def same_config_def buffer_simps)
    ultimately show ?thesis using queues assms(2) by (auto simp: grows_by_def ex_unsent_def)
  qed (use assms(2) in \<open>auto simp: grows_by_def ex_unsent_def buffer_simps same_config_def\<close>)
qed

lemma grows_by_take:
  assumes "sched_ok s" "pb_segments (ex_buf s) \<noteq> []"
  shows "grows_by s (after_Swap (Swap_take (ex_buf s) ctx) s)"
proof -
  have b: "buffer_ok (ex_buf s)" using assms(1) by (simp add: sched_ok_def)
  have "0 \<le> pb_currentBytes (ex_buf s)"
    using b by (auto simp: buffer_ok_def queue_ok_def intro!: sum_list_nonneg BytesLen_pos)
  with b assms(2) show ?thesis
    by (cases rule: after_take_cases [where ctx = ctx]) (auto simp: grows_by_def ex_unsent_def)
qed

lemma grows_by_step:
  assumes "sched_ok s" "step s s'"
  shows "grows_by s s'"
  using assms(2)
proof cases
  case (reader_append seg segs d)
  then show ?thesis
    unfolding reader_append(1) by (intro grows_by_reader_append [OF assms(1), where d = d]) simp_all
next
  case (reader_resume seg segs d)
  then show ?thesis
    unfolding reader_resume(1) by (intro grows_by_reader_append [OF assms(1), where d = d]) simp_all
next
  case writer_swap
  have "buffer_ok (ex_buf s)" "errors_ok s" using assms(1) by (simp_all add: sched_ok_def)
  then show ?thesis
    unfolding writer_swap(1)
  proof (cases rule: after_Swap_cases)
    case takes
    with grows_by_take [OF assms(1) takes(2)] show "grows_by s (after_Swap (Swap_start (ex_buf s) (ex_ctx s)) s)"
      by simp
  qed (auto simp: grows_by_def ex_unsent_def)
next
  case (writer_timed ch)
  have "pb_segments (ex_buf s) \<noteq> []" using assms(1) writer_timed(2) by (simp add: sched_ok_def)
  then show ?thesis unfolding writer_timed(1) by (rule grows_by_take [OF assms(1)])
qed (auto simp: grows_by_def ex_unsent_def Close_props)

lemma member_le_sum_list_int:
  "x \<in> set xs \<Longrightarrow> (\<And>y. y \<in> set xs \<Longrightarrow> 0 \<le> f y) \<Longrightarrow> f x \<le> sum_list (map (f :: _ \<Rightarrow> int) xs)"
proof (induction xs)
  case (Cons a xs)
  have "0 \<le> sum_list (map f xs)" using Cons.prems(2) by (intro sum_list_nonneg) auto
  with Cons show ?case by (auto intro: add_increasing)
qed simp

lemma bytes_bound_reachable:
  assumes "step\<^sup>*\<^sup>* (ex_init cfg m source e) s" "list_all segment_ok (concat source)"
    and "\<forall>seg \<in> set (concat source). BytesLen seg \<le> M" "0 \<le> M"
  shows "same_config (NewPendingBuffer cfg m) (ex_buf s) \<and> set (ex_unsent s) \<subseteq> set (concat source)
    \<and> pb_currentBytes (ex_buf s) \<le> max 0 (max (pb_highWatermark (NewPendingBuffer cfg m))
        (pb_lowWatermark (NewPendingBuffer cfg m)) + M)"
  using assms(1)
proof (induction rule: rtranclp_induct)
  case base
  show ?case by (simp add: ex_init_def ex_unsent_def) (simp add: NewPendingBuffer_def Let_def)
next
  case (step s s')
  have "grows_by s s'" by (rule grows_by_step [OF sched_ok_reachable [OF step(1) assms(2)] step(2)])
  then have g: "same_config (ex_buf s) (ex_buf s')" "set (ex_unsent s') \<subseteq> set (ex_unsent s)"
    "pb_currentBytes (ex_buf s') \<le> pb_currentBytes (ex_buf s)
     \<or> (\<exists>seg \<in> set (ex_unsent s). pb_currentBytes (ex_buf s') \<le> pb_currentBytes (ex_buf s) + BytesLen seg)
       \<and> pb_currentBytes (ex_buf s) < max (pb_highWatermark (ex_buf s)) (pb_lowWatermark (ex_buf s))"
    by (simp_all add: grows_by_def)
  have c: "same_config (NewPendingBuffer cfg m) (ex_buf s')"
    using step(3) g(1) same_config_trans by blast
  have "pb_currentBytes (ex_buf s') \<le> max 0 (max (pb_highWatermark (NewPendingBuffer cfg m))
        (pb_lowWatermark (NewPendingBuffer cfg m)) + M)"
    using g(3)
  proof
    assume "(\<exists>seg \<in> set (ex_unsent s). pb_currentBytes (ex_buf s') \<le> pb_currentBytes (ex_buf s) + BytesLen seg)
       \<and> pb_currentBytes (ex_buf s) < max (pb_highWatermark (ex_buf s)) (pb_lowWatermark (ex_buf s))"
    then obtain seg where seg: "seg \<in> set (concat source)"
      "pb_currentBytes (ex_buf s') \<le> pb_currentBytes (ex_buf s) + BytesLen seg"
      "pb_currentBytes (ex_buf s) < max (pb_highWatermark (ex_buf s)) (pb_lowWatermark (ex_buf s))"
      using step(3) by blast
    have "BytesLen seg \<le> M" using assms(3) seg(1) by blast
    with seg(2,3) step(3) show ?thesis by (simp add: same_config_def)
  qed (use step(3) in simp)
  with c g(2) step(3) show ?case by blast
qed

section \<open>Every run ends\<close>

text \<open>A weight of the state that every step lowers: work still to do, and one unit per pending wake-up.\<close>

fun reader_weight :: "reader_pc \<Rightarrow> nat" where
  "reader_weight ReaderTop = 5"
| "reader_weight (ReaderSend segs) = 6 + 20 * length segs"
| "reader_weight (ReaderParked seg segs) = 24 + 20 * length segs"
| "reader_weight (ReaderWoken seg segs) = 25 + 20 * length segs"
| "reader_weight (ReaderDone segs) = 0"
| "reader_weight ReaderPanic = 0"

fun writer_weight :: "writer_pc \<Rightarrow> nat" where
  "writer_weight WriterTop = 5"
| "writer_weight WriterWoken = 5"
| "writer_weight WriterParked = 4"
| "writer_weight (WriterTimed ch) = 4"
| "writer_weight (WriterWrite segs c) = (if c then 2 else 6) + length segs"
| "writer_weight (WriterReturn segs e) = 1"
| "writer_weight (WriterDone segs e) = 0"

definition ex_weight :: "exchange \<Rightarrow> nat" where
  "ex_weight s = reader_weight (ex_reader s) + writer_weight (ex_writer s)
     + sum_list (map (\<lambda>segs. 20 * length segs + 2) (ex_source s)) + 10 * length (pb_segments (ex_buf s))
     + (if pb_closed (ex_buf s) then 0 else 3)
     + (if ex_ctx s = None then 1 else 0) + (if ex_readerCtx s = None then 1 else 0)"

lemma wake_weight:
  "reader_weight (wake_reader pc) \<le> Suc (reader_weight pc)" "writer_weight (wake_writer w) \<le> Suc (writer_weight w)"
  by (cases pc; simp) (cases w; simp)

lemma weight_reader_append:
  assumes "sched_ok s" "ex_reader s = ReaderSend (seg # segs) \<or> ex_reader s = ReaderWoken seg segs"
    and "r = Append_start d (ex_buf s) (ex_readerCtx s) seg \<or> r = Append_resume d (ex_buf s) (ex_readerCtx s) seg"
  shows "ex_weight (after_Append seg segs r s) < ex_weight s"
proof -
  have b: "buffer_ok (ex_buf s)" and seg: "segment_ok seg"
    using assms(1,2) by (auto simp: sched_ok_def ex_unsent_def)
  show ?thesis
    using b seg assms(3)
  proof (cases rule: after_Append_cases [where segs = segs])
    case (queues f b')
    have p: "push CanMerge merged (pb_segments (ex_buf s)) seg = Some (pb_segments b')"
      using queues(2) by (simp add: appended_def buffer_simps)
    have "list_all segment_ok (pb_segments (ex_buf s))" using b by (simp add: buffer_ok_def queue_ok_def)
    from seg.push_length(2) [OF p this seg]
    have "length (pb_segments b') \<le> Suc (length (pb_segments (ex_buf s)))" .
    moreover have "pb_closed b' = pb_closed (ex_buf s)" using queues(2) by (simp add: appended_def buffer_simps)
    ultimately show ?thesis
      using queues(1) assms(2) wake_weight(2) [of "ex_writer s"] by (auto simp: ex_weight_def)
  qed (use assms(2) in \<open>auto simp: ex_weight_def buffer_simps\<close>)
qed

lemma weight_take:
  assumes "sched_ok s" "pb_segments (ex_buf s) \<noteq> []" "4 \<le> writer_weight (ex_writer s)"
  shows "ex_weight (after_Swap (Swap_take (ex_buf s) ctx) s) < ex_weight s"
proof -
  have "buffer_ok (ex_buf s)" using assms(1) by (simp add: sched_ok_def)
  then show ?thesis
    using assms(2)
  proof (cases rule: after_take_cases [where ctx = ctx])
    case (1 b')
    obtain n where "length (pb_segments (ex_buf s)) = Suc n" using assms(2) by (cases "pb_segments (ex_buf s)") auto
    with 1 assms(3) wake_weight(1) [of "ex_reader s"] show ?thesis by (simp add: ex_weight_def)
  qed
qed

lemma weight_Close:
  "ex_weight (do_Close e s) \<le> ex_weight s" "\<not> pb_closed (ex_buf s) \<Longrightarrow> ex_weight (do_Close e s) < ex_weight s"
  using wake_weight(1) [of "ex_reader s"] wake_weight(2) [of "ex_writer s"]
  by (auto simp: ex_weight_def Close_props)

lemma weight_reader_close:
  assumes "ex_reader s = ReaderTop"
  shows "ex_weight ((do_Close e s)\<lparr>ex_reader := ReaderDone []\<rparr>) < ex_weight s"
  using weight_Close(1) [of e s] assms by (auto simp: ex_weight_def)

lemma weight_cancelReader: "ex_weight (cancelReader s) \<le> ex_weight s"
  by (simp add: ex_weight_def cancelReader_def)

lemma weight_writer:
  assumes "writer_weight w < writer_weight (ex_writer s)" "ex_weight s' \<le> ex_weight s" "ex_writer s' = ex_writer s"
  shows "ex_weight (s'\<lparr>ex_writer := w\<rparr>) < ex_weight s"
  using assms by (simp add: ex_weight_def)

lemma weight_swap:
  assumes "sched_ok s" "ex_writer s = WriterTop \<or> ex_writer s = WriterWoken"
  shows "ex_weight (after_Swap (Swap_start (ex_buf s) (ex_ctx s)) s) < ex_weight s"
proof -
  have "buffer_ok (ex_buf s)" "errors_ok s" using assms(1) by (simp_all add: sched_ok_def)
  then show ?thesis
  proof (cases rule: after_Swap_cases)
    case (fails e)
    with assms(2) show ?thesis
      unfolding fails(1) by (intro weight_writer weight_cancelReader) auto
  next
    case takes
    with weight_take [OF assms(1) takes(2)] assms(2) show ?thesis by auto
  qed (use assms(2) in \<open>auto simp: ex_weight_def\<close>)
qed

lemma weight_step:
  assumes "sched_ok s" "step s s'"
  shows "ex_weight s' < ex_weight s"
  using assms(2)
proof cases
  case (reader_cancelled e)
  then show ?thesis unfolding reader_cancelled(1) by (intro weight_reader_close)
next
  case reader_end
  then show ?thesis unfolding reader_end(1) by (intro weight_reader_close)
next
  case (reader_append seg segs d)
  then show ?thesis
    unfolding reader_append(1) by (intro weight_reader_append [OF assms(1), where d = d]) simp_all
next
  case (reader_resume seg segs d)
  then show ?thesis
    unfolding reader_resume(1) by (intro weight_reader_append [OF assms(1), where d = d]) simp_all
next
  case writer_swap
  then show ?thesis unfolding writer_swap(1) by (intro weight_swap [OF assms(1)])
next
  case (writer_timed ch)
  then have "pb_segments (ex_buf s) \<noteq> []" "4 \<le> writer_weight (ex_writer s)"
    using assms(1) by (simp_all add: sched_ok_def)
  then show ?thesis unfolding writer_timed(1) by (rule weight_take [OF assms(1)])
next
  case (writer_fails seg segs closed e)
  then show ?thesis unfolding writer_fails(1) by (intro weight_writer weight_cancelReader) auto
next
  case (writer_check closed)
  then show ?thesis using assms(1) by (auto simp: ex_weight_def Len_def sched_ok_def)
next
  case (writer_defers segs e)
  let ?s = "do_Close (ex_readerCtx (cancelReader s)) (cancelReader s)"
  have "ex_weight ?s \<le> ex_weight s"
    using weight_Close(1) weight_cancelReader order_trans by blast
  moreover have "ex_writer ?s = ex_writer s" using writer_defers(2) by simp
  ultimately show ?thesis unfolding writer_defers(1) using writer_defers(2) by (intro weight_writer) auto
next
  case (monitor e)
  then show ?thesis unfolding monitor(1) by (intro weight_Close(2))
qed (auto simp: ex_weight_def)

lemma run_length:
  assumes "(step ^^ n) s s'" "sched_ok s"
  shows "n + ex_weight s' \<le> ex_weight s"
  using assms
proof (induction n arbitrary: s')
  case (Suc n)
  then obtain t where t: "(step ^^ n) s t" "step t s'" by auto
  have "sched_ok t"
    using t(1) Suc.prems(2)
    by (induction n arbitrary: t) (auto intro: sched_ok_step)
  with t Suc weight_step [of t s'] show ?case by fastforce
qed simp

section \<open>No deadlock\<close>

lemma after_Swap_ctx: "ex_ctx (after_Swap r s) = ex_ctx s"
  by (cases r) (simp_all add: Let_def)

lemma after_Append_ctx: "ex_ctx (after_Append seg segs r s) = ex_ctx s"
  by (cases "(seg, segs, r, s)" rule: after_Append.cases) simp_all

text \<open>
  With a positive low watermark, until \<open>ProcessStream\<close> has returned some goroutine can move without
  a cancellation from outside.
\<close>

lemma progress:
  assumes "sched_ok s" "0 < pb_lowWatermark (ex_buf s)" "\<And>segs e. ex_writer s \<noteq> WriterDone segs e"
  shows "\<exists>s'. step s s' \<and> ex_ctx s' = ex_ctx s"
proof (cases "ex_writer s")
  case WriterTop
  then show ?thesis using writer_swap after_Swap_ctx by blast
next
  case WriterWoken
  then show ?thesis using writer_swap after_Swap_ctx by blast
next
  case (WriterTimed ch)
  then show ?thesis using writer_timed after_Swap_ctx by blast
next
  case (WriterWrite segs c)
  show ?thesis
  proof (cases segs)
    case Nil
    with WriterWrite writer_check [of s c] show ?thesis by fastforce
  next
    case (Cons seg rest)
    with WriterWrite writer_write [of s seg rest c] show ?thesis by fastforce
  qed
next
  case (WriterReturn segs e)
  from writer_defers [OF this] show ?thesis by fastforce
next
  case (WriterDone segs e)
  with assms(3) show ?thesis by blast
next
  case WriterParked
  with assms(1) have w: "pb_segments (ex_buf s) = []" "\<not> pb_closed (ex_buf s)"
    and r: "reader_at (ex_buf s) (ex_readerCtx s) (ex_reader s)"
    and z: "pb_currentBytes (ex_buf s) = 0"
    by (auto simp: sched_ok_def buffer_ok_def queue_ok_def)
  have mon: ?thesis if "ex_readerCtx s = Some e" for e
    using monitor [OF that w(2)] by fastforce
  show ?thesis
  proof (cases "ex_reader s")
    case ReaderTop
    show ?thesis
    proof (cases "ex_readerCtx s")
      case None
      show ?thesis
      proof (cases "ex_source s")
        case Nil
        from reader_end [OF ReaderTop None Nil] show ?thesis by fastforce
      next
        case (Cons segs rest)
        from reader_event [OF ReaderTop None Cons] show ?thesis by fastforce
      qed
    qed (rule mon)
  next
    case (ReaderSend segs)
    show ?thesis
    proof (cases segs)
      case Nil
      with ReaderSend reader_sent [of s] show ?thesis by fastforce
    next
      case (Cons seg rest)
      with ReaderSend reader_append [of s seg rest] after_Append_ctx show ?thesis by blast
    qed
  next
    case (ReaderWoken seg segs)
    with reader_resume [of s seg segs] after_Append_ctx show ?thesis by blast
  next
    case (ReaderParked seg segs)
    with r z assms(2) show ?thesis by simp
  next
    case (ReaderDone segs)
    with r w(2) obtain e where "ex_readerCtx s = Some e" by auto
    then show ?thesis by (rule mon)
  next
    case ReaderPanic
    with r show ?thesis by simp
  qed
qed

end
