(* ===== verification/Schedule.thy ===== *)
theory Schedule
  imports Exchange
begin

text \<open>
  The step relation of theory \<open>Exchange\<close> as a function of the goroutine that moves, so that a
  schedule can be executed: \<open>perform a s\<close> is the one step action \<open>a\<close> can make in \<open>s\<close>.  A reader action
  carries the measured duration of the pause, if the step has one.
\<close>

datatype action =
    ActReader int | ActWriter | ActWriteFail bytes | ActCancel bytes | ActPropagate | ActMonitor

definition perform_reader :: "int \<Rightarrow> exchange \<Rightarrow> exchange option" where
  "perform_reader d s =
     (case ex_reader s of
        ReaderTop \<Rightarrow>
          (case ex_readerCtx s of
             Some e \<Rightarrow> Some ((do_Close (Some e) s)\<lparr>ex_reader := ReaderDone []\<rparr>)
           | None \<Rightarrow>
               (case ex_source s of
                  [] \<Rightarrow> Some ((do_Close (close_error (ex_end s)) s)\<lparr>ex_reader := ReaderDone []\<rparr>)
                | segs # rest \<Rightarrow> Some (s\<lparr>ex_source := rest, ex_reader := ReaderSend segs\<rparr>)))
      | ReaderSend [] \<Rightarrow> Some (s\<lparr>ex_reader := ReaderTop\<rparr>)
      | ReaderSend (seg # segs) \<Rightarrow>
          Some (after_Append seg segs (Append_start d (ex_buf s) (ex_readerCtx s) seg) s)
      | ReaderWoken seg segs \<Rightarrow>
          Some (after_Append seg segs (Append_resume d (ex_buf s) (ex_readerCtx s) seg) s)
      | _ \<Rightarrow> None)"

definition perform_writer :: "exchange \<Rightarrow> exchange option" where
  "perform_writer s =
     (case ex_writer s of
        WriterTop \<Rightarrow> Some (after_Swap (Swap_start (ex_buf s) (ex_ctx s)) s)
      | WriterWoken \<Rightarrow> Some (after_Swap (Swap_start (ex_buf s) (ex_ctx s)) s)
      | WriterTimed ch \<Rightarrow> Some (after_Swap (Swap_take (ex_buf s) (ex_ctx s)) s)
      | WriterWrite [] closed \<Rightarrow>
          Some (s\<lparr>ex_writer := (if closed \<and> Len (ex_buf s) = 0 then WriterReturn [] None else WriterTop)\<rparr>)
      | WriterWrite (seg # segs) closed \<Rightarrow>
          Some (s\<lparr>ex_out := ex_out s @ [seg], ex_writer := WriterWrite segs closed\<rparr>)
      | WriterReturn segs e \<Rightarrow>
          Some ((do_Close (ex_readerCtx (cancelReader s)) (cancelReader s))\<lparr>ex_writer := WriterDone segs e\<rparr>)
      | _ \<Rightarrow> None)"

fun perform :: "action \<Rightarrow> exchange \<Rightarrow> exchange option" where
  "perform (ActReader d) s = perform_reader d s"
| "perform ActWriter s = perform_writer s"
| "perform (ActWriteFail e) s =
     (case ex_writer s of
        WriterWrite (seg # segs) closed \<Rightarrow>
          Some ((cancelReader s)\<lparr>ex_writer := WriterReturn (seg # segs) (Some (ErrWrite e))\<rparr>)
      | _ \<Rightarrow> None)"
| "perform (ActCancel e) s = (if ex_ctx s = None then Some (s\<lparr>ex_ctx := Some (ErrContext e)\<rparr>) else None)"
| "perform ActPropagate s =
     (case ex_ctx s of Some e \<Rightarrow> if ex_readerCtx s = None then Some (s\<lparr>ex_readerCtx := Some e\<rparr>) else None
      | None \<Rightarrow> None)"
| "perform ActMonitor s =
     (case ex_readerCtx s of
        Some e \<Rightarrow> if pb_closed (ex_buf s) then None else Some (do_Close (Some e) s)
      | None \<Rightarrow> None)"

fun run_schedule :: "action list \<Rightarrow> exchange \<Rightarrow> exchange option" where
  "run_schedule [] s = Some s"
| "run_schedule (a # as) s = (case perform a s of None \<Rightarrow> None | Some s' \<Rightarrow> run_schedule as s')"

lemma writer_check_cases:
  "ex_writer s = WriterWrite [] c \<Longrightarrow> c \<Longrightarrow> Len (ex_buf s) = 0 \<Longrightarrow> step s (s\<lparr>ex_writer := WriterReturn [] None\<rparr>)"
  "ex_writer s = WriterWrite [] c \<Longrightarrow> \<not> c \<or> 0 < Len (ex_buf s) \<Longrightarrow> step s (s\<lparr>ex_writer := WriterTop\<rparr>)"
  using writer_check [of s c] by auto

lemma perform_step: "perform a s = Some s' \<Longrightarrow> step s s'"
  by (cases "(a, s)" rule: perform.cases)
    (auto simp: perform_reader_def perform_writer_def intro: step.intros writer_check_cases
      split: reader_pc.splits writer_pc.splits list.splits option.splits if_splits)

lemma step_perform: "step s s' \<Longrightarrow> \<exists>a. perform a s = Some s'"
proof (induction rule: step.induct)
  case (reader_cancelled s e)
  then show ?case by (intro exI [of _ "ActReader 0"]) (simp add: perform_reader_def)
next
  case (reader_event s segs rest)
  then show ?case by (intro exI [of _ "ActReader 0"]) (simp add: perform_reader_def)
next
  case (reader_end s)
  then show ?case by (intro exI [of _ "ActReader 0"]) (simp add: perform_reader_def)
next
  case (reader_sent s)
  then show ?case by (intro exI [of _ "ActReader 0"]) (simp add: perform_reader_def)
next
  case (reader_append s seg segs d)
  then show ?case by (intro exI [of _ "ActReader d"]) (simp add: perform_reader_def)
next
  case (reader_resume s seg segs d)
  then show ?case by (intro exI [of _ "ActReader d"]) (simp add: perform_reader_def)
next
  case (writer_swap s)
  then show ?case by (intro exI [of _ ActWriter]) (auto simp: perform_writer_def)
next
  case (writer_timed s ch)
  then show ?case by (intro exI [of _ ActWriter]) (simp add: perform_writer_def)
next
  case (writer_write s seg segs closed)
  then show ?case by (intro exI [of _ ActWriter]) (simp add: perform_writer_def)
next
  case (writer_fails s seg segs closed e)
  then show ?case by (intro exI [of _ "ActWriteFail e"]) simp
next
  case (writer_check s closed)
  then show ?case by (intro exI [of _ ActWriter]) (simp add: perform_writer_def)
next
  case (writer_defers s segs e)
  then show ?case by (intro exI [of _ ActWriter]) (simp add: perform_writer_def)
next
  case (cancel s e)
  then show ?case by (intro exI [of _ "ActCancel e"]) simp
next
  case (propagate s e)
  then show ?case by (intro exI [of _ ActPropagate]) simp
next
  case (monitor s e)
  then show ?case by (intro exI [of _ ActMonitor]) simp
qed

lemma run_schedule_reaches: "run_schedule as s = Some s' \<Longrightarrow> step\<^sup>*\<^sup>* s s'"
  by (induction as s rule: run_schedule.induct)
    (auto split: option.splits intro: converse_rtranclp_into_rtranclp perform_step)

section \<open>Sample segments\<close>

definition sample_meta :: common_metadata where
  "sample_meta = \<lparr>md_ID = ''c1'', md_Object = [], md_Created = 1700000000, md_Model = ''m'',
     md_SystemFingerprint = [], md_ServiceTier = [], md_Extra = None\<rparr>"

definition sample_text :: "bytes \<Rightarrow> segment" where
  "sample_text t = Content \<lparr>cs_ChoiceIndex = 0, cs_Text = t, cs_Metadata = sample_meta\<rparr>"

definition sample_role :: "bytes \<Rightarrow> segment" where
  "sample_role r = Role \<lparr>ro_ChoiceIndex = 0, ro_Role = r, ro_Metadata = sample_meta\<rparr>"

lemma sample_simps [simp]:
  "BytesLen (sample_text t) = int (length t) + 64" "segment_ok (sample_text t)"
  "CanMerge (sample_text t) (sample_text u)" "\<not> CanMerge (sample_role r) (sample_text t)"
  "merged (sample_text t) (sample_text u) = Some (sample_text (t @ u))"
  "Merge (sample_text t) (sample_text u) = Some (True, sample_text (t @ u))"
  "view i (sample_text t) = map (Byte (ChContent 0)) t" "isCoalesceableSegment (sample_text t)"
  "segment_ok (sample_role r)"
  by (simp_all add: sample_text_def sample_role_def content_CanMerge_def content_Merge_def Merge_def
      isCoalesceableSegment_def CanMerge_def)

lemmas run_simps = ex_init_def NewPendingBuffer_def Let_def perform_reader_def perform_writer_def
  Append_start_def Append_body_def Append_resume_def Append_must_wait_def Swap_start_def Swap_must_wait_def
  Swap_should_wait_def Swap_take_def buffer_simps quot_def Len_def with_metrics_def notifyBarrierLocked_def
  resetBarrierLocked_def do_Close_def Close_def close_error_def cancelReader_def DefaultBufferConfig_def

section \<open>Properties\<close>


definition sample_run :: "action list" where
  "sample_run = [ActReader 0, ActReader 0, ActReader 0, ActWriter, ActWriter, ActReader 0, ActReader 0, ActWriter,
     ActWriter, ActWriter]"

definition sample_end :: exchange where
  "sample_end = the (run_schedule sample_run
     (ex_init DefaultBufferConfig None [[sample_text ''a'', sample_text ''b'']] EOF))"

lemma sample_run_ends:
  "run_schedule sample_run (ex_init DefaultBufferConfig None [[sample_text ''a'', sample_text ''b'']] EOF)
   = Some sample_end \<and> ex_out sample_end = [sample_text ''ab''] \<and> ex_writer sample_end = WriterReturn [] None
   \<and> ex_readerCtx sample_end = None"
  by (simp add: sample_end_def sample_run_def run_simps)




text \<open>
  C8: no deadlock.  With a positive low watermark, in every reachable state in which \<open>ProcessStream\<close> has
  not returned some goroutine can take a step without help from outside: no wake-up is lost, and
  reader and writer never wait for each other.
\<close>
theorem exchange_never_stuck:
  assumes "step\<^sup>*\<^sup>* (ex_init cfg m source e) s" "list_all segment_ok (concat source)"
    and "0 < pb_lowWatermark (NewPendingBuffer cfg m)" "\<forall>segs err. ex_writer s \<noteq> WriterDone segs err"
  shows "\<exists>s'. step s s' \<and> ex_ctx s' = ex_ctx s"
proof (rule progress [OF sched_ok_reachable [OF assms(1,2)]])
  define M where "M = sum_list (map BytesLen (concat source))"
  have "\<forall>seg \<in> set (concat source). BytesLen seg \<le> M"
    unfolding M_def by (intro ballI member_le_sum_list_int) (auto intro: BytesLen_pos)
  moreover have "0 \<le> M" unfolding M_def by (auto intro!: sum_list_nonneg BytesLen_pos)
  ultimately have "same_config (NewPendingBuffer cfg m) (ex_buf s)"
    using bytes_bound_reachable [OF assms(1,2)] by blast
  with assms(3) show "0 < pb_lowWatermark (ex_buf s)" by (simp add: same_config_def)
  show "ex_writer s \<noteq> WriterDone segs err" for segs err using assms(4) by blast
qed

text \<open>
  C39: a high watermark of 1 deadlocks.  \<open>NewPendingBuffer\<close> then computes a low watermark of 0, below
  which the byte count never falls: there is a run after which the queue is empty, reader and writer
  both wait, and only a cancellation from outside can move the stream.
\<close>
theorem watermark_one_deadlocks:
  "\<exists>s. step\<^sup>*\<^sup>* (ex_init \<lparr>HighWatermark = 1, LowWatermark = 0, MinCoalesceWait = 0\<rparr> None
          [[sample_text ''a''], [sample_text ''b'']] EOF) s
     \<and> ex_unsent s = [sample_text ''b''] \<and> pb_segments (ex_buf s) = []
     \<and> ex_ctx s = None \<and> (\<nexists>s'. step s s' \<and> ex_ctx s' = None)"
proof -
  let ?run = "[ActReader 0, ActReader 0, ActReader 0, ActReader 0, ActReader 0, ActWriter, ActReader 0,
    ActWriter, ActWriter, ActWriter]"
  let ?init = "ex_init \<lparr>HighWatermark = 1, LowWatermark = 0, MinCoalesceWait = 0\<rparr> None
    [[sample_text ''a''], [sample_text ''b'']] EOF"
  obtain s where s: "run_schedule ?run ?init = Some s" "ex_writer s = WriterParked"
    "ex_reader s = ReaderParked (sample_text ''b'') []" "ex_readerCtx s = None" "ex_ctx s = None"
    "pb_segments (ex_buf s) = []" "ex_source s = []"
    by (simp add: run_simps)
  have "\<nexists>s'. step s s' \<and> ex_ctx s' = None"
    using s by (auto elim!: step.cases)
  with s run_schedule_reaches [OF s(1)] show ?thesis
    by (intro exI [of _ s]) (simp add: ex_unsent_def)
qed

text \<open>
  C40: an upstream failure can go unreported.  When the upstream fails while segments are queued,
  \<open>ProcessStream\<close> writes them and returns without an error.
\<close>
theorem upstream_error_swallowed:
  "\<exists>s. step\<^sup>*\<^sup>* (ex_init DefaultBufferConfig None [[sample_text ''a'']] (IOError ''reset'')) s
     \<and> ex_writer s = WriterDone [] None \<and> ex_out s = [sample_text ''a'']
     \<and> pb_upstreamErr (ex_buf s) = Some (ErrRead (IOError ''reset''))"
proof -
  let ?run = "[ActReader 0, ActReader 0, ActReader 0, ActReader 0, ActWriter, ActWriter, ActWriter, ActWriter]"
  have "\<exists>s. run_schedule ?run (ex_init DefaultBufferConfig None [[sample_text ''a'']] (IOError ''reset'')) = Some s
     \<and> ex_writer s = WriterDone [] None \<and> ex_out s = [sample_text ''a'']
     \<and> pb_upstreamErr (ex_buf s) = Some (ErrRead (IOError ''reset''))"
    by (simp add: run_simps)
  then show ?thesis using run_schedule_reaches by blast
qed

section \<open>Witnesses\<close>

lemma sample_reached:
  "step\<^sup>*\<^sup>* (ex_init DefaultBufferConfig None [[sample_text ''a'', sample_text ''b'']] EOF) sample_end"
  using sample_run_ends run_schedule_reaches by blast





theorem exchange_never_stuck_witness:
  "\<exists>s'. step sample_end s' \<and> ex_ctx s' = ex_ctx sample_end"
  by (rule exchange_never_stuck [OF sample_reached]) (simp_all add: sample_run_ends run_simps)

end
