(* ===== verification/Pipeline.thy ===== *)
theory Pipeline
  imports Schedule Serializer
begin

text \<open>
  \<open>pkg/aggregator/stream.go\<close>: the whole of \<open>StreamPipeline\<close>.  Theory \<open>Exchange\<close> has the goroutines
  around the buffer; here the reader also parses the events and counts what it appends, the writer
  serializes, writes, flushes and counts, and \<open>ProcessStream\<close> reports the stream when it returns.

  A time is the number of nanoseconds since the epoch, the zero \<open>time.Time\<close> is \<open>None\<close>, and every
  \<open>time.Now()\<close> is a parameter of the step that calls it.  The pipeline and its buffer share one
  \<open>StreamMetrics\<close>: while a stream runs, it is the one in the buffer.
\<close>

record stream_pipeline =
  sp_cfg :: buffer_config
  sp_metrics :: stream_metrics
  sp_parser :: parser
  sp_serializer :: serializer
  sp_protocol :: protocol
  sp_initialModel :: bytes
  sp_startTime :: "int option"
  sp_packetCb :: bool

definition unix_seconds :: "int \<Rightarrow> int" where
  "unix_seconds t = t div 1000000000"

definition NewStreamPipeline :: "int \<Rightarrow> buffer_config \<Rightarrow> stream_metrics option \<Rightarrow> stream_pipeline" where
  "NewStreamPipeline now cfg m =
     \<lparr>sp_cfg = cfg, sp_metrics = (case m of None \<Rightarrow> zero_metrics | Some m \<Rightarrow> m),
      sp_parser = NewParser (unix_seconds now), sp_serializer = NewSerializer, sp_protocol = ProtocolAuto,
      sp_initialModel = [], sp_startTime = None, sp_packetCb = False\<rparr>"

definition SetProtocol_pipeline :: "protocol \<Rightarrow> stream_pipeline \<Rightarrow> stream_pipeline" where
  "SetProtocol_pipeline proto p = p\<lparr>sp_protocol := proto, sp_parser := SetProtocol proto (sp_parser p)\<rparr>"

definition Protocol_pipeline :: "stream_pipeline \<Rightarrow> protocol" where
  "Protocol_pipeline p = sp_protocol p"

definition SetRequestInfo :: "bytes \<Rightarrow> int option \<Rightarrow> stream_pipeline \<Rightarrow> stream_pipeline" where
  "SetRequestInfo model start p =
     (let p = p\<lparr>sp_initialModel := model, sp_startTime := start\<rparr>
      in if start \<noteq> None then p\<lparr>sp_parser := SetStartTime (map_option unix_seconds start) (sp_parser p)\<rparr> else p)"

definition SetModelOverride_pipeline :: "bytes \<Rightarrow> stream_pipeline \<Rightarrow> stream_pipeline" where
  "SetModelOverride_pipeline model p = p\<lparr>sp_serializer := SetModelOverride model (sp_serializer p)\<rparr>"

definition SetPacketCallback :: "bool \<Rightarrow> stream_pipeline \<Rightarrow> stream_pipeline" where
  "SetPacketCallback cb p = p\<lparr>sp_packetCb := cb\<rparr>"

section \<open>Completion tokens\<close>

fun completion_tokens :: "gomap \<Rightarrow> bytes list \<Rightarrow> int" where
  "completion_tokens m [] = 0"
| "completion_tokens m (key # keys) =
     (case map_of m key of
        Some (GFloat f) \<Rightarrow> int64_of_f64 f
      | Some (GInt i) \<Rightarrow> i
      | _ \<Rightarrow> completion_tokens m keys)"

definition extractCompletionTokens :: "goval \<Rightarrow> int" where
  "extractCompletionTokens usage =
     (case usage of GObj m \<Rightarrow> completion_tokens m [''completion_tokens'', ''output_tokens''] | _ \<Rightarrow> 0)"

section \<open>State of a running stream\<close>

text \<open>
  The local variables of \<open>ProcessStream\<close>: its counters and times, the events still to be read, the bytes
  written (one entry per \<open>Write\<close>), those the packet callback saw, how many of the writes have been
  flushed, and the report once it is made.  The source of the exchange is not used: a step of the reader
  parses the next event.
\<close>

record stream_run =
  rn_pipe :: stream_pipeline
  rn_ex :: exchange
  rn_heap :: heap
  rn_events :: "event list"
  rn_reqStart :: int
  rn_firstToken :: "int option"
  rn_lastToken :: "int option"
  rn_upstreamEnd :: "int option"
  rn_lastClient :: "int option"
  rn_totalTokens :: int
  rn_usageTokens :: int
  rn_flusher :: bool
  rn_sent :: "bytes list"
  rn_packets :: "bytes list"
  rn_flushed :: bool
  rn_visible :: nat
  rn_panic :: bool
  rn_report :: "stream_report option option"

definition start_stream :: "stream_pipeline \<Rightarrow> heap \<Rightarrow> event list \<Rightarrow> io_error \<Rightarrow> bool \<Rightarrow> int \<Rightarrow> stream_run" where
  "start_stream p h evs e flusher now =
     \<lparr>rn_pipe = p, rn_ex = ex_init (sp_cfg p) (Some (sp_metrics p)) [] e, rn_heap = h, rn_events = evs,
      rn_reqStart = (case sp_startTime p of Some t \<Rightarrow> t | None \<Rightarrow> now),
      rn_firstToken = None, rn_lastToken = None, rn_upstreamEnd = None, rn_lastClient = None,
      rn_totalTokens = 0, rn_usageTokens = 0, rn_flusher = flusher, rn_sent = [], rn_packets = [],
      rn_flushed = False, rn_visible = 0, rn_panic = False, rn_report = None\<rparr>"

definition on_ex :: "(exchange \<Rightarrow> exchange) \<Rightarrow> stream_run \<Rightarrow> stream_run" where
  "on_ex f r = r\<lparr>rn_ex := f (rn_ex r)\<rparr>"

text \<open>An update of the shared metrics.\<close>

definition meter :: "(stream_metrics \<Rightarrow> stream_metrics) \<Rightarrow> stream_run \<Rightarrow> stream_run" where
  "meter f = on_ex (\<lambda>x. x\<lparr>ex_buf := with_metrics f (ex_buf x)\<rparr>)"

definition rn_metrics :: "stream_run \<Rightarrow> stream_metrics" where
  "rn_metrics r = (case pb_metrics (ex_buf (rn_ex r)) of Some m \<Rightarrow> m | None \<Rightarrow> zero_metrics)"

section \<open>Reader\<close>

definition recordToken :: "int \<Rightarrow> stream_run \<Rightarrow> stream_run" where
  "recordToken now r =
     r\<lparr>rn_firstToken := (if rn_firstToken r = None then Some now else rn_firstToken r),
       rn_lastToken := Some now\<rparr>"

definition count_token :: "(stream_metrics \<Rightarrow> stream_metrics) \<Rightarrow> int \<Rightarrow> stream_run \<Rightarrow> stream_run" where
  "count_token f now r =
     (let r = recordToken now (meter f r) in r\<lparr>rn_totalTokens := wrap64 (rn_totalTokens r + 1)\<rparr>)"

definition store_usage :: "goval \<Rightarrow> stream_run \<Rightarrow> stream_run" where
  "store_usage usage r =
     (let ct = extractCompletionTokens usage in if 0 < ct then r\<lparr>rn_usageTokens := ct\<rparr> else r)"

text \<open>\<open>nows\<close> are the readings of the clock, one for each token of the segment.\<close>

fun count_segment :: "(nat \<Rightarrow> int) \<Rightarrow> segment \<Rightarrow> stream_run \<Rightarrow> stream_run" where
  "count_segment nows (Reasoning v) r = count_token IncReasoningFragmentsIn (nows 0) r"
| "count_segment nows (ResponseReasoning v) r = count_token IncReasoningFragmentsIn (nows 0) r"
| "count_segment nows (Content v) r = count_token IncContentFragmentsIn (nows 0) r"
| "count_segment nows (ResponseText v) r = count_token IncContentFragmentsIn (nows 0) r"
| "count_segment nows (ToolCall v) r =
     fold (\<lambda>k. count_token IncToolArgumentFragmentsIn (nows k)) [0..<length (ts_Calls v)] r"
| "count_segment nows (ResponseTool v) r = count_token IncToolArgumentFragmentsIn (nows 0) r"
| "count_segment nows (Usage v) r = store_usage (us_Usage v) r"
| "count_segment nows (ResponseControl v) r =
     (let r = (if ct_Usage v \<noteq> GNil then store_usage (ct_Usage v) r else r)
      in if ct_Model v \<noteq> [] \<and> sp_initialModel (rn_pipe r) = []
         then r\<lparr>rn_pipe := (rn_pipe r)\<lparr>sp_initialModel := ct_Model v\<rparr>\<rparr> else r)"
| "count_segment nows (Role v) r = r"
| "count_segment nows (Finish v) r = r"
| "count_segment nows (Raw v) r = r"

text \<open>One event: counted, parsed, its segments to be appended.\<close>

definition take_event :: "event \<Rightarrow> event list \<Rightarrow> stream_run \<Rightarrow> stream_run" where
  "take_event ev rest r =
     (let r = meter (AddUpstreamBytes (int (length (ev_Data ev)))) (meter IncUpstreamEvents r);
          (segs, p, h) = ParseEvent ev (sp_parser (rn_pipe r), rn_heap r)
      in on_ex (ex_reader_update (\<lambda>_. ReaderSend segs))
           (r\<lparr>rn_pipe := (rn_pipe r)\<lparr>sp_parser := p\<rparr>, rn_heap := h, rn_events := rest\<rparr>))"

text \<open>The deferred function of the reader's goroutine, run if it has returned.\<close>

definition reader_defer :: "int \<Rightarrow> stream_run \<Rightarrow> stream_run" where
  "reader_defer now r =
     (case ex_reader (rn_ex r) of
        ReaderDone segs \<Rightarrow> if rn_upstreamEnd r = None then r\<lparr>rn_upstreamEnd := Some now\<rparr> else r
      | _ \<Rightarrow> r)"

definition reader_close :: "err option \<Rightarrow> int \<Rightarrow> stream_run \<Rightarrow> stream_run" where
  "reader_close e now r = reader_defer now (on_ex (\<lambda>x. (do_Close e x)\<lparr>ex_reader := ReaderDone []\<rparr>) r)"

section \<open>Writer\<close>

text \<open>The counters of a written segment, \<open>d\<close> being the duration of the write.\<close>

definition count_written :: "int \<Rightarrow> bytes \<Rightarrow> stream_run \<Rightarrow> stream_run" where
  "count_written d out r =
     meter (AddDownstreamBytes (int (length out))) (meter IncDownstreamEvents (meter (AddDownstreamWrite d) r))"

fun count_out :: "int \<Rightarrow> segment \<Rightarrow> stream_run \<Rightarrow> stream_run" where
  "count_out now (Reasoning v) r = (meter IncReasoningEventsOut r)\<lparr>rn_lastClient := Some now\<rparr>"
| "count_out now (ResponseReasoning v) r = (meter IncReasoningEventsOut r)\<lparr>rn_lastClient := Some now\<rparr>"
| "count_out now (Content v) r = (meter IncContentEventsOut r)\<lparr>rn_lastClient := Some now\<rparr>"
| "count_out now (ResponseText v) r = (meter IncContentEventsOut r)\<lparr>rn_lastClient := Some now\<rparr>"
| "count_out now (ToolCall v) r = (meter IncToolEventsOut r)\<lparr>rn_lastClient := Some now\<rparr>"
| "count_out now (ResponseTool v) r = (meter IncToolEventsOut r)\<lparr>rn_lastClient := Some now\<rparr>"
| "count_out now (Role v) r = r"
| "count_out now (Finish v) r = r"
| "count_out now (Usage v) r = r"
| "count_out now (Raw v) r = r"
| "count_out now (ResponseControl v) r = r"

definition call_packetCb :: "bytes \<Rightarrow> stream_run \<Rightarrow> stream_run" where
  "call_packetCb out r = (if sp_packetCb (rn_pipe r) then r\<lparr>rn_packets := rn_packets r @ [out]\<rparr> else r)"

text \<open>
  One segment of the snapshot.  \<open>unix\<close> is the time the serializer sees, \<open>d\<close> the duration of the write,
  \<open>now\<close> the time after it; \<open>fails\<close> is the error of the write, if it fails.
\<close>

definition write_segment :: "int \<Rightarrow> int \<Rightarrow> int \<Rightarrow> bytes option \<Rightarrow> segment \<Rightarrow> segment list \<Rightarrow> bool
    \<Rightarrow> stream_run \<Rightarrow> stream_run" where
  "write_segment unix d now fails seg segs closed r =
     (case SerializeSegment (sp_serializer (rn_pipe r)) (rn_heap r) unix seg of
        None \<Rightarrow> on_ex (ex_writer_update (\<lambda>_. WriterReturn (seg # segs) None)) (r\<lparr>rn_panic := True\<rparr>)
      | Some out \<Rightarrow>
          if length out = 0 then on_ex (ex_writer_update (\<lambda>_. WriterWrite segs closed)) r
          else (let r = call_packetCb out r
                in case fails of
                     Some e \<Rightarrow>
                       on_ex (\<lambda>x. (cancelReader x)\<lparr>ex_writer := WriterReturn (seg # segs) (Some (ErrWrite e))\<rparr>) r
                   | None \<Rightarrow>
                       count_out now seg
                         ((count_written d out
                            (on_ex (\<lambda>x. x\<lparr>ex_out := ex_out x @ [seg], ex_writer := WriterWrite segs closed\<rparr>)
                              (r\<lparr>rn_sent := rn_sent r @ [out]\<rparr>)))\<lparr>rn_flushed := True\<rparr>)))"

text \<open>After the snapshot: the flush, and the test whether the stream is over.\<close>

definition end_snapshot :: "bool \<Rightarrow> stream_run \<Rightarrow> stream_run" where
  "end_snapshot closed r =
     (let r = (if rn_flushed r \<and> rn_flusher r then r\<lparr>rn_visible := length (rn_sent r)\<rparr> else r)
      in on_ex (\<lambda>x. x\<lparr>ex_writer := (if closed \<and> Len (ex_buf x) = 0 then WriterReturn [] None else WriterTop)\<rparr>)
           (r\<lparr>rn_flushed := False\<rparr>))"

section \<open>The report\<close>

text \<open>\<open>t.Sub(u)\<close>: a \<open>time.Duration\<close>, saturating.\<close>

definition time_sub :: "int \<Rightarrow> int \<Rightarrow> int" where
  "time_sub t u = max (- (2 ^ 63)) (min (2 ^ 63 - 1) (t - u))"

definition or_time :: "int option \<Rightarrow> int option \<Rightarrow> int option" where
  "or_time t u = (if t = None then u else t)"

definition final_model :: "stream_pipeline \<Rightarrow> bytes" where
  "final_model p =
     (let model = sp_initialModel p;
          model = (if model = [] then Model (sp_parser p) else model)
      in if model = [] then ''unknown'' else model)"

definition final_report :: "int \<Rightarrow> stream_run \<Rightarrow> stream_report option" where
  "final_report clientEnd r =
     (let tokens = (if 0 < rn_usageTokens r then rn_usageTokens r else rn_totalTokens r);
          uEnd = the (or_time (or_time (rn_lastToken r) (rn_upstreamEnd r)) (Some clientEnd));
          cEnd = the (or_time (rn_lastClient r) (Some clientEnd))
      in case rn_firstToken r of
           Some ft \<Rightarrow> Some (final_model (rn_pipe r), tokens, time_sub ft (rn_reqStart r), time_sub uEnd ft,
                            [time_sub cEnd ft])
         | None \<Rightarrow>
             if 0 < tokens then Some (final_model (rn_pipe r), tokens, time_sub clientEnd (rn_reqStart r), 0, [0])
             else None)"

definition make_report :: "int \<Rightarrow> stream_run \<Rightarrow> stream_run" where
  "make_report clientEnd r =
     (let rep = final_report clientEnd r
      in (meter (case rep of Some x \<Rightarrow> record_report x | None \<Rightarrow> id) r)\<lparr>rn_report := Some rep\<rparr>)"

section \<open>Steps\<close>

inductive run_step :: "stream_run \<Rightarrow> stream_run \<Rightarrow> bool" where
  run_cancelled: "ex_reader (rn_ex r) = ReaderTop \<Longrightarrow> ex_readerCtx (rn_ex r) = Some e
    \<Longrightarrow> run_step r (reader_close (Some e) now r)"
| run_event: "ex_reader (rn_ex r) = ReaderTop \<Longrightarrow> ex_readerCtx (rn_ex r) = None \<Longrightarrow> rn_events r = ev # rest
    \<Longrightarrow> run_step r (take_event ev rest r)"
| run_end: "ex_reader (rn_ex r) = ReaderTop \<Longrightarrow> ex_readerCtx (rn_ex r) = None \<Longrightarrow> rn_events r = []
    \<Longrightarrow> run_step r (reader_close (close_error (ex_end (rn_ex r))) now r)"
| run_sent: "ex_reader (rn_ex r) = ReaderSend [] \<Longrightarrow> run_step r (on_ex (ex_reader_update (\<lambda>_. ReaderTop)) r)"
| run_append: "ex_reader (rn_ex r) = ReaderSend (seg # segs) \<Longrightarrow> q = count_segment nows seg r
    \<Longrightarrow> run_step r (reader_defer now
          (on_ex (after_Append seg segs (Append_start d (ex_buf (rn_ex q)) (ex_readerCtx (rn_ex q)) seg)) q))"
| run_resume: "ex_reader (rn_ex r) = ReaderWoken seg segs
    \<Longrightarrow> run_step r (reader_defer now
          (on_ex (after_Append seg segs (Append_resume d (ex_buf (rn_ex r)) (ex_readerCtx (rn_ex r)) seg)) r))"
| run_swap: "ex_writer (rn_ex r) = WriterTop \<or> ex_writer (rn_ex r) = WriterWoken
    \<Longrightarrow> run_step r (on_ex (\<lambda>x. after_Swap (Swap_start (ex_buf x) (ex_ctx x)) x) r)"
| run_timed: "ex_writer (rn_ex r) = WriterTimed ch
    \<Longrightarrow> run_step r (on_ex (\<lambda>x. after_Swap (Swap_take (ex_buf x) (ex_ctx x)) x) r)"
| run_write: "ex_writer (rn_ex r) = WriterWrite (seg # segs) closed
    \<Longrightarrow> run_step r (write_segment unix d now fails seg segs closed r)"
| run_check: "ex_writer (rn_ex r) = WriterWrite [] closed \<Longrightarrow> run_step r (end_snapshot closed r)"
| run_defers: "ex_writer (rn_ex r) = WriterReturn segs e
    \<Longrightarrow> run_step r (on_ex (\<lambda>x. (do_Close (ex_readerCtx (cancelReader x)) (cancelReader x))
                              \<lparr>ex_writer := WriterDone segs e\<rparr>) r)"
| run_report: "ex_writer (rn_ex r) = WriterDone segs e \<Longrightarrow> rn_report r = None
    \<Longrightarrow> run_step r (make_report clientEnd r)"
| run_cancel: "ex_ctx (rn_ex r) = None \<Longrightarrow> run_step r (on_ex (ex_ctx_update (\<lambda>_. Some (ErrContext e))) r)"
| run_propagate: "ex_ctx (rn_ex r) = Some e \<Longrightarrow> ex_readerCtx (rn_ex r) = None
    \<Longrightarrow> run_step r (on_ex (ex_readerCtx_update (\<lambda>_. Some e)) r)"
| run_monitor: "ex_readerCtx (rn_ex r) = Some e \<Longrightarrow> \<not> pb_closed (ex_buf (rn_ex r))
    \<Longrightarrow> run_step r (on_ex (do_Close (Some e)) r)"

end
