(* ===== verification/Metrics_Format.thy ===== *)
theory Metrics_Format
  imports Metrics
begin

text \<open>
  The texts made of metrics: \<open>fmt\<close>'s fixed decimals, \<open>(time.Duration).String\<close>, and
  \<open>(*StreamMetrics).Summary\<close> of \<open>pkg/metrics/metrics.go\<close>.
\<close>

section \<open>Fixed decimals\<close>

definition pad :: "nat \<Rightarrow> nat \<Rightarrow> bytes" where
  "pad k n = replicate (k - length (nat_digits n)) (CHR ''0'') @ nat_digits n"

fun f64_times :: "float64 \<Rightarrow> nat \<Rightarrow> float64" where
  "f64_times (F64 s m e) n = round_ratio s (f64_num m e * n) (f64_den e)"
| "f64_times x n = x"

text \<open>The verb \<open>%.kf\<close> for a positive \<open>k\<close>: the nearest decimal, ties to even.\<close>

fun decimals :: "nat \<Rightarrow> float64 \<Rightarrow> bytes" where
  "decimals k (F64 s m e) =
     (let n = round_div (f64_num m e * 10 ^ k) (f64_den e)
      in (if s then ''-'' else []) @ nat_digits (n div 10 ^ k) @ ''.'' @ pad k (n mod 10 ^ k))"
| "decimals k (FInf s) = (if s then ''-Inf'' else ''+Inf'')"
| "decimals k FNaN = ''NaN''"

section \<open>Durations\<close>

text \<open>\<open>fmtFrac\<close>: the last \<open>prec\<close> digits as a fraction without trailing zeros, and the rest.\<close>

definition fraction :: "nat \<Rightarrow> nat \<Rightarrow> bytes" where
  "fraction prec v =
     (let ds = rev (dropWhile (\<lambda>c. c = CHR ''0'') (rev (pad prec (v mod 10 ^ prec))))
      in if prec = 0 \<or> ds = [] then [] else ''.'' @ ds)"

definition micro_sign :: bytes where
  "micro_sign = [CHR 0xC2, CHR 0xB5]"

definition duration_text :: "int \<Rightarrow> bytes" where
  "duration_text d =
     (let u = nat \<bar>d\<bar>;
          small = (\<lambda>prec unit. nat_digits (u div 10 ^ prec) @ fraction prec u @ unit);
          secs = u div 10 ^ 9; mins = secs div 60; hours = mins div 60
      in (if d < 0 then ''-'' else [])
         @ (if u = 0 then ''0s''
            else if u < 10 ^ 3 then small 0 ''ns''
            else if u < 10 ^ 6 then small 3 (micro_sign @ ''s'')
            else if u < 10 ^ 9 then small 6 ''ms''
            else (if 0 < hours then nat_digits hours @ ''h'' else [])
                 @ (if 0 < mins then nat_digits (mins mod 60) @ ''m'' else [])
                 @ nat_digits (secs mod 60) @ fraction 9 u @ ''s''))"

section \<open>Summary\<close>

definition Summary :: "stream_metrics \<Rightarrow> bytes" where
  "Summary m =
     ''SSE Events: [Upstream: '' @ int_digits (UpstreamSSEEvents m)
     @ '', Downstream: '' @ int_digits (DownstreamSSEEvents m)
     @ '', Ratio: '' @ decimals 2 (OverallCoalescingRatio m) @ '':1], ''
     @ ''Reasoning: [In: '' @ int_digits (ReasoningFragmentsIn m) @ '', Out: '' @ int_digits (ReasoningEventsOut m)
     @ '', Ratio: '' @ decimals 2 (ReasoningCoalescingRatio m) @ '':1], ''
     @ ''Content: [In: '' @ int_digits (ContentFragmentsIn m) @ '', Out: '' @ int_digits (ContentEventsOut m)
     @ '', Ratio: '' @ decimals 2 (ContentCoalescingRatio m) @ '':1], ''
     @ ''Tool: [In: '' @ int_digits (ToolArgumentFragmentsIn m) @ '', Out: '' @ int_digits (ToolEventsOut m)
     @ '', Ratio: '' @ decimals 2 (ToolCoalescingRatio m) @ '':1], ''
     @ ''Bytes: [Upstream: '' @ int_digits (UpstreamBytes m) @ '', Downstream: '' @ int_digits (DownstreamBytes m) @ ''], ''
     @ ''Compression: [Uncompressed: '' @ int_digits (CompressionUncompressedBytes m)
     @ '', Compressed: '' @ int_digits (CompressionCompressedBytes m)
     @ '', Ratio: '' @ decimals 2 (CompressionRatio m)
     @ '':1, Savings: '' @ decimals 1 (f64_times (CompressionSavingsRatio m) 100) @ ''%], ''
     @ ''Buffer: [Max: '' @ int_digits (PendingBytesMax m) @ '' bytes], ''
     @ ''Reader Pauses: [Count: '' @ int_digits (ReaderPauseCount m)
     @ '', Total: '' @ duration_text (ReaderPauseDurationNs m) @ ''], ''
     @ ''Write Duration Total: '' @ duration_text (DownstreamWriteNs m)"

end
