(* ===== verification/Server.thy ===== *)
theory Server
  imports Server_Models Pipeline Metrics_Format
begin

text \<open>
  \<open>pkg/proxy/server.go\<close>: the handlers and \<open>ServeHTTP\<close>.  A handler that streams ends by handing over the
  pipeline it has set up; what the pipeline then does is the step relation of \<open>ProcessStream\<close>, and
  \<open>stream_packet\<close> and \<open>end_stream\<close> are what the handler does for every packet and at the end.  The same
  holds for a client that watches: \<open>watch_event\<close> and \<open>end_watch\<close>.  \<open>None\<close> is a panic.
\<close>

section \<open>Small parts\<close>

definition unix_millis :: "int \<Rightarrow> int" where
  "unix_millis t = t div 1000000"

definition millis_since :: "int \<Rightarrow> int \<Rightarrow> int" where
  "millis_since start now = quot (now - start) 1000000"

definition session_id :: "int \<Rightarrow> nat \<Rightarrow> bytes" where
  "session_id now seq = ''sess_'' @ int_digits (unix_millis now) @ ''_'' @ pad 4 (seq mod 10000)"

definition packet :: "bytes \<Rightarrow> bytes \<Rightarrow> int \<Rightarrow> packet_direction \<Rightarrow> bytes \<Rightarrow> bytes \<Rightarrow> bytes \<Rightarrow> monitor_event" where
  "packet session model now dir type payload summary =
     \<lparr>me_SessionID = session, me_Model = model, me_TimestampMs = unix_millis now, me_Direction = dir,
      me_PacketType = type, me_Payload = payload, me_Summary = summary\<rparr>"

definition broadcast :: "monitor_event \<Rightarrow> proxy_server \<Rightarrow> proxy_server option" where
  "broadcast ev s = map_option (\<lambda>h. s\<lparr>sv_monitorHub := h\<rparr>) (Broadcast ev (sv_monitorHub s))"

definition broadcast_watched :: "monitor_event \<Rightarrow> proxy_server \<Rightarrow> proxy_server option" where
  "broadcast_watched ev s = (if HasSubscribers (me_Model ev) (sv_monitorHub s) then broadcast ev s else Some s)"

definition last_record :: "env \<Rightarrow> nat \<Rightarrow> bytes \<Rightarrow> int \<Rightarrow> bool \<Rightarrow> bytes \<Rightarrow> bytes \<Rightarrow> last_request" where
  "last_record env k model status streamed request response =
     \<lparr>lr_Model = model, lr_TimestampMs = unix_millis (env_start env),
      lr_DurationMs = millis_since (env_start env) (env_clock env k), lr_StatusCode = status, lr_Stream = streamed,
      lr_Request = request, lr_Response = response\<rparr>"

section \<open>Requests that are not streamed\<close>

text \<open>The request sent on, before the handler changes its header further.\<close>

definition forward_request :: "env \<Rightarrow> client_request \<Rightarrow> upstream_target \<Rightarrow> bytes \<Rightarrow> bytes + upstream_request" where
  "forward_request env r target body =
     (case new_request env (cr_Method r) (dest_url (ut_URL target) (cr_Path r) (cr_RawQuery r)) body of
        Inl err \<Rightarrow> Inl err
      | Inr req \<Rightarrow> Inr (req\<lparr>up_Header := applyAuthHeader (ut_APIKey target) (copyHeaders (cr_Header r) (up_Header req))\<rparr>))"

definition default_target :: "proxy_server \<Rightarrow> upstream_target option" where
  "default_target s =
     (case sv_upstreams s of
        u # _ \<Rightarrow> Some u
      | [] \<Rightarrow> map_option (\<lambda>u. \<lparr>ut_Name = [], ut_URL = u, ut_APIKey = []\<rparr>) (sc_UpstreamURL (sv_cfg s)))"

text \<open>The packets for those who watch the model.\<close>

definition announce_response :: "env \<Rightarrow> bytes \<Rightarrow> bytes \<Rightarrow> bytes \<Rightarrow> proxy_server \<Rightarrow> proxy_server option" where
  "announce_response env sessionID model respBytes s =
     (if sessionID \<noteq> [] \<and> HasSubscribers model (sv_monitorHub s)
      then Option.bind
             (broadcast (packet sessionID model (env_clock env 0) DirectionDownstream ''response'' respBytes
                ''Non-Streaming Response'') s)
             (broadcast (packet sessionID model (env_clock env 1) DirectionDownstream ''session_end''
                ''{\"status\":\"completed\"}'' ''Connection Closed''))
      else Some s)"

definition transparentProxy :: "env \<Rightarrow> client_request \<Rightarrow> upstream_target option \<Rightarrow> bytes option \<Rightarrow> bytes \<Rightarrow> bytes
    \<Rightarrow> bytes \<Rightarrow> proxy_server \<Rightarrow> (response_op list \<times> proxy_server) option" where
  "transparentProxy env r target preloadedBody sessionID model origRequestBody s =
     (case (case target of Some t \<Rightarrow> Some t | None \<Rightarrow> default_target s) of
        None \<Rightarrow> Some (http_Error ''no upstream configured'' 502, s)
      | Some target \<Rightarrow>
          (case forward_request env r target (case preloadedBody of Some b \<Rightarrow> b | None \<Rightarrow> cr_Body r) of
             Inl err \<Rightarrow> Some (http_Error (''failed to create upstream request: '' @ err) 500, s)
           | Inr req \<Rightarrow>
               (let reqStr = (if origRequestBody = [] then (case preloadedBody of Some b \<Rightarrow> b | None \<Rightarrow> []) else origRequestBody)
                in case env_do env req of
                     Inl err \<Rightarrow>
                       Some (http_Error (''upstream error: '' @ err) 502,
                             recordLastReq (last_record env 0 model 502 False reqStr (''upstream error: '' @ err)) s)
                   | Inr resp \<Rightarrow>
                       (case read_body resp of
                          Inl err \<Rightarrow> Some (http_Error (''failed to read upstream response: '' @ err) 502, s)
                        | Inr respBytes \<Rightarrow>
                            (let respBytes = restore_model model (rs_Header resp) respBytes
                             in case announce_response env sessionID model respBytes s of
                                  None \<Rightarrow> None
                                | Some s \<Rightarrow>
                                    Some ([OpHeader (\<lambda>h. header_del ''Content-Length'' (copyHeaders (rs_Header resp) h)),
                                           OpWriteHeader (rs_StatusCode resp), OpWrite respBytes],
                                          recordLastReq (last_record env 2 model (rs_StatusCode resp) False reqStr respBytes) s))))))"

section \<open>Streaming endpoints\<close>

record stream_session =
  st_pipeline :: stream_pipeline
  st_body :: bytes
  st_end :: io_error
  st_id :: bytes
  st_model :: bytes
  st_request :: bytes
  st_status :: int

datatype outcome =
    Responded "response_op list"
  | Refreshes "response_op list"
  | Watches "response_op list" bytes nat
  | Streams "response_op list" stream_session

definition model_not_found :: "bytes \<Rightarrow> bytes" where
  "model_not_found msg =
     (case json_marshal (GObj [(''error'', GObj [(''message'', GStr msg), (''type'', GStr ''invalid_request_error''),
                                             (''param'', GStr ''model''), (''code'', GStr ''model_not_found'')])]) of
        Some t \<Rightarrow> t | None \<Rightarrow> [])"

definition stream_headers :: "header \<Rightarrow> header \<Rightarrow> header" where
  "stream_headers src h =
     header_del ''Content-Length''
       (header_set ''X-Accel-Buffering'' ''no''
         (header_set ''Connection'' ''keep-alive''
           (header_set ''Cache-Control'' ''no-cache''
             (header_set ''Content-Type'' ''text/event-stream'' (copyHeaders src h)))))"

definition session_pipeline :: "env \<Rightarrow> protocol \<Rightarrow> bytes \<Rightarrow> proxy_server \<Rightarrow> stream_pipeline" where
  "session_pipeline env proto model s =
     SetPacketCallback True
       (SetModelOverride_pipeline model
         (SetRequestInfo model (Some (env_start env))
           (SetProtocol_pipeline proto
             (NewStreamPipeline (env_clock env 1) (sc_BufferConfig (sv_cfg s)) (Some (sv_totalMetrics s))))))"

definition forward_stream :: "env \<Rightarrow> client_request \<Rightarrow> protocol \<Rightarrow> upstream_target \<Rightarrow> bytes \<Rightarrow> bytes \<Rightarrow> bytes
    \<Rightarrow> proxy_server \<Rightarrow> outcome \<times> proxy_server" where
  "forward_stream env r proto target upstreamBody sessionID model s =
     (case forward_request env r target upstreamBody of
        Inl err \<Rightarrow> (Responded (http_Error (''failed to create upstream request: '' @ err) 500), s)
      | Inr req \<Rightarrow>
          (let req = req\<lparr>up_Header := header_del ''Accept-Encoding''
                           (header_set ''Accept'' ''text/event-stream'' (up_Header req))\<rparr>
           in case env_do env req of
                Inl err \<Rightarrow>
                  (Responded (http_Error (''upstream error: '' @ err) 502),
                   recordLastReq (last_record env 1 model 502 True (cr_Body r) (''upstream error: '' @ err)) s)
              | Inr resp \<Rightarrow>
                  if rs_StatusCode resp \<noteq> 200
                     \<or> \<not> Contains (header_get (rs_Header resp) ''Content-Type'') ''text/event-stream''
                  then (Responded [OpHeader (copyHeaders (rs_Header resp)), OpWriteHeader (rs_StatusCode resp),
                                   OpWrite (rs_Body resp)],
                        recordLastReq (last_record env 1 model (rs_StatusCode resp) True (cr_Body r) (rs_Body resp)) s)
                  else (Streams [OpHeader (stream_headers (rs_Header resp)), OpWriteHeader 200, OpFlush]
                          \<lparr>st_pipeline = session_pipeline env proto model s, st_body = rs_Body resp,
                           st_end = (case rs_readErr resp of None \<Rightarrow> EOF | Some err \<Rightarrow> IOError err),
                           st_id = sessionID, st_model = model, st_request = cr_Body r,
                           st_status = rs_StatusCode resp\<rparr>, s)))"

definition handleStreamingEndpoint :: "env \<Rightarrow> client_request \<Rightarrow> protocol \<Rightarrow> proxy_server
    \<Rightarrow> (outcome \<times> proxy_server) option" where
  "handleStreamingEndpoint env r proto s =
     (case cr_readErr r of
        Some err \<Rightarrow> Some (Responded (http_Error (''failed to read body: '' @ err) 400), s)
      | None \<Rightarrow>
          (let body = cr_Body r; payload = stored_check body; model = sk_Model payload;
               s = s\<lparr>sv_sessionSeq := (sv_sessionSeq s + 1) mod 2 ^ 64\<rparr>;
               sessionID = session_id (env_clock env 0) (sv_sessionSeq s)
           in case broadcast_watched (packet sessionID model (env_clock env 0) DirectionUpstream ''request'' body
                                        ''Client Request'') s of
                None \<Rightarrow> None
              | Some s \<Rightarrow>
                  (case resolveUpstream (env_is_print env) s model of
                     Inl err \<Rightarrow>
                       Some (Responded [OpHeader (header_set ''Content-Type'' ''application/json''), OpWriteHeader 400,
                                        OpWrite (model_not_found err)],
                             recordLastReq (last_record env 1 model 400 (sk_Stream payload) body (model_not_found err)) s)
                   | Inr (target, targetModel) \<Rightarrow>
                       (case (if targetModel \<noteq> [] \<and> targetModel \<noteq> model then rewriteModelInBody body targetModel
                              else Some body) of
                          None \<Rightarrow> None
                        | Some upstreamBody \<Rightarrow>
                            if \<not> sk_Stream payload
                            then map_option (map_prod Responded id)
                                   (transparentProxy env r (Some target) (Some upstreamBody) sessionID model body s)
                            else Some (forward_stream env r proto target upstreamBody sessionID model s)))))"

definition handleChatCompletions :: "env \<Rightarrow> client_request \<Rightarrow> proxy_server \<Rightarrow> (outcome \<times> proxy_server) option" where
  "handleChatCompletions env r s = handleStreamingEndpoint env r ProtocolChatCompletions s"

definition handleResponses :: "env \<Rightarrow> client_request \<Rightarrow> proxy_server \<Rightarrow> (outcome \<times> proxy_server) option" where
  "handleResponses env r s = handleStreamingEndpoint env r ProtocolResponses s"

text \<open>A packet of the stream, and the end of the handler with all that was written.\<close>

definition stream_packet :: "int \<Rightarrow> stream_session \<Rightarrow> bytes \<Rightarrow> proxy_server \<Rightarrow> proxy_server option" where
  "stream_packet now st data s =
     (if \<not> HasSubscribers (st_model st) (sv_monitorHub s) then Some s
      else (let cleanPayload = extractSSEPayload data
            in if length cleanPayload = 0 then Some s
               else broadcast (packet (st_id st) (st_model st) now DirectionDownstream ''downstream_chunk'' cleanPayload
                                 ''Downstream Coalesced Packet'') s))"

definition end_stream :: "env \<Rightarrow> nat \<Rightarrow> stream_session \<Rightarrow> bytes list \<Rightarrow> proxy_server \<Rightarrow> proxy_server option" where
  "end_stream env k st sent s =
     (let recWriter = fold record_Write sent \<lparr>rr_buf = [], rr_maxRecord = 4 * 1024 * 1024\<rparr>
      in broadcast_watched (packet (st_id st) (st_model st) (env_clock env (k + 1)) DirectionDownstream ''session_end''
             ''{\"status\":\"completed\"}'' ''Connection Closed'')
           (recordLastReq (last_record env k (st_model st) (st_status st) True (st_request st) (rr_buf recWriter)) s))"

section \<open>Metrics and last requests\<close>

text \<open>\<open>json.NewEncoder(w).Encode\<close> of a struct: its fields in their order; nothing where a float is no number.\<close>

definition struct_text :: "(bytes \<times> bytes) list \<Rightarrow> bytes" where
  "struct_text fs = CHR ''{'' # join '','' (map member_text fs) @ ''}''"

definition encode_op :: "bytes option \<Rightarrow> response_op list" where
  "encode_op t = (case t of Some t \<Rightarrow> [OpWrite (t @ [nl])] | None \<Rightarrow> [])"

definition fields_text :: "(bytes \<times> bytes option) list \<Rightarrow> bytes option" where
  "fields_text fs = map_option struct_text (those (map (\<lambda>(k, t). map_option (Pair k) t) fs))"

definition formatRatioPercent :: "float64 \<Rightarrow> bytes" where
  "formatRatioPercent r = decimals 2 (f64_times r 100) @ ''%''"

definition snapshot_text :: "model_metric_snapshot \<Rightarrow> bytes option" where
  "snapshot_text m = fields_text
     [(''requests'', json_marshal (GInt (mms_Requests m))),
      (''total_tokens'', json_marshal (GInt (mms_TotalTokens m))),
      (''avg_ttft_ms'', json_marshal (GFloat (mms_AvgTTFTMs m))),
      (''last_ttft_ms'', json_marshal (GFloat (mms_LastTTFTMs m))),
      (''total_generation_duration_ms'', json_marshal (GFloat (mms_TotalGenerationDurationMs m))),
      (''total_client_duration_ms'', json_marshal (GFloat (mms_TotalClientDurationMs m))),
      (''tps'', json_marshal (GFloat (mms_TPS m))),
      (''client_tps'', json_marshal (GFloat (mms_ClientTPS m)))]"

definition metrics_text :: "stream_metrics \<Rightarrow> bytes option" where
  "metrics_text m = fields_text
     [(''upstream_sse_events'', json_marshal (GInt (UpstreamSSEEvents m))),
      (''downstream_sse_events'', json_marshal (GInt (DownstreamSSEEvents m))),
      (''overall_coalescing_ratio'', json_marshal (GFloat (OverallCoalescingRatio m))),
      (''reasoning_fragments_in'', json_marshal (GInt (ReasoningFragmentsIn m))),
      (''reasoning_events_out'', json_marshal (GInt (ReasoningEventsOut m))),
      (''reasoning_coalescing_ratio'', json_marshal (GFloat (ReasoningCoalescingRatio m))),
      (''content_fragments_in'', json_marshal (GInt (ContentFragmentsIn m))),
      (''content_events_out'', json_marshal (GInt (ContentEventsOut m))),
      (''content_coalescing_ratio'', json_marshal (GFloat (ContentCoalescingRatio m))),
      (''tool_fragments_in'', json_marshal (GInt (ToolArgumentFragmentsIn m))),
      (''tool_events_out'', json_marshal (GInt (ToolEventsOut m))),
      (''tool_coalescing_ratio'', json_marshal (GFloat (ToolCoalescingRatio m))),
      (''upstream_bytes'', json_marshal (GInt (UpstreamBytes m))),
      (''downstream_bytes'', json_marshal (GInt (DownstreamBytes m))),
      (''compression_uncompressed_bytes'', json_marshal (GInt (CompressionUncompressedBytes m))),
      (''compression_compressed_bytes'', json_marshal (GInt (CompressionCompressedBytes m))),
      (''compression_ratio'', json_marshal (GFloat (CompressionRatio m))),
      (''compression_savings_ratio'', json_marshal (GFloat (CompressionSavingsRatio m))),
      (''compression_savings_ratio_percent'', Some (quote_string (formatRatioPercent (CompressionSavingsRatio m)))),
      (''pending_bytes_max'', json_marshal (GInt (PendingBytesMax m))),
      (''reader_pause_count'', json_marshal (GInt (ReaderPauseCount m))),
      (''reader_pause_duration_ns'', json_marshal (GInt (ReaderPauseDurationNs m))),
      (''downstream_write_ns'', json_marshal (GInt (DownstreamWriteNs m))),
      (''models'', map_option object_text
         (those (map (\<lambda>(k, a). map_option (Pair k) (snapshot_text a)) (ModelSnapshots m))))]"

definition handleMetrics :: "proxy_server \<Rightarrow> response_op list" where
  "handleMetrics s =
     OpHeader (header_set ''Content-Type'' ''application/json'') # encode_op (metrics_text (sv_totalMetrics s))"

definition last_request_text :: "last_request \<Rightarrow> bytes" where
  "last_request_text rec = struct_text
     [(''model'', quote_string (lr_Model rec)), (''timestamp_ms'', int_digits (lr_TimestampMs rec)),
      (''duration_ms'', int_digits (lr_DurationMs rec)), (''status_code'', int_digits (lr_StatusCode rec)),
      (''stream'', if lr_Stream rec then lit_true else lit_false), (''request'', quote_string (lr_Request rec)),
      (''response'', quote_string (lr_Response rec))]"

text \<open>\<open>r.URL.Query().Get(key)\<close>: pairs that cannot be decoded, or hold a semicolon, are left out.\<close>

definition query_pair :: "bytes \<Rightarrow> (bytes \<times> bytes) list" where
  "query_pair p =
     (let (k, v, _) = Cut p ''=''
      in if p = [] \<or> CHR '';'' \<in> set p then []
         else (case (unescape EncodeQueryComponent k, unescape EncodeQueryComponent v) of
                 (Some k, Some v) \<Rightarrow> [(k, v)]
               | _ \<Rightarrow> []))"

definition query_get :: "bytes \<Rightarrow> bytes \<Rightarrow> bytes" where
  "query_get rawQuery key =
     (case map_of (concat (map query_pair (split_on (CHR ''&'') rawQuery))) key of Some v \<Rightarrow> v | None \<Rightarrow> [])"

definition handleLastReq :: "client_request \<Rightarrow> proxy_server \<Rightarrow> response_op list" where
  "handleLastReq r s =
     (if cr_Method r \<noteq> ''GET'' \<and> cr_Method r \<noteq> ''HEAD'' then http_Error ''Method not allowed'' 405
      else (let model = query_get (cr_RawQuery r) ''model'';
                ct = OpHeader (header_set ''Content-Type'' ''application/json'')
            in if model = []
               then ct # encode_op (Some (object_text (map (\<lambda>(k, v). (k, last_request_text v)) (sv_lastReqs s))))
               else (case getLastReq model s of
                       None \<Rightarrow>
                         [ct, OpWriteHeader 404]
                         @ encode_op (json_marshal (GObj [(''error'', GStr (''no request recorded for model: '' @ model))]))
                     | Some rec \<Rightarrow> ct # encode_op (Some (last_request_text rec)))))"

section \<open>Dashboard and monitor\<close>

text \<open>The page itself is made by a template that is not modelled: the parameter \<open>env_dashboard\<close>.\<close>

definition handleDashboard :: "env \<Rightarrow> client_request \<Rightarrow> proxy_server \<Rightarrow> response_op list" where
  "handleDashboard env r s =
     (if cr_Method r \<noteq> ''GET'' \<and> cr_Method r \<noteq> ''HEAD'' then http_Error ''Method not allowed'' 405
      else [OpHeader (header_set ''Content-Type'' ''text/html; charset=utf-8''), OpWriteHeader 200]
           @ (if cr_Method r = ''HEAD'' then [] else map OpWrite (env_dashboard env (EffectiveConfig s))))"

text \<open>Every \<open>ResponseWriter\<close> of the program can flush.\<close>

definition handleMonitor :: "client_request \<Rightarrow> proxy_server \<Rightarrow> outcome \<times> proxy_server" where
  "handleMonitor r s =
     (if cr_Method r \<noteq> ''GET'' \<and> cr_Method r \<noteq> ''OPTIONS''
      then (Responded (http_Error ''Method not allowed'' 405), s)
      else (let cors = [OpHeader (header_set ''Access-Control-Allow-Origin'' ''*''),
                        OpHeader (header_set ''Access-Control-Allow-Headers'' ''*''),
                        OpHeader (header_set ''Access-Control-Allow-Methods'' ''GET, OPTIONS'')]
            in if cr_Method r = ''OPTIONS'' then (Responded (cors @ [OpWriteHeader 200]), s)
               else (let model = query_get (cr_RawQuery r) ''model''
                     in (Watches (cors @ [OpHeader (header_set ''Content-Type'' ''text/event-stream''),
                                          OpHeader (header_set ''Cache-Control'' ''no-cache, no-transform''),
                                          OpHeader (header_set ''Connection'' ''keep-alive''),
                                          OpHeader (header_set ''X-Accel-Buffering'' ''no''),
                                          OpWriteHeader 200, OpFlush])
                                 model (length (hub_channels (sv_monitorHub s))),
                         s\<lparr>sv_monitorHub := Subscribe model (sv_monitorHub s)\<rparr>))))"

fun direction_name :: "packet_direction \<Rightarrow> bytes" where
  "direction_name DirectionUpstream = ''upstream''"
| "direction_name DirectionDownstream = ''downstream''"

definition event_text :: "monitor_event \<Rightarrow> bytes" where
  "event_text ev = struct_text
     ([(''session_id'', quote_string (me_SessionID ev)), (''model'', quote_string (me_Model ev)),
       (''timestamp_ms'', int_digits (me_TimestampMs ev)),
       (''direction'', quote_string (direction_name (me_Direction ev))),
       (''packet_type'', quote_string (me_PacketType ev)), (''payload'', quote_string (me_Payload ev))]
      @ (if me_Summary ev = [] then [] else [(''summary'', quote_string (me_Summary ev))]))"

text \<open>One event of the channel \<open>ch\<close>, if there is one, and the end of the watch.\<close>

definition watch_event :: "nat \<Rightarrow> proxy_server \<Rightarrow> (response_op list \<times> proxy_server) option" where
  "watch_event ch s =
     (case ch_queue (hub_channels (sv_monitorHub s) ! ch) of
        [] \<Rightarrow> None
      | ev # _ \<Rightarrow> Some ([OpWrite (''data: '' @ event_text ev @ [nl, nl]), OpFlush],
                        s\<lparr>sv_monitorHub := receive ch (sv_monitorHub s)\<rparr>))"

definition end_watch :: "nat \<Rightarrow> proxy_server \<Rightarrow> proxy_server option" where
  "end_watch ch s = map_option (\<lambda>h. s\<lparr>sv_monitorHub := h\<rparr>) (unsub ch (sv_monitorHub s))"

section \<open>Routing\<close>

definition serve_models :: "env \<Rightarrow> client_request \<Rightarrow> proxy_server \<Rightarrow> outcome \<times> proxy_server" where
  "serve_models env r s =
     (case handleModels env r s of
        (s, ops, True) \<Rightarrow> (Refreshes ops, s)
      | (s, ops, False) \<Rightarrow> (Responded ops, s))"

definition route :: "env \<Rightarrow> client_request \<Rightarrow> proxy_server \<Rightarrow> (outcome \<times> proxy_server) option" where
  "route env r s =
     (let cleanPath = TrimSuffix (cr_Path r) ''/''
      in if sc_AllowMetricsAPI (sv_cfg s)
            \<and> cleanPath \<in> {''/metrics'', ''/dashboard'', ''/monitor'', ''/last_req'', ''/last-request''}
         then Some (if cleanPath = ''/dashboard'' then (Responded (handleDashboard env r s), s)
                    else if cleanPath = ''/monitor'' then handleMonitor r s
                    else if cleanPath = ''/last_req'' \<or> cleanPath = ''/last-request'' then (Responded (handleLastReq r s), s)
                    else (Responded (handleMetrics s), s))
         else if cleanPath = ''/v1/chat/completions''
         then (if cr_Method r = ''POST'' then handleChatCompletions env r s
               else Some (Responded (http_Error ''Method not allowed'' 405), s))
         else if cleanPath = ''/v1/responses''
         then (if cr_Method r = ''POST'' then handleResponses env r s
               else Some (Responded (http_Error ''Method not allowed'' 405), s))
         else if cleanPath = ''/v1/models'' \<and> cr_Method r = ''GET'' then Some (serve_models env r s)
         else Some (Responded (http_Error ''404 page not found'' 404), s))"

text \<open>The operations of a handler on the writer that \<open>ServeHTTP\<close> gives it, which is closed at the end.\<close>

definition respond :: "(encoding \<Rightarrow> 's codec) \<Rightarrow> client_request \<Rightarrow> response_op list \<Rightarrow> proxy_server
    \<Rightarrow> (http_writer \<times> proxy_server) option" where
  "respond cs r ops s =
     (if sc_DisableCompression (sv_cfg s) then Some (plain_run ops, s)
      else (case coded_run cs (cr_Header r) (Some (sv_totalMetrics s)) ops of
              None \<Rightarrow> None
            | Some cw \<Rightarrow>
                (let cw = fst (Close_writer cs cw)
                 in Some (rw_base cw, s\<lparr>sv_totalMetrics := the (rw_metrics cw)\<rparr>))))"

text \<open>
  What the client has when the handler has returned; \<open>None\<close> in the middle while a stream or a watch goes on.
\<close>

definition ServeHTTP :: "(encoding \<Rightarrow> 's codec) \<Rightarrow> env \<Rightarrow> client_request \<Rightarrow> proxy_server
    \<Rightarrow> (outcome \<times> http_writer option \<times> proxy_server) option" where
  "ServeHTTP cs env r s =
     (case route env r s of
        None \<Rightarrow> None
      | Some (out, s) \<Rightarrow>
          (case out of
             Responded ops \<Rightarrow> map_option (\<lambda>(w, s). (out, Some w, s)) (respond cs r ops s)
           | Refreshes ops \<Rightarrow> map_option (\<lambda>(w, s). (out, Some w, s)) (respond cs r ops s)
           | _ \<Rightarrow> Some (out, None, s)))"

end
