(* ===== verification/Url_Laws.thy ===== *)
theory Url_Laws
  imports Go_Url
begin

text \<open>
  Searching a text for one byte, and what \<open>Parse\<close> and \<open>String\<close> do with a URL made of plain bytes only,
  which need no escape and mean nothing to the syntax of URLs.
\<close>

section \<open>Searching for a byte\<close>

lemma has_prefix_simps [simp]:
  "has_prefix s []" "has_prefix [] (d # p) \<longleftrightarrow> False" "has_prefix (c # s) (d # p) \<longleftrightarrow> c = d \<and> has_prefix s p"
  by (auto simp: has_prefix_def)

lemma Index_byte [simp]: "Index s [c] = index_byte s c"
  by (induction s) auto

lemma LastIndex_absent: "c \<notin> set s \<Longrightarrow> LastIndex s [c] = None"
  by (induction s) auto

lemma LastIndex_append: "c \<notin> set t \<Longrightarrow> LastIndex (s @ c # t) [c] = Some (length s)"
  by (induction s) (auto simp: LastIndex_absent)

lemma Index_needs_head: "c \<notin> set s \<Longrightarrow> Index s (c # p) = None"
  by (induction s) auto

lemma Cut_append: "c \<notin> set s \<Longrightarrow> Cut (s @ c # t) [c] = (s, t, True)"
  by (simp add: Cut_def)

lemma Cut_absent: "c \<notin> set s \<Longrightarrow> Cut s [c] = (s, [], False)"
  by (simp add: Cut_def index_byte_None [THEN iffD2])

lemma Contains_absent: "c \<notin> set s \<Longrightarrow> \<not> Contains s (c # p)"
  by (simp add: Contains_def Index_needs_head)

lemma has_suffix_subset: "has_suffix s p \<Longrightarrow> set p \<subseteq> set s"
  by (metis has_suffix_def set_drop_subset)

lemma takeWhile_absent: "c \<notin> set s \<Longrightarrow> takeWhile (\<lambda>x. x \<noteq> c) (s @ c # t) = s"
  "c \<notin> set s \<Longrightarrow> dropWhile (\<lambda>x. x \<noteq> c) (s @ c # t) = c # t"
  "c \<notin> set s \<Longrightarrow> takeWhile (\<lambda>x. x \<noteq> c) s = s" "c \<notin> set s \<Longrightarrow> dropWhile (\<lambda>x. x \<noteq> c) s = []"
  by (induction s) auto

section \<open>Plain bytes\<close>

definition plain :: "char \<Rightarrow> bool" where
  "plain c \<longleftrightarrow> is_alnum c \<or> c \<in> set ''-_.''"

text \<open>What may stand in a plain host, before and after its colon, and in a plain path.\<close>

definition plain_host :: "bytes \<Rightarrow> bool" where
  "plain_host h \<longleftrightarrow> h \<noteq> [] \<and> list_all (\<lambda>c. plain c \<or> c = CHR '':'') h \<and>
     (case index_byte h (CHR '':'') of Some i \<Rightarrow> validOptionalPort (drop i h) | None \<Rightarrow> True)"

definition plain_path :: "bytes \<Rightarrow> bool" where
  "plain_path p \<longleftrightarrow> list_all (\<lambda>c. plain c \<or> c = CHR ''/'') p \<and> (p = [] \<or> hd p = CHR ''/'')"

definition url_byte :: "char \<Rightarrow> bool" where
  "url_byte c \<longleftrightarrow> plain c \<or> c = CHR '':'' \<or> c = CHR ''/''"

lemma not_plain [simp]:
  "\<not> plain (CHR ''@'')" "\<not> plain (CHR ''/'')" "\<not> plain (CHR '':'')" "\<not> plain (CHR ''='')" "\<not> plain (CHR '','')"
  "\<not> plain (CHR ''#'')" "\<not> plain (CHR ''?'')" "\<not> plain (CHR ''['')" "\<not> plain (CHR '']'')" "\<not> plain (CHR ''%'')"
  "\<not> plain (CHR '' '')"
  by code_simp+

lemma not_url_byte [simp]:
  "\<not> url_byte (CHR ''@'')" "\<not> url_byte (CHR ''='')" "\<not> url_byte (CHR '','')" "\<not> url_byte (CHR ''#'')"
  "\<not> url_byte (CHR ''?'')" "\<not> url_byte (CHR ''['')" "\<not> url_byte (CHR ''%'')"
  by code_simp+

lemma absent_if: "list_all P s \<Longrightarrow> \<not> P c \<Longrightarrow> c \<notin> set s"
  by (auto simp: list_all_iff)

lemma plain_host_chars: "plain_host h \<Longrightarrow> list_all url_byte h" "plain_host h \<Longrightarrow> CHR ''/'' \<notin> set h"
  by (auto simp: plain_host_def url_byte_def list_all_iff)

lemma plain_path_chars: "plain_path p \<Longrightarrow> list_all url_byte p"
  by (auto simp: plain_path_def url_byte_def list_all_iff)

lemma plain_range: "plain c \<Longrightarrow> 45 \<le> byte c \<and> byte c < 123"
  by (auto simp: plain_def is_alnum_def is_digit_def lower_in_def lower_char_def split: if_splits)

lemma url_byte_range: "url_byte c \<Longrightarrow> 45 \<le> byte c \<and> byte c < 123"
  by (auto simp: url_byte_def dest: plain_range)

text \<open>Text that \<open>TrimSpace\<close> leaves alone.\<close>

definition visible :: "char \<Rightarrow> bool" where
  "visible c \<longleftrightarrow> 32 < byte c \<and> byte c < 127"

lemma visible_trim: "list_all visible s \<Longrightarrow> trim_space s = s"
proof (cases "s = []")
  case False
  moreover assume "list_all visible s"
  ultimately have "visible (hd s)" "visible (last s)"
    by (auto simp: list_all_iff)
  with False show ?thesis
    by (intro trim_space_id) (auto simp: visible_def ascii_space_def)
qed simp

lemma url_bytes_visible: "list_all url_byte s \<Longrightarrow> list_all visible s"
  by (auto simp: list_all_iff visible_def dest!: url_byte_range)

lemma plain_visible: "list_all plain s \<Longrightarrow> list_all visible s"
  by (rule url_bytes_visible) (simp add: list_all_iff url_byte_def)

lemma plain_shouldEscape: "plain c \<Longrightarrow> \<not> shouldEscape c mode"
  unfolding plain_def shouldEscape_def by auto

lemma separators_shouldEscape:
  "\<not> shouldEscape (CHR '':'') EncodePath" "\<not> shouldEscape (CHR ''/'') EncodePath" "\<not> shouldEscape (CHR '':'') EncodeHost"
  by code_simp+

lemma url_byte_shouldEscape: "url_byte c \<Longrightarrow> \<not> shouldEscape c EncodePath"
  using separators_shouldEscape by (auto simp: url_byte_def plain_shouldEscape)

lemma unescape_id:
  assumes "list_all (\<lambda>c. url_byte c \<and> \<not> shouldEscape c mode) s"
  shows "unescape mode s = Some s"
proof -
  have "c \<noteq> CHR ''%''" "c \<noteq> CHR ''+''" if "url_byte c" for c
    using that not_url_byte(7) by (auto simp: url_byte_def plain_def) (auto simp: is_alnum_def is_digit_def lower_in_def lower_char_def)
  with assms show ?thesis
    by (induction s) auto
qed

lemma escape_id: "list_all (\<lambda>c. \<not> shouldEscape c mode) s \<Longrightarrow> mode \<noteq> EncodeQueryComponent \<Longrightarrow> escape mode s = s"
  by (induction s) (auto simp: escape_def url_escape_char_def)

lemma unescape_path: "list_all url_byte s \<Longrightarrow> unescape EncodePath s = Some s"
  by (rule unescape_id) (auto simp: list_all_iff url_byte_shouldEscape)

lemma escape_path: "list_all url_byte s \<Longrightarrow> escape EncodePath s = s"
  by (rule escape_id) (auto simp: list_all_iff url_byte_shouldEscape)

lemma host_shouldEscape: "plain_host h \<Longrightarrow> list_all (\<lambda>c. url_byte c \<and> \<not> shouldEscape c EncodeHost) h"
  by (auto simp: plain_host_def list_all_iff url_byte_def plain_shouldEscape separators_shouldEscape)

lemma parseHost_plain: "plain_host h \<Longrightarrow> parseHost h = Some h"
  using absent_if [OF plain_host_chars(1), of h "CHR ''[''"]
  by (auto simp: parseHost_def LastIndex_absent unescape_id host_shouldEscape plain_host_def split: option.splits)

lemma parseAuthority_plain: "plain_host h \<Longrightarrow> parseAuthority h = Some (None, h)"
  using absent_if [OF plain_host_chars(1), of h "CHR ''@''"]
  by (simp add: parseAuthority_def LastIndex_absent parseHost_plain)

section \<open>Parsing a plain URL\<close>

datatype web_scheme = Http | Https

fun scheme_name :: "web_scheme \<Rightarrow> bytes" where
  "scheme_name Http = ''http''"
| "scheme_name Https = ''https''"

definition plain_url :: "web_scheme \<Rightarrow> bytes \<Rightarrow> bytes \<Rightarrow> url" where
  "plain_url sch h p = no_url\<lparr>u_Scheme := scheme_name sch, u_Host := h, u_Path := p\<rparr>"

definition url_text :: "web_scheme \<Rightarrow> bytes \<Rightarrow> bytes" where
  "url_text sch rest = scheme_name sch @ ''://'' @ rest"

lemma getScheme_text: "getScheme (url_text sch rest) = Some (scheme_name sch, ''//'' @ rest)"
  by (cases sch) (simp_all add: getScheme_def url_text_def is_alnum_def is_digit_def lower_in_def lower_char_def
      is_letter_def)

lemma ToLower_scheme: "ToLower (scheme_name sch) = scheme_name sch"
  by (cases sch) (simp_all add: lower_char_def)

lemma parse_url_text:
  assumes "CHR ''?'' \<notin> set rest" "list_all visible rest"
  shows "parse_url (url_text sch rest) = parse_hier (''//'' @ rest) (no_url\<lparr>u_Scheme := scheme_name sch\<rparr>)"
proof -
  have "\<not> list_ex (\<lambda>c. byte c < 32 \<or> byte c = 127) (url_text sch rest)"
    using assms(2) by (cases sch) (auto simp: visible_def url_text_def list_ex_iff list_all_iff)
  moreover have "url_text sch rest \<noteq> ''*''"
    by (cases sch) (simp_all add: url_text_def)
  moreover have "\<not> has_suffix (''//'' @ rest) ''?''"
    using assms(1) has_suffix_subset [of "''//'' @ rest" "''?''"] by auto
  moreover have "Cut (''//'' @ rest) ''?'' = (''//'' @ rest, [], False)"
    by (rule Cut_absent) (use assms(1) in simp)
  ultimately show ?thesis
    by (simp add: parse_url_def getScheme_text ToLower_scheme no_url_def)
qed

lemma parse_hier_plain:
  assumes "plain_host h" "plain_path p"
  shows "parse_hier (''//'' @ h @ p) (no_url\<lparr>u_Scheme := scheme_name sch\<rparr>) = Some (plain_url sch h p)"
proof -
  have "takeWhile (\<lambda>c. c \<noteq> CHR ''/'') (h @ p) = h" "dropWhile (\<lambda>c. c \<noteq> CHR ''/'') (h @ p) = p"
    using plain_host_chars(2) [OF assms(1)] assms(2)
    by (cases p; simp add: takeWhile_absent plain_path_def)+
  moreover have "scheme_name sch \<noteq> []"
    by (cases sch) auto
  moreover have "setPath p u = Some (u\<lparr>u_Path := p, u_RawPath := []\<rparr>)" for u
    using plain_path_chars [OF assms(2)] by (simp add: setPath_def unescape_path escape_path)
  ultimately show ?thesis
    using assms(1) by (simp add: parse_hier_def parseAuthority_plain plain_url_def no_url_def)
qed

lemma Parse_plain:
  assumes "plain_host h" "plain_path p"
  shows "Parse (url_text sch (h @ p)) = Some (plain_url sch h p)"
proof -
  have chars: "list_all url_byte (h @ p)"
    using plain_host_chars(1) [OF assms(1)] plain_path_chars [OF assms(2)] by simp
  have "CHR ''#'' \<notin> set (url_text sch (h @ p))"
    using absent_if [OF chars, of "CHR ''#''"] by (cases sch) (simp_all add: url_text_def)
  moreover have "CHR ''?'' \<notin> set (h @ p)"
    by (rule absent_if [OF chars]) simp
  ultimately show ?thesis
    using parse_url_text [OF _ url_bytes_visible [OF chars], of sch] parse_hier_plain [OF assms, of sch]
    by (simp add: Parse_def Cut_absent)
qed

text \<open>Such a URL is printed as it was written.\<close>

lemma url_String_plain:
  assumes "plain_host h" "plain_path p"
  shows "url_String (plain_url sch h p) = url_text sch (h @ p)"
proof -
  have "escape EncodeHost h = h"
    by (rule escape_id) (use host_shouldEscape [OF assms(1)] in \<open>simp_all add: list_all_iff\<close>)
  moreover have "h \<noteq> []" "scheme_name sch \<noteq> []"
    using assms(1) by (auto simp: plain_host_def) (cases sch; simp)
  moreover have "EscapedPath (plain_url sch h p) = p"
    using plain_path_chars [OF assms(2)]
    by (auto simp: EscapedPath_def plain_url_def no_url_def escape_path)
  moreover have "p = [] \<or> hd p = CHR ''/''"
    using assms(2) by (simp add: plain_path_def)
  ultimately show ?thesis
    by (auto simp: url_String_def plain_url_def no_url_def url_text_def Let_def)
qed

text \<open>A URL with a user and a path.\<close>

lemma parse_userinfo_plain:
  assumes "list_all plain user"
  shows "parse_userinfo user = Some (User user)"
proof -
  have "validUserinfo user"
    using assms by (auto simp: validUserinfo_def list_all_iff plain_def)
  moreover have "CHR '':'' \<notin> set user"
    by (rule absent_if [OF assms]) simp
  moreover have "unescape EncodeUserPassword user = Some user"
    by (rule unescape_id) (use assms in \<open>auto simp: list_all_iff plain_shouldEscape url_byte_def\<close>)
  ultimately show ?thesis
    by (simp add: parse_userinfo_def Cut_absent)
qed

lemma Parse_user:
  assumes "list_all plain user" "plain_host h" "plain_path p" "p \<noteq> []"
  shows "Parse (url_text sch (user @ ''@'' @ h @ p)) = Some ((plain_url sch h p)\<lparr>u_User := Some (User user)\<rparr>)"
proof -
  have host: "list_all url_byte h" "CHR ''/'' \<notin> set h" "CHR ''@'' \<notin> set h"
    using plain_host_chars [OF assms(2)] absent_if [of url_byte h "CHR ''@''"] by auto
  have path: "list_all url_byte p" "p = CHR ''/'' # tl p"
    using plain_path_chars [OF assms(3)] assms(3, 4) by (cases p; auto simp: plain_path_def)+
  have user: "CHR ''/'' \<notin> set user" "list_all url_byte user"
    using assms(1) by (auto simp: list_all_iff url_byte_def)
  have chars: "list_all (\<lambda>c. url_byte c \<or> c = CHR ''@'') (user @ ''@'' @ h @ p)"
    using user(2) host(1) path(1) by (auto simp: list_all_iff)
  have "CHR ''#'' \<notin> set (url_text sch (user @ ''@'' @ h @ p))"
    using absent_if [OF chars, of "CHR ''#''"] by (cases sch) (simp_all add: url_text_def)
  moreover have "CHR ''?'' \<notin> set (user @ ''@'' @ h @ p)"
    by (rule absent_if [OF chars]) simp
  moreover have "list_all visible (user @ ''@'' @ h @ p)"
    using url_bytes_visible user(2) host(1) path(1) by (auto simp: visible_def)
  moreover have "takeWhile (\<lambda>c. c \<noteq> CHR ''/'') (user @ CHR ''@'' # h @ p) = user @ ''@'' @ h"
    "dropWhile (\<lambda>c. c \<noteq> CHR ''/'') (user @ CHR ''@'' # h @ p) = p"
    using takeWhile_absent(1,2) [of "CHR ''/''" "user @ CHR ''@'' # h" "tl p"] user host path(2) by simp_all
  moreover have "parseAuthority (user @ CHR ''@'' # h) = Some (Some (User user), h)"
    using host(3) assms by (simp add: parseAuthority_def LastIndex_append parseHost_plain parse_userinfo_plain bind2_def)
  moreover have "scheme_name sch \<noteq> []"
    by (cases sch) auto
  moreover have "setPath p u = Some (u\<lparr>u_Path := p, u_RawPath := []\<rparr>)" for u
    using path(1) by (simp add: setPath_def unescape_path escape_path)
  ultimately show ?thesis
    using parse_url_text [of "user @ ''@'' @ h @ p" sch]
    by (simp add: Parse_def Cut_absent parse_hier_def plain_url_def no_url_def)
qed

end
