(* ===== verification/Config_Laws.thy ===== *)
theory Config_Laws
  imports Config Url_Laws
begin

text \<open>
  What the program knows of a configuration it accepts, that the command line says which upstreams it
  means, and what becomes of a key in the place of the user of a URL.
\<close>

section \<open>Accepted configurations\<close>

definition upstream_ok :: "upstream_config \<Rightarrow> bool" where
  "upstream_ok uc \<longleftrightarrow> u_Scheme (uc_URL uc) \<noteq> [] \<and> u_Host (uc_URL uc) \<noteq> [] \<and> u_User (uc_URL uc) = None \<and>
     u_Fragment (uc_URL uc) = [] \<and> CHR ''/'' \<notin> set (uc_Name uc)"

definition names_of :: "upstream_config list \<Rightarrow> bytes list" where
  "names_of us = filter (\<lambda>n. n \<noteq> []) (map uc_Name us)"

lemma split_name_slash: "split_name part = (name, target) \<Longrightarrow> CHR ''/'' \<notin> set name"
  by (auto simp: split_name_def Contains_def index_byte_None Let_def split: option.splits if_splits)

lemma parse_upstream_ok: "parse_upstream km part = Inr uc \<Longrightarrow> upstream_ok uc"
  by (auto simp: parse_upstream_def upstream_ok_def take_user_def take_fragment_def Let_def dest: split_name_slash
      split: prod.splits option.splits if_splits)

lemma parse_upstreams_ok:
  "parse_upstreams km parts acc = Inr us \<Longrightarrow> list_all upstream_ok acc \<Longrightarrow> distinct (names_of acc)
   \<Longrightarrow> list_all upstream_ok us \<and> distinct (names_of us)"
  by (induction km parts acc rule: parse_upstreams.induct)
     (auto simp: names_of_def dest: parse_upstream_ok split: sum.splits if_splits)

definition config_ok :: "config \<Rightarrow> bool" where
  "config_ok c \<longleftrightarrow> 1 \<le> cfg_Port c \<and> cfg_Port c \<le> 65535 \<and>
     cfg_Upstreams c \<noteq> [] \<and> list_all upstream_ok (cfg_Upstreams c) \<and> distinct (names_of (cfg_Upstreams c)) \<and>
     cfg_ParsedUpstream c = uc_URL (hd (cfg_Upstreams c)) \<and>
     0 < cfg_MaxBufferMB c \<and> cfg_LowWaterMB c < cfg_MaxBufferMB c \<and>
     (3 * cfg_MaxBufferMB c < 2 ^ 63 \<longrightarrow> 0 < cfg_LowWaterMB c \<or> cfg_MaxBufferMB c = 1 \<and> cfg_LowWaterMB c = 0)"

lemma wrap64_above:
  assumes "2 ^ 63 \<le> x" "x < 3 * 2 ^ 63"
  shows "wrap64 x = x - 2 ^ 64"
proof -
  have "(x + 2 ^ 63) mod 2 ^ 64 = ((x - 2 ^ 63) + 2 ^ 64) mod 2 ^ 64"
    by (simp add: algebra_simps)
  also have "\<dots> = x - 2 ^ 63"
    unfolding mod_add_self2 by (rule mod_pos_pos_trivial) (use assms in simp_all)
  finally show ?thesis
    by (simp add: wrap64_def signed_take_bit_eq_take_bit_shift take_bit_eq_mod)
qed

lemma three_quarters_less:
  assumes "0 < x" "x < 2 ^ 63"
  shows "quot (wrap64 (x * 3)) 4 < x"
proof (cases "x * 3 < 2 ^ 63")
  case True
  with assms show ?thesis
    by (simp add: quot_def)
next
  case False
  have "- (a div 4) \<le> 0" if "0 \<le> a" for a :: int
    using that by simp
  moreover have "(x * 3 - 2 ^ 64) div 4 < x"
    using assms by (simp add: div_less_iff_less_mult)
  ultimately show ?thesis
    using assms False by (auto simp: quot_def wrap64_above intro: le_less_trans)
qed

definition mb_range :: "flag_values \<Rightarrow> bool" where
  "mb_range fv \<longleftrightarrow> int64_range (fv_MaxBufferMB fv)"

lemma set_flag_range: "set_flag var v fv = Some fv' \<Longrightarrow> mb_range fv \<Longrightarrow> mb_range fv'"
  by (cases var) (auto simp: mb_range_def ParseInt0_def Let_def split: if_splits prod.splits)

lemma parse_one_range: "parse_one s a fv = Inr (used, fv') \<Longrightarrow> mb_range fv \<Longrightarrow> mb_range fv'"
  by (auto simp: parse_one_def Let_def dest: set_flag_range split: if_splits option.splits prod.splits)

lemma parse_args_range: "parse_args args fv = Inr fv' \<Longrightarrow> mb_range fv \<Longrightarrow> mb_range fv'"
proof (induction args fv rule: parse_args.induct)
  case (2 s args fv)
  then show ?case
    by (auto dest: parse_one_range split: if_splits sum.splits)
qed simp

lemma parsed_config_ok:
  assumes "ParseFlags args = Inr c"
  shows "config_ok c"
proof -
  from assms obtain fv where fv: "parse_args args default_flags = Inr fv"
    by (auto simp: ParseFlags_def split: sum.splits)
  define km where "km = fold add_key (parts_of (ss_values (fv_apiKeys fv))) []"
  from assms fv obtain us where us: "parse_upstreams km (parts_of (ss_values (fv_upstreams fv))) [] = Inr us"
    by (auto simp: ParseFlags_def km_def Let_def split: sum.splits)
  have made: "default_key km us \<noteq> []" "make_config fv (default_key km us) = Inr c"
    using assms fv us by (auto simp: ParseFlags_def km_def Let_def split: if_splits)
  have "list_all upstream_ok us \<and> distinct (names_of us)"
    using parse_upstreams_ok [OF us] by (simp add: names_of_def)
  then have ok: "list_all upstream_ok (default_key km us) \<and> distinct (names_of (default_key km us))"
    by (auto simp: default_key_def names_of_def upstream_ok_def split: list.splits option.splits)
  have "mb_range fv"
    using parse_args_range [OF fv] by (simp add: mb_range_def default_flags_def)
  then show ?thesis
    using made ok three_quarters_less [of "fv_MaxBufferMB fv"]
    by (auto simp: config_ok_def make_config_def mb_range_def quot_def Let_def split: if_splits)
qed

text \<open>
  C19: an accepted configuration is one the server can run with: a valid port, at least one upstream, every
  upstream URL with scheme and host and without credentials or fragment, names without slash and none
  given twice, the first
  upstream as the default, a positive buffer size and a low watermark below it, itself
  positive unless the size is 1 or three times the size overflows an int64.
\<close>

theorem ParseFlags_accepts: "ParseFlags args = Inr c \<Longrightarrow> config_ok c"
  by (rule parsed_config_ok)

lemma ParseFlags_accepts_witness:
  "case ParseFlags [''-port'', ''9000'', ''-upstream=a=http://h:1/v1@k''] of Inr c \<Rightarrow> config_ok c | Inl _ \<Rightarrow> False"
proof -
  have "isl (ParseFlags [''-port'', ''9000'', ''-upstream=a=http://h:1/v1@k'']) = False"
    by code_simp
  then show ?thesis
    using ParseFlags_accepts by (auto split: sum.split)
qed

text \<open>
  The watermarks a stream gets.  For every accepted configuration with a buffer below 2^43 MB, the
  buffer of each stream has exactly that high watermark, in bytes, and a low watermark strictly between 0
  and it: a paused reader can always be resumed.
\<close>

theorem config_watermarks:
  assumes "ParseFlags args = Inr c" "cfg_MaxBufferMB c < 2 ^ 43"
  shows "pb_highWatermark (NewPendingBuffer (BufferConfig c) m) = cfg_MaxBufferMB c * 2 ^ 20 \<and>
    0 < pb_lowWatermark (NewPendingBuffer (BufferConfig c) m) \<and>
    pb_lowWatermark (NewPendingBuffer (BufferConfig c) m) < cfg_MaxBufferMB c * 2 ^ 20"
proof -
  have ok: "0 < cfg_MaxBufferMB c" "cfg_LowWaterMB c < cfg_MaxBufferMB c"
    "0 < cfg_LowWaterMB c \<or> cfg_MaxBufferMB c = 1 \<and> cfg_LowWaterMB c = 0" "0 \<le> cfg_LowWaterMB c"
    using parsed_config_ok [OF assms(1)] assms(2) by (auto simp: config_ok_def)
  have "BufferConfig c = \<lparr>HighWatermark = cfg_MaxBufferMB c * 1048576, LowWatermark = cfg_LowWaterMB c * 1048576,
      MinCoalesceWait = wrap64 (cfg_MinCoalesceMs c * 1000000)\<rparr>"
    using ok assms(2) by (simp add: BufferConfig_def)
  then show ?thesis
    using ok three_quarters_less [of "cfg_MaxBufferMB c * 1048576"]
    by (auto simp: NewPendingBuffer_def quot_def Let_def)
qed

lemma config_watermarks_witness:
  "case ParseFlags [''-max-buffer-mb=4'', ''-low-water-mb'', ''9''] of
     Inr c \<Rightarrow> pb_highWatermark (NewPendingBuffer (BufferConfig c) None) = cfg_MaxBufferMB c * 2 ^ 20 \<and>
       0 < pb_lowWatermark (NewPendingBuffer (BufferConfig c) None) \<and>
       pb_lowWatermark (NewPendingBuffer (BufferConfig c) None) < cfg_MaxBufferMB c * 2 ^ 20
   | Inl _ \<Rightarrow> False"
proof -
  have "(case ParseFlags [''-max-buffer-mb=4'', ''-low-water-mb'', ''9''] of
      Inr c \<Rightarrow> cfg_MaxBufferMB c < 2 ^ 43 | Inl _ \<Rightarrow> False) = True"
    by code_simp
  then show ?thesis
    using config_watermarks by (auto split: sum.splits)
qed

section \<open>The command line names the upstreams\<close>

record upstream_spec =
  sp_Name :: bytes
  sp_Scheme :: web_scheme
  sp_Host :: bytes
  sp_Path :: bytes
  sp_Key :: bytes

text \<open>A target as it is written: its name if it has one, its URL, its key after an \<open>@\<close> if it has one.\<close>

definition render_upstream :: "upstream_spec \<Rightarrow> bytes" where
  "render_upstream sp =
     (if sp_Name sp = [] then [] else sp_Name sp @ ''='') @ url_text (sp_Scheme sp) (sp_Host sp @ sp_Path sp) @
     (if sp_Key sp = [] then [] else ''@'' @ sp_Key sp)"

definition spec_ok :: "upstream_spec \<Rightarrow> bool" where
  "spec_ok sp \<longleftrightarrow> list_all plain (sp_Name sp) \<and> plain_host (sp_Host sp) \<and> plain_path (sp_Path sp) \<and>
     list_all plain (sp_Key sp)"

definition meant :: "(bytes \<times> bytes) list \<Rightarrow> upstream_spec \<Rightarrow> upstream_config" where
  "meant keys sp = \<lparr>uc_Name = sp_Name sp, uc_URL = plain_url (sp_Scheme sp) (sp_Host sp) (sp_Path sp),
     uc_APIKey = (case map_of keys (sp_Name sp) of Some k \<Rightarrow> k | None \<Rightarrow> sp_Key sp)\<rparr>"

lemma url_text_chars:
  assumes "plain_host h" "plain_path p"
  shows "list_all url_byte (url_text sch (h @ p))"
  using plain_host_chars(1) [OF assms(1)] plain_path_chars [OF assms(2)]
  by (cases sch) (simp_all add: url_text_def url_byte_def plain_def is_alnum_def is_digit_def lower_in_def lower_char_def)

lemma absent_render:
  assumes "spec_ok sp" "\<not> url_byte c" "c \<noteq> CHR ''@''" "c \<noteq> CHR ''=''"
  shows "c \<notin> set (render_upstream sp)"
  using assms absent_if [OF url_text_chars, of "sp_Host sp" "sp_Path sp" c]
  by (auto simp: render_upstream_def spec_ok_def list_all_iff url_byte_def)

lemma render_visible: "spec_ok sp \<Longrightarrow> list_all visible (render_upstream sp)"
  using url_bytes_visible [OF url_text_chars, of "sp_Host sp" "sp_Path sp"]
  by (auto simp: render_upstream_def spec_ok_def plain_visible) (simp_all add: visible_def)

lemma render_trim: "spec_ok sp \<Longrightarrow> trim_space (render_upstream sp) = render_upstream sp"
  by (rule visible_trim [OF render_visible])

lemma split_name_render:
  assumes "spec_ok sp"
  shows "split_name (render_upstream sp) = (sp_Name sp, render_upstream (sp\<lparr>sp_Name := []\<rparr>))"
proof -
  define t where "t = render_upstream (sp\<lparr>sp_Name := []\<rparr>)"
  have "CHR ''='' \<notin> set (url_text (sp_Scheme sp) (sp_Host sp @ sp_Path sp))"
    by (rule absent_if [OF url_text_chars]) (use assms in \<open>simp_all add: spec_ok_def\<close>)
  moreover have "CHR ''='' \<notin> set (sp_Key sp)"
    by (rule absent_if [of plain]) (use assms in \<open>simp_all add: spec_ok_def\<close>)
  ultimately have no_eq: "index_byte t (CHR ''='') = None"
    by (auto simp: t_def render_upstream_def index_byte_None)
  have trim: "trim_space t = t"
    unfolding t_def by (rule render_trim) (use assms in \<open>simp add: spec_ok_def\<close>)
  show ?thesis
  proof (cases "sp_Name sp = []")
    case True
    then have "render_upstream sp = t"
      by (simp add: t_def render_upstream_def)
    with True no_eq show ?thesis
      by (simp add: split_name_def t_def [symmetric])
  next
    case False
    then have r: "render_upstream sp = sp_Name sp @ CHR ''='' # t"
      by (simp add: t_def render_upstream_def)
    have name: "CHR ''='' \<notin> set (sp_Name sp)" "CHR ''/'' \<notin> set (sp_Name sp)" "CHR '':'' \<notin> set (sp_Name sp)"
      using assms by (auto simp: spec_ok_def list_all_iff)
    have "trim_space (sp_Name sp) = sp_Name sp"
      by (rule visible_trim [OF plain_visible]) (use assms in \<open>simp add: spec_ok_def\<close>)
    with False name trim show ?thesis
      by (simp add: split_name_def r Contains_absent t_def [symmetric])
  qed
qed

lemma cut_key_render:
  assumes "spec_ok sp"
  shows "cut_key (render_upstream (sp\<lparr>sp_Name := []\<rparr>)) = (url_text (sp_Scheme sp) (sp_Host sp @ sp_Path sp), sp_Key sp)"
proof -
  define t where "t = url_text (sp_Scheme sp) (sp_Host sp @ sp_Path sp)"
  have t: "CHR ''@'' \<notin> set t"
    unfolding t_def by (rule absent_if [OF url_text_chars]) (use assms in \<open>simp_all add: spec_ok_def\<close>)
  have http: "has_prefix t ''http://'' \<or> has_prefix t ''https://''"
    by (cases "sp_Scheme sp") (simp_all add: t_def url_text_def)
  have key: "CHR ''@'' \<notin> set (sp_Key sp)" "CHR ''/'' \<notin> set (sp_Key sp)"
    using assms by (auto simp: spec_ok_def list_all_iff)
  show ?thesis
  proof (cases "sp_Key sp = []")
    case True
    with t show ?thesis
      by (simp add: cut_key_def render_upstream_def t_def [symmetric] LastIndex_absent)
  next
    case False
    then have "render_upstream (sp\<lparr>sp_Name := []\<rparr>) = t @ CHR ''@'' # sp_Key sp"
      by (simp add: render_upstream_def t_def)
    with http key show ?thesis
      by (simp add: cut_key_def t_def [symmetric] LastIndex_append Contains_absent)
  qed
qed

lemma parse_upstream_render:
  assumes "spec_ok sp"
  shows "parse_upstream keys (render_upstream sp) = Inr (meant keys sp)"
proof -
  have "scheme_name sch \<noteq> []" for sch
    by (cases sch) auto
  with assms show ?thesis
    by (simp add: parse_upstream_def split_name_render cut_key_render Parse_plain spec_ok_def plain_host_def
        plain_url_def no_url_def take_user_def take_fragment_def meant_def)
qed

lemma split_on_join:
  "ps \<noteq> [] \<Longrightarrow> \<forall>p\<in>set ps. c \<notin> set p \<Longrightarrow> split_on c (join [c] ps) = ps"
proof (induction ps)
  case (Cons p ps)
  then show ?case
    by (cases ps) (auto simp: split_on_fresh split_on_append)
qed simp

lemma parts_of_join:
  assumes "\<forall>p\<in>set ps. p \<noteq> [] \<and> CHR '','' \<notin> set p \<and> trim_space p = p"
  shows "parts_of [join '','' ps] = ps"
proof (cases "ps = []")
  case True
  then show ?thesis
    by (simp add: parts_of_def)
next
  case False
  have "map trim_space ps = ps" "filter (\<lambda>p. p \<noteq> []) ps = ps"
    using assms by (auto intro: map_idI)
  with False assms show ?thesis
    by (simp add: parts_of_def split_on_join)
qed

lemma render_parts:
  assumes "list_all spec_ok sps"
  shows "parts_of [join '','' (map render_upstream sps)] = map render_upstream sps"
proof (rule parts_of_join)
  show "\<forall>p\<in>set (map render_upstream sps). p \<noteq> [] \<and> CHR '','' \<notin> set p \<and> trim_space p = p"
    using assms absent_render [of _ "CHR '',''"]
    by (auto simp: list_all_iff render_trim) (auto simp: render_upstream_def url_text_def)
qed

definition render_key :: "bytes \<times> bytes \<Rightarrow> bytes" where
  "render_key nk = fst nk @ ''='' @ snd nk"

definition key_ok :: "bytes \<times> bytes \<Rightarrow> bool" where
  "key_ok nk \<longleftrightarrow> fst nk \<noteq> [] \<and> list_all plain (fst nk) \<and> list_all plain (snd nk)"

lemma key_parts:
  assumes "list_all key_ok nks"
  shows "parts_of [join '','' (map render_key nks)] = map render_key nks"
proof (rule parts_of_join)
  have "list_all visible (render_key nk)" if "key_ok nk" for nk
    using that plain_visible by (auto simp: key_ok_def render_key_def) (simp add: visible_def)
  moreover have "CHR '','' \<notin> set (render_key nk)" if "key_ok nk" for nk
    using that by (auto simp: key_ok_def render_key_def list_all_iff)
  ultimately show "\<forall>p\<in>set (map render_key nks). p \<noteq> [] \<and> CHR '','' \<notin> set p \<and> trim_space p = p"
    using assms by (auto simp: list_all_iff [of key_ok] intro: visible_trim) (auto simp: render_key_def)
qed

lemma add_key_render:
  assumes "key_ok nk"
  shows "add_key (render_key nk) km = AList.update (fst nk) (snd nk) km"
proof -
  have "CHR ''='' \<notin> set (fst nk)"
    using assms by (auto simp: key_ok_def list_all_iff)
  moreover have "trim_space (fst nk) = fst nk" "trim_space (snd nk) = snd nk"
    using assms by (auto simp: key_ok_def intro: visible_trim plain_visible)
  ultimately show ?thesis
    by (simp add: add_key_def render_key_def)
qed

text \<open>The last key for a name counts.\<close>

lemma add_keys:
  "list_all key_ok nks \<Longrightarrow> map_of (fold add_key (map render_key nks) km) n =
     (case map_of (rev nks) n of Some k \<Rightarrow> Some k | None \<Rightarrow> map_of km n)"
  by (induction nks arbitrary: km)
     (auto simp: add_key_render update_conv' map_add_def map_of_append split: option.split)

lemma parse_upstreams_render:
  "list_all spec_ok sps \<Longrightarrow> distinct (names_of (acc @ map (meant km) sps))
   \<Longrightarrow> parse_upstreams km (map render_upstream sps) acc = Inr (acc @ map (meant km) sps)"
proof (induction sps arbitrary: acc)
  case (Cons sp sps)
  have "uc_Name (meant km sp) = [] \<or> uc_Name (meant km sp) \<notin> uc_Name ` set acc"
    using Cons.prems(2) by (auto simp: names_of_def)
  with Cons.IH [of "acc @ [meant km sp]"] Cons.prems show ?case
    by (simp add: parse_upstream_render)
qed simp

lemma meant_cong: "map_of km = map_of km' \<Longrightarrow> meant km = meant km'"
  by (rule ext) (simp add: meant_def)

text \<open>
  C18: the command line says which upstreams there are.  Targets written as \<open>name=scheme://host/path@key\<close>,
  with or without name and key and separated by commas, come back as exactly these upstreams in this
  order; a key given for a name by \<open>-api-key\<close> overrules the inline one, and the last one for a name counts.
  Names, hosts, paths and keys are made of letters, digits, \<open>-\<close>, \<open>_\<close> and \<open>.\<close>, and no name occurs twice.
\<close>

theorem ParseFlags_upstreams:
  assumes "sps \<noteq> []" "list_all spec_ok sps" "distinct (names_of (map (meant []) sps))" "list_all key_ok keys"
  shows "map_sum id cfg_Upstreams
      (ParseFlags [''-upstream'', join '','' (map render_upstream sps), ''-api-key'', join '','' (map render_key keys)])
    = Inr (map (meant (rev keys)) sps)"
proof -
  define fv where "fv = default_flags\<lparr>fv_upstreams := \<lparr>ss_values = [join '','' (map render_upstream sps)], ss_isSet = True\<rparr>,
    fv_apiKeys := \<lparr>ss_values = [join '','' (map render_key keys)], ss_isSet = True\<rparr>\<rparr>"
  define km where "km = fold add_key (map render_key keys) []"
  have args: "parse_args [''-upstream'', join '','' (map render_upstream sps), ''-api-key'', join '','' (map render_key keys)]
      default_flags = Inr fv"
    by (simp add: parse_one_def Let_def Cut_def declared_flags_def is_flag_def ss_Set_def fv_def default_flags_def)
  have km: "map_of km n = map_of (rev keys) n" for n
    using add_keys [OF assms(4), of "[]" n] by (simp add: km_def split: option.split)
  then have meant: "meant km = meant (rev keys)"
    by (intro meant_cong) auto
  have "names_of (map (meant km) sps) = names_of (map (meant []) sps)"
    by (simp add: names_of_def meant_def comp_def)
  with assms(2, 3) have ups: "parse_upstreams km (map render_upstream sps) [] = Inr (map (meant km) sps)"
    using parse_upstreams_render [of sps "[]" km] by simp
  have "[] \<notin> fst ` set keys"
    using assms(4) by (auto simp: key_ok_def list_all_iff)
  then have "map_of km [] = None"
    by (simp add: km map_of_eq_None_iff)
  then have "default_key km us = us" for us
    by (auto simp: default_key_def split: list.split)
  moreover have "parts_of (ss_values (fv_upstreams fv)) = map render_upstream sps"
    "parts_of (ss_values (fv_apiKeys fv)) = map render_key keys"
    by (simp_all add: fv_def render_parts [OF assms(2)] key_parts [OF assms(4)])
  ultimately show ?thesis
    using args ups assms(1) meant
    by (simp add: ParseFlags_def km_def [symmetric] make_config_def fv_def default_flags_def Let_def)
qed

lemma ParseFlags_upstreams_witness:
  "let sps = [\<lparr>sp_Name = ''local'', sp_Scheme = Http, sp_Host = ''127.0.0.1:8001'', sp_Path = [], sp_Key = []\<rparr>,
       \<lparr>sp_Name = ''grok'', sp_Scheme = Https, sp_Host = ''api.x.ai'', sp_Path = ''/v1'', sp_Key = ''sk-inline''\<rparr>];
       keys = [(''local'', ''sk-1''), (''grok'', ''sk-2'')]
   in map_sum id cfg_Upstreams
      (ParseFlags [''-upstream'', join '','' (map render_upstream sps), ''-api-key'', join '','' (map render_key keys)])
    = Inr (map (meant (rev keys)) sps)"
  unfolding Let_def by (rule ParseFlags_upstreams) code_simp+

section \<open>A key in the place of the user\<close>

text \<open>
  C20: a key written as the user of a URL, as in \<open>http://key@host/path\<close>, is the key of that host.  But
  without a path the same text is read as a URL followed by \<open>@key\<close>: the key becomes the host, which the
  proxy looks up and sends requests to, and the host becomes the key.
\<close>

theorem user_key_swapped:
  assumes "key \<noteq> []" "list_all plain key" "plain_host host" "plain_path path" "path \<noteq> []"
  shows "parse_upstream [] (url_text sch (key @ ''@'' @ host @ path)) =
      Inr \<lparr>uc_Name = [], uc_URL = plain_url sch host path, uc_APIKey = key\<rparr> \<and>
    parse_upstream [] (url_text sch (key @ ''@'' @ host)) =
      Inr \<lparr>uc_Name = [], uc_URL = plain_url sch key [], uc_APIKey = host\<rparr>"
proof -
  have key: "plain_host key" "CHR ''='' \<notin> set key"
    using assms(1, 2) index_byte_None [of key "CHR '':''"] by (auto simp: plain_host_def list_all_iff)
  have host: "CHR ''='' \<notin> set host" "CHR ''@'' \<notin> set host" "CHR ''/'' \<notin> set host" "host \<noteq> []"
    using plain_host_chars [OF assms(3)] assms(3) absent_if [of url_byte host]
    by (auto simp: plain_host_def)
  have path: "CHR ''='' \<notin> set path" "CHR ''@'' \<notin> set path" "CHR ''/'' \<in> set path"
    using plain_path_chars [OF assms(4)] assms(4, 5) absent_if [of url_byte path] hd_in_set [OF assms(5)]
    by (auto simp: plain_path_def)
  have no_eq: "CHR ''='' \<notin> set (url_text sch s)" if "CHR ''='' \<notin> set s" for s
    using that by (cases sch) (simp_all add: url_text_def)
  have unnamed: "split_name (url_text sch s) = ([], url_text sch s)" if "CHR ''='' \<notin> set s" for s
    using index_byte_None [THEN iffD2, OF no_eq [OF that]] by (simp add: split_name_def)
  have http: "has_prefix (url_text sch s) ''http://'' \<or> has_prefix (url_text sch s) ''https://''" for s
    by (cases sch) (simp_all add: url_text_def)
  have keyed: "url_text sch (key @ CHR ''@'' # s) = url_text sch key @ CHR ''@'' # s" for s
    by (simp add: url_text_def)
  have "Contains (host @ path) ''/''"
    using path(3) by (simp add: Contains_def index_byte_None)
  then have long: "cut_key (url_text sch (key @ CHR ''@'' # host @ path)) = (url_text sch (key @ CHR ''@'' # host @ path), [])"
    unfolding keyed using host path by (simp add: cut_key_def LastIndex_append)
  have short: "cut_key (url_text sch (key @ CHR ''@'' # host)) = (url_text sch key, host)"
    unfolding keyed using host http by (simp add: cut_key_def LastIndex_append Contains_absent)
  have "scheme_name sch \<noteq> []"
    by (cases sch) auto
  moreover have "Parse (url_text sch key) = Some (plain_url sch key [])"
    using Parse_plain [OF key(1), of "[]" sch] by (simp add: plain_path_def)
  ultimately show ?thesis
    using assms(1) host key(2) path Parse_user [OF assms(2-5), of sch]
    by (simp add: parse_upstream_def unnamed long short plain_url_def no_url_def take_user_def take_fragment_def)
qed

lemma user_key_swapped_witness:
  "parse_upstream [] (url_text Https (''sk-secret'' @ ''@'' @ ''api.x.ai'' @ ''/v1'')) =
      Inr \<lparr>uc_Name = [], uc_URL = plain_url Https ''api.x.ai'' ''/v1'', uc_APIKey = ''sk-secret''\<rparr> \<and>
    parse_upstream [] (url_text Https (''sk-secret'' @ ''@'' @ ''api.x.ai'')) =
      Inr \<lparr>uc_Name = [], uc_URL = plain_url Https ''sk-secret'' [], uc_APIKey = ''api.x.ai''\<rparr>"
  by (rule user_key_swapped) code_simp+

end
