(* ===== verification/Server_Laws.thy ===== *)
theory Server_Laws
  imports Server Config_Laws Compress_Laws
begin

text \<open>
  What the server of an accepted configuration does: which upstream a model goes to, that the models it
  lists go back to where they came from, and which header fields pass.
\<close>

section \<open>The server of a configuration\<close>

definition server_of :: "config \<Rightarrow> proxy_server" where
  "server_of c = NewProxyServer (server_config_of c)"

lemma add_targets:
  "map_of (fold add_target us m) n =
     (if n = [] then map_of m n
      else (case map_of (rev (map (\<lambda>u. (ut_Name u, u)) us)) n of Some u \<Rightarrow> Some u | None \<Rightarrow> map_of m n))"
  by (induction us arbitrary: m)
     (auto simp: add_target_def update_conv' map_of_append map_add_def split: option.split)

lemma map_of_rev_distinct: "distinct (map fst xs) \<Longrightarrow> map_of (rev xs) = map_of xs"
  by (metis distinct_rev map_of_inject_set rev_map set_rev)

lemma server_of_simps [simp]:
  assumes "cfg_Upstreams c \<noteq> []"
  shows "sv_upstreams (server_of c) = map target_of (cfg_Upstreams c)"
    "sv_upstreamMap (server_of c) = fold add_target (map target_of (cfg_Upstreams c)) []"
    "sc_BufferConfig (sv_cfg (server_of c)) = BufferConfig c"
    "sv_monitorHub (server_of c) = NewMonitorHub"
  using assms by (simp_all add: server_of_def NewProxyServer_def server_config_of_def Let_def)

text \<open>The names of the upstreams lead to them, and nothing else does.\<close>

lemma upstreamMap_distinct:
  assumes "distinct (names_of us)"
  shows "map_of (fold add_target (map target_of us) []) n =
    (if n = [] then None else map_option target_of (find (\<lambda>u. uc_Name u = n) us))"
proof (cases "n = []")
  case False
  have last: "map_of (rev (map (\<lambda>u. (ut_Name u, u)) (map target_of us))) n = map_option target_of (find (\<lambda>u. uc_Name u = n) us)"
    using assms
  proof (induction us)
    case (Cons u us)
    show ?case
    proof (cases "uc_Name u = n")
      case True
      with Cons.prems False have "find (\<lambda>u. uc_Name u = n) us = None"
        by (auto simp: names_of_def find_None_iff image_iff)
      with True Cons show ?thesis
        using False by (auto simp: names_of_def target_of_def map_of_append map_add_def split: if_splits)
    next
      case False
      with Cons show ?thesis
        by (auto simp: names_of_def target_of_def map_of_append map_add_def split: if_splits option.split)
    qed
  qed simp
  with False show ?thesis
    by (simp add: add_targets split: option.split)
qed (simp add: add_targets)

lemma find_named:
  assumes "distinct (names_of us)" "u \<in> set us" "uc_Name u \<noteq> []"
  shows "find (\<lambda>v. uc_Name v = uc_Name u) us = Some u"
  using assms by (induction us) (auto simp: names_of_def split: if_splits)

lemma Cut_slash: "CHR ''/'' \<notin> set n \<Longrightarrow> Cut (n @ CHR ''/'' # m) ''/'' = (n, m, True)"
  by (rule Cut_append)

lemma Cut_slash_cases:
  obtains "CHR ''/'' \<notin> set model" "Cut model ''/'' = (model, [], False)"
  | n m where "model = n @ CHR ''/'' # m" "CHR ''/'' \<notin> set n"
  using Cut_absent by (metis split_list_first)

text \<open>The upstream the documentation of the command line means for a model.\<close>

definition routed :: "upstream_config list \<Rightarrow> bytes \<Rightarrow> (upstream_config \<times> bytes) option" where
  "routed us model =
     (if CHR ''/'' \<in> set model
      then (let n = takeWhile (\<lambda>c. c \<noteq> CHR ''/'') model; m = drop (Suc (length n)) model
            in if n = [] then None else map_option (\<lambda>u. (u, m)) (find (\<lambda>u. uc_Name u = n) us))
      else case us of
             [u] \<Rightarrow> Some (u, model)
           | _ \<Rightarrow> (case find (\<lambda>u. uc_Name u = ''default'') us of
                    Some u \<Rightarrow> Some (u, model)
                  | None \<Rightarrow> if model = [] then None
                            else map_option (\<lambda>u. (u, model)) (find (\<lambda>u. uc_Name u = model) us)))"

lemma resolve_routed:
  assumes "config_ok c"
  shows "(case resolveUpstream ip (server_of c) model of Inr r \<Rightarrow> Some r | Inl _ \<Rightarrow> None)
    = map_option (map_prod target_of id) (routed (cfg_Upstreams c) model)"
proof -
  have ne: "cfg_Upstreams c \<noteq> []" and d: "distinct (names_of (cfg_Upstreams c))"
    using assms by (auto simp: config_ok_def)
  note m = upstreamMap_distinct [OF d]
  show ?thesis
  proof (cases rule: Cut_slash_cases [of model])
    case 1
    with ne m show ?thesis
      by (cases "cfg_Upstreams c" rule: list.exhaust [case_product list.exhaust]; cases "tl (cfg_Upstreams c)")
         (auto simp: resolveUpstream_def routed_def comp_def split: option.split)
  next
    case (2 n k)
    then have "takeWhile (\<lambda>c. c \<noteq> CHR ''/'') model = n"
      by (simp add: takeWhile_absent)
    with 2 ne m show ?thesis
      by (auto simp: resolveUpstream_def routed_def Cut_slash comp_def Let_def split: option.split)
  qed
qed

lemma resolve_named:
  assumes "config_ok c" "u \<in> set (cfg_Upstreams c)" "uc_Name u \<noteq> []"
  shows "resolveUpstream ip (server_of c) (uc_Name u @ ''/'' @ m) = Inr (target_of u, m)"
proof -
  have d: "distinct (names_of (cfg_Upstreams c))" and ne: "cfg_Upstreams c \<noteq> []"
    and slash: "CHR ''/'' \<notin> set (uc_Name u)"
    using assms by (auto simp: config_ok_def list_all_iff upstream_ok_def)
  show ?thesis
    using find_named [OF d assms(2,3)] assms(3) upstreamMap_distinct [OF d, of "uc_Name u"] ne
    by (simp add: resolveUpstream_def Cut_slash [OF slash])
qed

lemma resolve_unknown:
  assumes "config_ok c" "CHR ''/'' \<notin> set n" "n \<notin> set (names_of (cfg_Upstreams c))"
  shows "isl (resolveUpstream ip (server_of c) (n @ ''/'' @ m))"
proof -
  have d: "distinct (names_of (cfg_Upstreams c))" and ne: "cfg_Upstreams c \<noteq> []"
    using assms by (auto simp: config_ok_def)
  have "n \<noteq> [] \<Longrightarrow> find (\<lambda>u. uc_Name u = n) (cfg_Upstreams c) = None"
    using assms(3) by (auto simp: find_None_iff names_of_def)
  then show ?thesis
    using upstreamMap_distinct [OF d, of n] ne by (simp add: resolveUpstream_def Cut_slash [OF assms(2)])
qed

text \<open>
  C22: which upstream a model goes to, in the server of any accepted configuration.  A model
  \<open>name/m\<close> goes to the upstream of that name, with its key, as \<open>m\<close>; a model with a slash whose first part is
  no name of an upstream is refused, so if the only upstream has no name, every model with a slash is; and
  a model without slash goes to the only upstream as it is.
\<close>

theorem model_routing:
  assumes "ParseFlags args = Inr c"
  shows "(\<forall>u\<in>set (cfg_Upstreams c). uc_Name u \<noteq> [] \<longrightarrow>
        resolveUpstream ip (server_of c) (uc_Name u @ ''/'' @ m) = Inr (target_of u, m)) \<and>
    (\<forall>n. CHR ''/'' \<notin> set n \<and> n \<notin> set (names_of (cfg_Upstreams c)) \<longrightarrow>
        isl (resolveUpstream ip (server_of c) (n @ ''/'' @ m))) \<and>
    (\<forall>u. CHR ''/'' \<notin> set m \<and> cfg_Upstreams c = [u] \<longrightarrow> resolveUpstream ip (server_of c) m = Inr (target_of u, m))"
proof -
  note ok = parsed_config_ok [OF assms]
  have "resolveUpstream ip (server_of c) m = Inr (target_of u, m)" if "CHR ''/'' \<notin> set m" "cfg_Upstreams c = [u]" for u
    using that by (simp add: resolveUpstream_def Cut_absent)
  with resolve_named [OF ok] resolve_unknown [OF ok] show ?thesis
    by blast
qed

definition two_upstreams :: "bytes list" where
  "two_upstreams = [''-upstream'', ''a=http://h:1,b=https://k@sk'']"

lemma model_routing_witness:
  "case ParseFlags two_upstreams of
     Inr c \<Rightarrow> (\<forall>u\<in>set (cfg_Upstreams c). uc_Name u \<noteq> [] \<longrightarrow>
           resolveUpstream (\<lambda>_. True) (server_of c) (uc_Name u @ ''/'' @ ''gpt'') = Inr (target_of u, ''gpt'')) \<and>
       (\<forall>n. CHR ''/'' \<notin> set n \<and> n \<notin> set (names_of (cfg_Upstreams c)) \<longrightarrow>
           isl (resolveUpstream (\<lambda>_. True) (server_of c) (n @ ''/'' @ ''gpt''))) \<and>
       (\<forall>u. CHR ''/'' \<notin> set ''gpt'' \<and> cfg_Upstreams c = [u] \<longrightarrow>
           resolveUpstream (\<lambda>_. True) (server_of c) ''gpt'' = Inr (target_of u, ''gpt''))
   | Inl _ \<Rightarrow> False"
proof -
  have "isl (ParseFlags two_upstreams) = False"
    by code_simp
  then obtain c where c: "ParseFlags two_upstreams = Inr c"
    by (cases "ParseFlags two_upstreams") auto
  show ?thesis
    using model_routing [OF c, of "\<lambda>_. True" "''gpt''"] by (simp only: c sum.case)
qed

section \<open>Listed models\<close>

lemma prefix_field_other: "k \<noteq> key \<Longrightarrow> map_of (prefix_field name key m) k = map_of m k"
  by (auto simp: prefix_field_def update_conv' split: option.split goval.split)

lemma prefix_field_string:
  "map_of (prefix_field name key m) key = Some (GStr i) \<Longrightarrow>
   \<exists>s. map_of m key = Some (GStr s) \<and> i = name @ ''/'' @ s"
  by (auto simp: prefix_field_def update_conv' split: option.splits goval.splits)

lemma listed_item:
  assumes "GObj m \<in> set (concat (map (name_item name) vs))" "name \<noteq> []"
    "map_of m ''id'' = Some (GStr i)"
  shows "\<exists>v s. GObj v \<in> set vs \<and> map_of v ''id'' = Some (GStr s) \<and> i = name @ ''/'' @ s"
proof -
  obtain v where v: "GObj v \<in> set vs" "m = prefix_field name ''name'' (prefix_field name ''id'' v)"
    using assms(1, 2) by (auto simp: name_item_def split: goval.splits)
  then have "map_of (prefix_field name ''id'' v) ''id'' = Some (GStr i)"
    using assms(3) prefix_field_other [of "''id''" "''name''"] by simp
  from prefix_field_string [OF this] v(1) show ?thesis
    by blast
qed


definition sample_config :: config where
  "sample_config = projr (ParseFlags two_upstreams)"

lemma sample_config: "ParseFlags two_upstreams = Inr sample_config"
proof -
  have "isl (ParseFlags two_upstreams) = False"
    by code_simp
  then show ?thesis
    by (simp add: sample_config_def)
qed

definition sample_env :: "bytes \<Rightarrow> bytes \<Rightarrow> env" where
  "sample_env ctype body =
     \<lparr>env_do = (\<lambda>_. Inr \<lparr>rs_StatusCode = 200, rs_Header = [(''Content-Type'', [ctype])], rs_Body = body, rs_readErr = None\<rparr>),
      env_urlErr = id, env_jsonErr = id, env_marshalErr = [], env_is_print = (\<lambda>_. True), env_dashboard = (\<lambda>_. []),
      env_start = 0, env_clock = int\<rparr>"


section \<open>Header fields\<close>

text \<open>Keys as \<open>net/http\<close> keeps them.\<close>

definition header_ok :: "header \<Rightarrow> bool" where
  "header_ok h \<longleftrightarrow> distinct (map fst h) \<and> list_all (\<lambda>(k, vv). canonical_key k = k) h"

lemma header_values_cong: "canonical_key k = canonical_key k' \<Longrightarrow> header_values h k = header_values h k'"
  by (simp add: header_values_def)

lemma header_values_Cons:
  "canonical_key key = key \<Longrightarrow>
   header_values ((key, vv) # src) k = (if canonical_key k = key then vv else header_values src k)"
  by (simp add: header_values_def)

lemma header_add_all:
  "header_values (fold (header_add k) vv h) k' =
     (if canonical_key k' = canonical_key k then header_values h k' @ vv else header_values h k')"
  by (induction vv arbitrary: h) (auto simp: header_values_cong [of k' k])

text \<open>
  Copying a header adds the values of every field to those already there, in their order, except for the
  fields of one connection, of which nothing is copied.
\<close>

lemma copied_values:
  assumes "header_ok src"
  shows "header_values (copyHeaders src dst) k =
    header_values dst k @ (if isHopByHop (canonical_key k) then [] else header_values src k)"
  using assms
proof (induction src arbitrary: dst)
  case Nil
  then show ?case
    by (simp add: copyHeaders_def header_values_def)
next
  case (Cons kv src)
  obtain key vv where kv: "kv = (key, vv)"
    by (cases kv)
  with Cons.prems have src: "header_ok src" "key \<notin> fst ` set src" "canonical_key key = key"
    by (auto simp: header_ok_def)
  have step: "copyHeaders (kv # src) dst = copyHeaders src (if isHopByHop key then dst else fold (header_add key) vv dst)"
    by (simp add: copyHeaders_def kv)
  have none: "map_of src key = None"
    using src(2) by (simp add: map_of_eq_None_iff)
  then have "canonical_key k = key \<Longrightarrow> header_values src k = []"
    by (simp add: header_values_def)
  then show ?case
    unfolding step Cons.IH [OF src(1)] using src(3) by (auto simp: kv header_add_all header_values_Cons)
qed

end
