(* ===== verification/Server_State.thy ===== *)
theory Server_State
  imports Server_Laws
begin

text \<open>
  Invariants of the server's state: the cache of the list of models with its background refresh, and the
  hub, with which no handler panics.
\<close>

section \<open>The cache of models\<close>

text \<open>A server and the number of refreshes that are running.\<close>

inductive models_step :: "proxy_server \<times> nat \<Rightarrow> proxy_server \<times> nat \<Rightarrow> bool" where
  ask: "handleModels env r s = (s', ops, refresh) \<Longrightarrow> models_step (s, n) (s', n + of_bool refresh)"
| refreshed: "models_step (s, Suc n) (refreshModels env r s, n)"

inductive_cases models_stepE: "models_step sn sn'"

definition cache_ok :: "proxy_server \<times> nat \<Rightarrow> bool" where
  "cache_ok sn \<longleftrightarrow> snd sn = of_bool (sv_modelsUpdating (fst sn)) \<and>
     (sv_modelsUpdating (fst sn) \<longrightarrow> sv_modelsCache (fst sn) \<noteq> None) \<and>
     (case sv_modelsCache (fst sn) of Some c \<Rightarrow> cm_statusCode c = 200 | None \<Rightarrow> True)"

lemma cache_ok_handleModels:
  assumes "cache_ok (s, n)" "handleModels env r s = (s', ops, refresh)"
  shows "cache_ok (s', n + of_bool refresh)"
  using assms by (auto simp: cache_ok_def handleModels_def split: option.splits sum.splits if_splits)

lemma cache_ok_refreshModels:
  assumes "cache_ok (s, Suc n)"
  shows "cache_ok (refreshModels env r s, n)"
  using assms by (auto simp: cache_ok_def refreshModels_def Let_def of_bool_def split: option.splits sum.splits if_splits)

lemma cache_ok_reachable:
  assumes "models_step\<^sup>*\<^sup>* (s, n) sn" "cache_ok (s, n)"
  shows "cache_ok sn"
  using assms
proof (induction rule: rtranclp_induct)
  case (step sn sn')
  from step.hyps(2) show ?case
  proof (cases rule: models_step.cases)
    case (ask env r s s' ops refresh n)
    show ?thesis
      unfolding ask(2) by (rule cache_ok_handleModels [OF _ ask(3)]) (use step.IH [OF step.prems] ask(1) in simp)
  next
    case (refreshed s n env r)
    with step.IH [OF step.prems] show ?thesis
      by (simp add: cache_ok_refreshModels)
  qed
qed

lemma cache_stays:
  assumes "models_step\<^sup>*\<^sup>* sn sn'" "sv_modelsCache (fst sn) \<noteq> None"
  shows "sv_modelsCache (fst sn') \<noteq> None"
  using assms
proof (induction rule: rtranclp_induct)
  case (step sn' sn'')
  from step.hyps(2) step.IH [OF step.prems] show ?case
    by (cases rule: models_step.cases)
       (auto simp: handleModels_def refreshModels_def Let_def split: option.splits sum.splits if_splits)
qed



section \<open>No handler panics\<close>

definition hub_ok :: "proxy_server \<Rightarrow> bool" where
  "hub_ok s \<longleftrightarrow> (\<exists>ss. represents (sv_monitorHub s) ss)"

lemma hub_ok_broadcast: "hub_ok s \<Longrightarrow> \<exists>s'. broadcast ev s = Some s' \<and> hub_ok s'"
  using represents_Broadcast by (fastforce simp: hub_ok_def broadcast_def)

lemma hub_ok_broadcast_watched: "hub_ok s \<Longrightarrow> \<exists>s'. broadcast_watched ev s = Some s' \<and> hub_ok s'"
  using hub_ok_broadcast by (auto simp: broadcast_watched_def)

lemma hub_ok_updates [simp]:
  "hub_ok (recordLastReq rec s) = hub_ok s" "hub_ok (s\<lparr>sv_sessionSeq := n\<rparr>) = hub_ok s"
  "hub_ok (s\<lparr>sv_modelsCache := c\<rparr>) = hub_ok s" "hub_ok (s\<lparr>sv_modelsUpdating := b\<rparr>) = hub_ok s"
  by (simp_all add: hub_ok_def recordLastReq_def)

lemma hub_ok_new: "hub_ok (NewProxyServer cfg)"
  using represents_new by (auto simp: hub_ok_def NewProxyServer_def Let_def split: option.split)

lemma hub_ok_subscribe: "hub_ok s \<Longrightarrow> hub_ok (s\<lparr>sv_monitorHub := Subscribe m (sv_monitorHub s)\<rparr>)"
  using represents_Subscribe by (fastforce simp: hub_ok_def)

lemma broadcast_two:
  assumes "hub_ok s"
  shows "\<exists>s'. Option.bind (broadcast a s) (broadcast b) = Some s' \<and> hub_ok s'"
proof -
  obtain s1 where "broadcast a s = Some s1" "hub_ok s1"
    using hub_ok_broadcast [OF assms] by blast
  then show ?thesis
    using hub_ok_broadcast by simp
qed

text \<open>A result that is there, with a hub in order.\<close>

definition safe :: "('a \<times> proxy_server) option \<Rightarrow> bool" where
  "safe res \<longleftrightarrow> (case res of Some (_, s) \<Rightarrow> hub_ok s | None \<Rightarrow> False)"

lemma safe_simps [simp]:
  "safe (Some (x, s)) = hub_ok s" "safe (map_option (map_prod f id) res) = safe res" "\<not> safe None"
  by (auto simp: safe_def split: option.split)

lemma announce_safe:
  assumes "hub_ok s"
  shows "\<exists>s'. announce_response env sid m body s = Some s' \<and> hub_ok s'"
  unfolding announce_response_def using broadcast_two [OF assms] assms by simp

lemma transparentProxy_safe:
  assumes "hub_ok s"
  shows "safe (transparentProxy env r t p sid m body s)"
proof -
  have "safe (case announce_response env sid m b s of None \<Rightarrow> None | Some s \<Rightarrow> Some (ops, recordLastReq rec s))"
    for b rec and ops :: "response_op list"
    using announce_safe [OF assms, of env sid m b] by auto
  then show ?thesis
    using assms by (simp add: transparentProxy_def Let_def split: option.split sum.split)
qed

lemma resolve_empty: "resolveUpstream ip s [] = Inr (t, m) \<Longrightarrow> m = []"
  by (auto simp: resolveUpstream_def Cut_def split: if_splits option.splits)

text \<open>A body that is \<open>null\<close> names no model, so there is nothing to rewrite.\<close>

lemma rewrite_defined:
  assumes "resolveUpstream ip s (sk_Model (stored_check body)) = Inr (t, m)" "m \<noteq> []"
  shows "rewriteModelInBody body m \<noteq> None"
proof
  assume "rewriteModelInBody body m = None"
  then have "sk_Model (stored_check body) = []"
    by (auto simp: rewriteModelInBody_def stored_check_def split: option.splits if_splits)
  with assms resolve_empty show False
    by metis
qed

lemma forward_stream_safe: "hub_ok s \<Longrightarrow> hub_ok (snd (forward_stream env r proto t body sid m s))"
  by (auto simp: forward_stream_def Let_def split: sum.split)

lemma handleStreamingEndpoint_safe:
  assumes "hub_ok s"
  shows "safe (handleStreamingEndpoint env r proto s)"
proof (cases "cr_readErr r")
  case None
  define s1 where "s1 = s\<lparr>sv_sessionSeq := (sv_sessionSeq s + 1) mod 2 ^ 64\<rparr>"
  define m where "m = sk_Model (stored_check (cr_Body r))"
  obtain s2 where s2: "broadcast_watched (packet (session_id (env_clock env 0) (sv_sessionSeq s1)) m (env_clock env 0)
      DirectionUpstream ''request'' (cr_Body r) ''Client Request'') s1 = Some s2" "hub_ok s2"
    using hub_ok_broadcast_watched [of s1] assms by (auto simp: s1_def)
  show ?thesis
  proof (cases "resolveUpstream (env_is_print env) s2 m")
    case (Inl err)
    with None s2 show ?thesis
      by (simp add: handleStreamingEndpoint_def Let_def s1_def m_def)
  next
    case (Inr tm)
    obtain t m' where tm: "tm = (t, m')"
      by (cases tm)
    have "\<exists>b. (if m' \<noteq> [] \<and> m' \<noteq> m then rewriteModelInBody (cr_Body r) m' else Some (cr_Body r)) = Some b"
      using rewrite_defined [OF Inr [unfolded tm m_def]] by auto
    then obtain b where b: "(if m' \<noteq> [] \<and> m' \<noteq> m then rewriteModelInBody (cr_Body r) m' else Some (cr_Body r)) = Some b"
      by blast
    have fwd: "hub_ok (snd (forward_stream env r proto t b sid m s2))" for sid
      by (rule forward_stream_safe [OF s2(2)])
    have "safe (Some x)" if "hub_ok (snd x)" for x :: "outcome \<times> proxy_server"
      using that by (cases x) simp
    with fwd transparentProxy_safe [OF s2(2)] None s2(1) Inr tm b show ?thesis
      by (simp add: handleStreamingEndpoint_def Let_def s1_def m_def)
  qed
qed (use assms in \<open>simp add: handleStreamingEndpoint_def\<close>)

lemma handleModels_hub: "handleModels env r s = (s', ops, refresh) \<Longrightarrow> sv_monitorHub s' = sv_monitorHub s"
  by (auto simp: handleModels_def split: option.splits sum.splits if_splits)

lemma route_safe:
  assumes "hub_ok s"
  shows "safe (route env r s)"
proof -
  obtain s' ops refresh where m: "handleModels env r s = (s', ops, refresh)"
    by (cases "handleModels env r s") auto
  with assms handleModels_hub [OF m] have "hub_ok (snd (serve_models env r s))"
    by (cases refresh) (simp_all add: serve_models_def hub_ok_def)
  then have models: "safe (Some (serve_models env r s))"
    by (cases "serve_models env r s") simp
  have "hub_ok (snd (handleMonitor r s))"
    using assms hub_ok_subscribe [OF assms] by (simp add: handleMonitor_def Let_def)
  then have monitor: "safe (Some (handleMonitor r s))"
    by (cases "handleMonitor r s") simp
  show ?thesis
    using assms models monitor handleStreamingEndpoint_safe [OF assms]
    by (simp add: route_def Let_def handleChatCompletions_def handleResponses_def)
qed

text \<open>Everything that can happen to the server's state, in any order.\<close>

inductive server_step :: "proxy_server \<Rightarrow> proxy_server \<Rightarrow> bool" where
  serve: "route env r s = Some (out, s') \<Longrightarrow> server_step s s'"
| refresh: "server_step s (refreshModels env r s)"
| packet: "stream_packet now st data s = Some s' \<Longrightarrow> server_step s s'"
| stream_end: "end_stream env k st sent s = Some s' \<Longrightarrow> server_step s s'"
| metrics: "server_step s (s\<lparr>sv_totalMetrics := m\<rparr>)"
| watch: "watch_event ch s = Some (ops, s') \<Longrightarrow> ch < length (hub_channels (sv_monitorHub s)) \<Longrightarrow> server_step s s'"
| watch_end: "end_watch ch s = Some s' \<Longrightarrow> ch < length (hub_channels (sv_monitorHub s)) \<Longrightarrow> server_step s s'"

lemma stream_packet_safe:
  assumes "hub_ok s"
  shows "\<exists>s'. stream_packet now st data s = Some s' \<and> hub_ok s'"
  using assms hub_ok_broadcast by (auto simp: stream_packet_def Let_def)

lemma end_stream_safe: "hub_ok s \<Longrightarrow> \<exists>s'. end_stream env k st sent s = Some s' \<and> hub_ok s'"
  using hub_ok_broadcast_watched by (auto simp: end_stream_def Let_def)

lemma watch_safe:
  assumes "hub_ok s" "ch < length (hub_channels (sv_monitorHub s))"
  shows "hub_ok (s\<lparr>sv_monitorHub := receive ch (sv_monitorHub s)\<rparr>)"
    and "\<exists>s'. end_watch ch s = Some s' \<and> hub_ok s'"
proof -
  obtain ss where ss: "represents (sv_monitorHub s) ss"
    using assms(1) by (auto simp: hub_ok_def)
  with assms(2) have "hub_step (OpReceive ch) (sv_monitorHub s) = Some (receive ch (sv_monitorHub s))" "ch < length ss"
    by (auto simp: represents_def)
  with represents_step [OF ss, of "OpReceive ch"] show "hub_ok (s\<lparr>sv_monitorHub := receive ch (sv_monitorHub s)\<rparr>)"
    by (auto simp: hub_ok_def)
  from represents_unsub [OF ss \<open>ch < length ss\<close>] show "\<exists>s'. end_watch ch s = Some s' \<and> hub_ok s'"
    by (auto simp: end_watch_def hub_ok_def)
qed

lemma hub_ok_step: "server_step s s' \<Longrightarrow> hub_ok s \<Longrightarrow> hub_ok s'"
proof (induction rule: server_step.induct)
  case (serve env r s out s')
  with route_safe [of s env r] show ?case
    by (simp add: safe_def)
next
  case (refresh s env r)
  then show ?case
    by (auto simp: refreshModels_def Let_def split: sum.split)
next
  case (packet now st data s s')
  with stream_packet_safe [of s now st data] show ?case
    by auto
next
  case (stream_end env k st sent s s')
  with end_stream_safe [of s env k st sent] show ?case
    by auto
next
  case (metrics s m)
  then show ?case
    by (simp add: hub_ok_def)
next
  case (watch ch s ops s')
  with watch_safe(1) [of s ch] show ?case
    by (auto simp: watch_event_def split: list.splits)
next
  case (watch_end ch s s')
  with watch_safe(2) [of s ch] show ?case
    by auto
qed

lemma hub_ok_reachable: "server_step\<^sup>*\<^sup>* s s' \<Longrightarrow> hub_ok s \<Longrightarrow> hub_ok s'"
  by (induction rule: rtranclp_induct) (auto intro: hub_ok_step)



end
