(* ===== verification/Server_Client.thy ===== *)
theory Server_Client
  imports Server_State
begin

text \<open>
  What the client has when \<open>ServeHTTP\<close> has returned: it sees a status, a header and a body, and undoes the
  content coding that the header names.  Whether the server compresses or not, the client gets what the
  handler has written.
\<close>

section \<open>The client's view\<close>

definition client_body :: "(encoding \<Rightarrow> 's codec) \<Rightarrow> http_writer \<Rightarrow> bytes option" where
  "client_body cs w =
     (let coding = header_get (hw_sent w) ''Content-Encoding''
      in if coding = encoding_name EncodingZstd then cd_decode (cs EncodingZstd) (hw_body w)
         else if coding = encoding_name EncodingGzip then cd_decode (cs EncodingGzip) (hw_body w)
         else Some (hw_body w))"

text \<open>The fields that compression may change.\<close>

definition coding_field :: "bytes \<Rightarrow> bool" where
  "coding_field k \<longleftrightarrow> canonical_key k \<in> {''Content-Encoding'', ''Content-Length'', ''Vary''}"

text \<open>
  The client gets the response of \<open>w\<close>: same status, same fields, same body.  A response that is encoded
  already comes as it is.
\<close>

definition arrives :: "(encoding \<Rightarrow> 's codec) \<Rightarrow> http_writer \<Rightarrow> http_writer \<Rightarrow> bool" where
  "arrives cs w got \<longleftrightarrow> hw_status got = hw_status w \<and>
     (\<forall>k. \<not> coding_field k \<longrightarrow> header_values (hw_sent got) k = header_values (hw_sent w) k) \<and>
     (if header_get (hw_sent w) ''Content-Encoding'' = [] then client_body cs got = Some (hw_body w)
      else hw_body got = hw_body w)"

lemma canonical_fields [simp]:
  "canonical_key ''Content-Encoding'' = ''Content-Encoding''" "canonical_key ''Content-Length'' = ''Content-Length''"
  "canonical_key ''Vary'' = ''Vary''"
  by code_simp+

lemma arrives_same: "arrives cs w w"
  by (simp add: arrives_def client_body_def)

lemma compressed_header_values:
  "header_get (compressed_header enc h) ''Content-Encoding'' = encoding_name enc"
  "\<not> coding_field k \<Longrightarrow> header_values (compressed_header enc h) k = header_values h k"
  by (auto simp: compressed_header_def header_get_def coding_field_def)

lemma respond_arrives:
  assumes "\<And>enc. enc \<noteq> EncodingNone \<Longrightarrow> codec_ok (cs enc)" "list_all op_final os" "hw_status (plain_run os) \<noteq> None"
  shows "\<exists>w s'. respond cs q os s = Some (w, s') \<and> arrives cs (plain_run os) w"
proof (cases "sc_DisableCompression (sv_cfg s)")
  case True
  then show ?thesis
    by (simp add: respond_def arrives_same)
next
  case False
  let ?mr = "Some (sv_totalMetrics s)" and ?w = "plain_run os"
  let ?enc = "effective (requested (cr_Header q)) ?w"
  obtain rw where rw: "coded_run cs (cr_Header q) ?mr os = Some rw" "agrees cs ?enc ?mr (Close_writer cs rw) ?w"
    using coded_run_agrees [where cs = cs and os = os and req = "cr_Header q" and mr = ?mr] assms(1, 2) by auto
  have plain: "header_get (hw_sent ?w) ''Content-Encoding'' = []" if "?enc \<noteq> EncodingNone"
    using that assms(3) by (auto simp: effective_def split: option.splits if_splits)
  have "arrives cs ?w (rw_base (fst (Close_writer cs rw)))"
  proof (cases "?enc = EncodingNone")
    case True
    with rw(2) show ?thesis
      by (auto simp: agrees_def arrives_def client_body_def Let_def split: prod.splits)
  next
    case False
    with rw(2) assms(3) plain show ?thesis
      by (cases ?enc) (auto simp: agrees_def arrives_def client_body_def compressed_header_values Let_def split: prod.splits)
  qed
  with rw(1) False show ?thesis
    by (simp add: respond_def Let_def)
qed

section \<open>A response that is not streamed\<close>

lemma plain_answer:
  assumes "body_allowed c"
  shows "hw_status (plain_run [OpHeader f, OpWriteHeader c, OpWrite b]) = Some c"
    and "hw_sent (plain_run [OpHeader f, OpWriteHeader c, OpWrite b]) = f []"
    and "hw_body (plain_run [OpHeader f, OpWriteHeader c, OpWrite b]) = b"
  using assms
  by (auto simp: plain_run_def new_writer_def hw_WriteHeader_def hw_Write_def body_allowed_def Let_def)

lemma resolve_same:
  "sv_upstreams s' = sv_upstreams s \<Longrightarrow> sv_upstreamMap s' = sv_upstreamMap s \<Longrightarrow>
   resolveUpstream ip s' m = resolveUpstream ip s m"
  by (simp only: resolveUpstream_def)

lemma broadcast_watched_upstreams:
  "broadcast_watched ev s = Some s' \<Longrightarrow> sv_upstreams s' = sv_upstreams s \<and> sv_upstreamMap s' = sv_upstreamMap s"
  by (auto simp: broadcast_watched_def broadcast_def split: if_splits)

text \<open>The body sent on for a target model.\<close>

definition sent_on :: "bytes \<Rightarrow> bytes \<Rightarrow> bytes" where
  "sent_on body m =
     (if m \<noteq> [] \<and> m \<noteq> sk_Model (stored_check body) then the (rewriteModelInBody body m) else body)"

lemma answered:
  assumes "handleStreamingEndpoint env q proto s = Some (out, s')" "cr_readErr q = None"
    and "\<not> sk_Stream (stored_check (cr_Body q))"
    and "resolveUpstream (env_is_print env) s (sk_Model (stored_check (cr_Body q))) = Inr (t, m)"
    and "forward_request env q t (sent_on (cr_Body q) m) = Inr req" "env_do env req = Inr resp"
    and "read_body resp = Inr b"
  shows "out = Responded
    [OpHeader (\<lambda>h. header_del ''Content-Length'' (copyHeaders (rs_Header resp) h)), OpWriteHeader (rs_StatusCode resp),
     OpWrite (restore_model (sk_Model (stored_check (cr_Body q))) (rs_Header resp) b)]"
proof -
  let ?m = "sk_Model (stored_check (cr_Body q))"
  obtain s2 sid where s2: "broadcast_watched (packet sid ?m (env_clock env 0) DirectionUpstream ''request'' (cr_Body q)
      ''Client Request'') (s\<lparr>sv_sessionSeq := (sv_sessionSeq s + 1) mod 2 ^ 64\<rparr>) = Some s2"
    "sid = session_id (env_clock env 0) ((sv_sessionSeq s + 1) mod 2 ^ 64)"
    using assms(1, 2) by (fastforce simp: handleStreamingEndpoint_def Let_def split: option.splits)
  then have "resolveUpstream (env_is_print env) s2 ?m = Inr (t, m)"
    using assms(4) resolve_same [of s2 s] broadcast_watched_upstreams [OF s2(1)] by simp
  with assms(1-3) s2 have "\<exists>s3. transparentProxy env q (Some t) (Some (sent_on (cr_Body q) m)) sid ?m (cr_Body q) s2 = Some s3
      \<and> out = Responded (fst s3)"
    by (auto simp: handleStreamingEndpoint_def Let_def sent_on_def split: option.splits if_splits)
  with assms(5-7) show ?thesis
    by (auto simp: transparentProxy_def Let_def split: option.splits)
qed

lemma endpoint_routed:
  assumes "cr_Path q \<in> {''/v1/chat/completions'', ''/v1/responses''}" "cr_Method q = ''POST''"
  obtains proto where "route env q s = handleStreamingEndpoint env q proto s"
proof -
  have "TrimSuffix (cr_Path q) ''/'' = cr_Path q"
    using assms(1) by (auto simp: TrimSuffix_def has_suffix_def)
  then have "route env q s = handleStreamingEndpoint env q
      (if cr_Path q = ''/v1/chat/completions'' then ProtocolChatCompletions else ProtocolResponses) s"
    using assms by (auto simp: route_def handleChatCompletions_def handleResponses_def)
  then show thesis
    by (rule that)
qed

lemma copied_alone:
  assumes "header_ok h"
  shows "header_values (header_del ''Content-Length'' (copyHeaders h [])) k =
    (if canonical_key k = ''Content-Length'' \<or> isHopByHop (canonical_key k) then [] else header_values h k)"
proof -
  have "header_values [] k = []"
    by (simp add: header_values_def)
  with copied_values [OF assms, of "[]" k] show ?thesis
    by simp
qed

text \<open>
  C4: an answer arrives.  A request that is not streamed, sent to either endpoint of a server in any
  reachable state, is answered with the upstream's status; with every field of its header but those of one
  connection and of the coding; and with its body, in which the model is again the one the client has
  asked for.  The client gets this body whether the server compresses it or not; a body that the upstream
  itself has encoded is passed on as it is.
\<close>

theorem answer_arrives:
  assumes "\<And>enc. enc \<noteq> EncodingNone \<Longrightarrow> codec_ok (cs enc)" "server_step\<^sup>*\<^sup>* (NewProxyServer cfg) s"
    and "cr_Path q \<in> {''/v1/chat/completions'', ''/v1/responses''}" "cr_Method q = ''POST''" "cr_readErr q = None"
    and "\<not> sk_Stream (stored_check (cr_Body q))"
    and "resolveUpstream (env_is_print env) s (sk_Model (stored_check (cr_Body q))) = Inr (t, m)"
    and "forward_request env q t (sent_on (cr_Body q) m) = Inr req" "env_do env req = Inr resp"
    and "read_body resp = Inr b" "body_allowed (rs_StatusCode resp)" "header_ok (rs_Header resp)"
  shows "\<exists>out w s'. ServeHTTP cs env q s = Some (out, Some w, s') \<and> hw_status w = Some (rs_StatusCode resp) \<and>
    (\<forall>k. \<not> coding_field k \<longrightarrow>
       header_values (hw_sent w) k = (if isHopByHop (canonical_key k) then [] else header_values (rs_Header resp) k)) \<and>
    (let answer = restore_model (sk_Model (stored_check (cr_Body q))) (rs_Header resp) b
     in if header_get (rs_Header resp) ''Content-Encoding'' = [] then client_body cs w = Some answer
        else hw_body w = answer)"
proof -
  define answer where "answer = restore_model (sk_Model (stored_check (cr_Body q))) (rs_Header resp) b"
  define f where "f = (\<lambda>h. header_del ''Content-Length'' (copyHeaders (rs_Header resp) h))"
  let ?os = "[OpHeader f, OpWriteHeader (rs_StatusCode resp), OpWrite answer]"
  obtain proto where proto: "route env q s = handleStreamingEndpoint env q proto s"
    using assms(3, 4) by (rule endpoint_routed)
  have "hub_ok s"
    using hub_ok_reachable [OF assms(2) hub_ok_new] .
  then obtain out s1 where out: "route env q s = Some (out, s1)"
    using route_safe [of s env q] by (auto simp: safe_def split: option.splits)
  have ops: "out = Responded ?os"
    unfolding answer_def f_def by (rule answered [OF _ assms(5-10)]) (use out proto in simp)
  note plain = plain_answer [OF assms(11), of f answer]
  have "list_all op_final ?os"
    using assms(11) by (auto simp: body_allowed_def)
  then obtain w s2 where w: "respond cs q ?os s1 = Some (w, s2)" "arrives cs (plain_run ?os) w"
    using respond_arrives [where cs = cs and os = ?os and q = q and s = s1] assms(1) plain(1) by auto
  have "header_get (f []) ''Content-Encoding'' = header_get (rs_Header resp) ''Content-Encoding''"
    using copied_alone [OF assms(12), of "''Content-Encoding''"] by (simp add: f_def header_get_def isHopByHop_def)
  with w(2) plain have "hw_status w = Some (rs_StatusCode resp)"
    "\<not> coding_field k \<Longrightarrow> header_values (hw_sent w) k = header_values (f []) k"
    "if header_get (rs_Header resp) ''Content-Encoding'' = [] then client_body cs w = Some answer else hw_body w = answer"
    for k
    by (simp_all add: arrives_def)
  moreover have "ServeHTTP cs env q s = Some (out, Some w, s2)"
    using out ops w(1) by (simp add: ServeHTTP_def)
  moreover have "\<not> coding_field k \<Longrightarrow> header_values (f []) k =
      (if isHopByHop (canonical_key k) then [] else header_values (rs_Header resp) k)" for k
    using copied_alone [OF assms(12), of k] by (auto simp: f_def coding_field_def)
  ultimately show ?thesis
    unfolding answer_def [symmetric] Let_def by (intro exI [of _ out] exI [of _ w] exI [of _ s2]) simp
qed

definition sample_target :: upstream_target where
  "sample_target = \<lparr>ut_Name = ''a'', ut_URL = the (Parse ''http://h''), ut_APIKey = []\<rparr>"

definition sample_server_config :: server_config where
  "sample_server_config = \<lparr>sc_UpstreamURL = None, sc_Upstreams = [sample_target],
     sc_BufferConfig = DefaultBufferConfig, sc_AllowMetricsAPI = False, sc_DisableCompression = False\<rparr>"

definition sample_server :: proxy_server where
  "sample_server = NewProxyServer sample_server_config"

lemma sample_server: "sv_upstreams sample_server = [sample_target]" "sv_upstreamMap sample_server = [(''a'', sample_target)]"
  "sc_AllowMetricsAPI (sv_cfg sample_server) = False" "sc_BufferConfig (sv_cfg sample_server) = DefaultBufferConfig"
  "sv_totalMetrics sample_server = zero_metrics" "sv_sessionSeq sample_server = 0" "sv_monitorHub sample_server = NewMonitorHub"
  by (simp_all add: sample_server_def sample_server_config_def NewProxyServer_def add_target_def sample_target_def Let_def)

definition plain_request :: client_request where
  "plain_request = \<lparr>cr_Method = ''POST'', cr_Path = ''/v1/chat/completions'', cr_RawQuery = [],
     cr_Header = [(''Accept-Encoding'', [''gzip''])], cr_Body = ''{\"model\":\"a/x\"}'', cr_readErr = None\<rparr>"

definition sample_answer :: bytes where
  "sample_answer = ''{\"model\":\"x\",\"choices\":[]}''"

lemma plain_request:
  "stored_check (cr_Body plain_request) = \<lparr>sk_Stream = False, sk_Model = ''a/x''\<rparr>"
  "isl (forward_request (sample_env ''application/json'' sample_answer) plain_request sample_target
     (sent_on (cr_Body plain_request) ''x'')) = False"
  by code_simp+

lemma answer_arrives_witness:
  "\<exists>out w s'. ServeHTTP (\<lambda>_. holding_codec) (sample_env ''application/json'' sample_answer) plain_request sample_server
      = Some (out, Some w, s') \<and> hw_status w = Some 200 \<and>
    (\<forall>k. \<not> coding_field k \<longrightarrow> header_values (hw_sent w) k =
       (if isHopByHop (canonical_key k) then [] else header_values [(''Content-Type'', [''application/json''])] k)) \<and>
    (let answer = restore_model ''a/x'' [(''Content-Type'', [''application/json''])] sample_answer
     in if header_get [(''Content-Type'', [''application/json''])] ''Content-Encoding'' = []
        then client_body (\<lambda>_. holding_codec) w = Some answer else hw_body w = answer)"
proof -
  let ?env = "sample_env ''application/json'' sample_answer"
  let ?resp = "\<lparr>rs_StatusCode = 200, rs_Header = [(''Content-Type'', [''application/json''])], rs_Body = sample_answer,
    rs_readErr = None\<rparr>"
  obtain req where req: "forward_request ?env plain_request sample_target (sent_on (cr_Body plain_request) ''x'') = Inr req"
    using plain_request(2) by (cases "forward_request ?env plain_request sample_target (sent_on (cr_Body plain_request) ''x'')") auto
  have "Cut ''a/x'' ''/'' = (''a'', ''x'', True)"
    by code_simp
  then have res: "resolveUpstream (env_is_print ?env) sample_server (sk_Model (stored_check (cr_Body plain_request)))
      = Inr (sample_target, ''x'')"
    by (simp add: resolveUpstream_def plain_request(1) sample_server)
  have ok: "header_ok (rs_Header ?resp)"
    by code_simp
  have "server_step\<^sup>*\<^sup>* (NewProxyServer sample_server_config) sample_server"
    by (simp add: sample_server_def)
  note arrives = answer_arrives [OF _ this _ _ _ _ res req, where resp = ?resp and b = sample_answer and cs = "\<lambda>_. holding_codec",
      unfolded plain_request(1) stream_check.select_convs upstream_response.select_convs]
  have "env_do ?env req = Inr ?resp"
    by (simp add: sample_env_def)
  then show ?thesis
    by (intro arrives) (use ok in \<open>simp_all add: holding_codec_ok read_body_def body_allowed_def plain_request_def\<close>)
qed

end
