(* ===== verification/Pipeline_Refinement.thy ===== *)
theory Pipeline_Refinement
  imports Pipeline
begin

text \<open>
  The pipeline refines the goroutines of theory \<open>Exchange\<close>: forget the counters, the clock, the parser
  and the bytes, and let the source of the exchange be what the parser will make of the events still to
  be read; then every step of the pipeline is one step of the exchange, or none (the report).  So all
  that is proved of the exchange holds of the pipeline.
\<close>

section \<open>Simulations\<close>

locale simulation =
  fixes cstep :: "'c \<Rightarrow> 'c \<Rightarrow> bool" and astep :: "'a \<Rightarrow> 'a \<Rightarrow> bool" and abs :: "'c \<Rightarrow> 'a" and inv :: "'a \<Rightarrow> bool"
  assumes sim: "inv (abs c) \<Longrightarrow> cstep c c' \<Longrightarrow> astep (abs c) (abs c') \<or> abs c' = abs c"
    and inv_step: "inv a \<Longrightarrow> astep a a' \<Longrightarrow> inv a'"
begin

lemma simulates:
  "cstep\<^sup>*\<^sup>* c c' \<Longrightarrow> inv (abs c) \<Longrightarrow> astep\<^sup>*\<^sup>* (abs c) (abs c') \<and> inv (abs c')"
proof (induction rule: rtranclp_induct)
  case (step d d')
  then have "astep\<^sup>*\<^sup>* (abs c) (abs d)" "inv (abs d)" by simp_all
  with sim [OF this(2) step.hyps(2)] inv_step show ?case by (auto intro: rtranclp.rtrancl_into_rtrancl)
qed simp

end

section \<open>Forgetting\<close>

definition bare :: "pending_buffer \<Rightarrow> pending_buffer" where
  "bare b = b\<lparr>pb_metrics := None\<rparr>"

definition lift_ex :: "segment list list \<Rightarrow> exchange \<Rightarrow> exchange" where
  "lift_ex src x = x\<lparr>ex_buf := bare (ex_buf x), ex_source := src\<rparr>"

definition to_come :: "stream_run \<Rightarrow> segment list list" where
  "to_come r = fst (parse_events (rn_events r) (sp_parser (rn_pipe r), rn_heap r))"

definition run_abs :: "stream_run \<Rightarrow> exchange" where
  "run_abs r = lift_ex (to_come r) (rn_ex r)"

lemma bare_simps [simp]:
  "pb_channels (bare b) = pb_channels b" "pb_barrierWake (bare b) = pb_barrierWake b"
  "pb_hasBarrier (bare b) = pb_hasBarrier b" "pb_firstEmission (bare b) = pb_firstEmission b"
  "pb_segments (bare b) = pb_segments b" "pb_currentBytes (bare b) = pb_currentBytes b"
  "pb_highWatermark (bare b) = pb_highWatermark b" "pb_lowWatermark (bare b) = pb_lowWatermark b"
  "pb_minCoalesceWait (bare b) = pb_minCoalesceWait b" "pb_closed (bare b) = pb_closed b"
  "pb_upstreamErr (bare b) = pb_upstreamErr b" "pb_metrics (bare b) = None"
  by (simp_all add: bare_def)

lemma bare_with_metrics [simp]: "bare (with_metrics f b) = bare b" "with_metrics f (bare b) = bare b"
  by (simp_all add: bare_def with_metrics_def)

lemma bare_updates [simp]:
  "bare (b\<lparr>pb_segments := xs\<rparr>) = (bare b)\<lparr>pb_segments := xs\<rparr>"
  "bare (b\<lparr>pb_currentBytes := n\<rparr>) = (bare b)\<lparr>pb_currentBytes := n\<rparr>"
  "bare (b\<lparr>pb_firstEmission := q\<rparr>) = (bare b)\<lparr>pb_firstEmission := q\<rparr>"
  "bare (b\<lparr>pb_closed := q\<rparr>) = (bare b)\<lparr>pb_closed := q\<rparr>"
  "bare (b\<lparr>pb_upstreamErr := e\<rparr>) = (bare b)\<lparr>pb_upstreamErr := e\<rparr>"
  by (simp_all add: bare_def)

lemma bare_barriers [simp]:
  "bare (notifyBarrierLocked b) = notifyBarrierLocked (bare b)" "bare (resetBarrierLocked b) = resetBarrierLocked (bare b)"
  by (simp_all add: bare_def notifyBarrierLocked_def resetBarrierLocked_def)

fun bare_append :: "append_result \<Rightarrow> append_result" where
  "bare_append (AppendReturn b e signal) = AppendReturn (bare b) e signal"
| "bare_append res = res"

fun bare_swap :: "swap_result \<Rightarrow> swap_result" where
  "bare_swap (SwapReturn b snapshot closed e broadcast) = SwapReturn (bare b) snapshot closed e broadcast"
| "bare_swap res = res"

lemma with_metrics_None: "pb_metrics b = None \<Longrightarrow> with_metrics f b = b"
  by (simp add: with_metrics_def)

lemma bare_Append_body: "Append_body (bare b) seg = bare_append (Append_body b seg)"
proof (cases "0 < length (pb_segments b) \<and> CanMerge (last (pb_segments b)) seg")
  case True
  then show ?thesis
    by (cases "Merge (last (pb_segments b)) seg") (auto simp: Append_body_def Let_def with_metrics_None)
next
  case False
  then show ?thesis
    by (auto simp: Append_body_def Let_def with_metrics_None buffer_simps)
qed

lemma bare_body_metrics: "bare_append (Append_body (with_metrics f b) seg) = bare_append (Append_body b seg)"
  by (simp flip: bare_Append_body)

lemma bare_Append_resume: "Append_resume d (bare b) ctx seg = bare_append (Append_resume d b ctx seg)"
  by (simp add: Append_resume_def Append_must_wait_def Let_def bare_Append_body bare_body_metrics buffer_simps)

lemma bare_Append_start: "Append_start d (bare b) ctx seg = bare_append (Append_start d b ctx seg)"
  by (simp add: Append_start_def bare_Append_body bare_Append_resume)

lemma bare_Swap_take: "Swap_take (bare b) ctx = bare_swap (Swap_take b ctx)"
  by (simp add: Swap_take_def Let_def buffer_simps)

lemma bare_Swap_start: "Swap_start (bare b) ctx = bare_swap (Swap_start b ctx)"
  by (simp add: Swap_start_def Swap_must_wait_def Swap_should_wait_def bare_Swap_take)

lemma bare_Close: "Close (bare b) e = (bare (fst (Close b e)), snd (Close b e))"
  by (simp add: Close_def)

lemma lift_simps [simp]:
  "ex_buf (lift_ex src x) = bare (ex_buf x)" "ex_ctx (lift_ex src x) = ex_ctx x"
  "ex_readerCtx (lift_ex src x) = ex_readerCtx x" "ex_source (lift_ex src x) = src" "ex_end (lift_ex src x) = ex_end x"
  "ex_reader (lift_ex src x) = ex_reader x" "ex_writer (lift_ex src x) = ex_writer x" "ex_out (lift_ex src x) = ex_out x"
  by (simp_all add: lift_ex_def)

lemma lift_updates [simp]:
  "lift_ex src (x\<lparr>ex_reader := pc\<rparr>) = (lift_ex src x)\<lparr>ex_reader := pc\<rparr>"
  "lift_ex src (x\<lparr>ex_writer := w\<rparr>) = (lift_ex src x)\<lparr>ex_writer := w\<rparr>"
  "lift_ex src (x\<lparr>ex_out := out\<rparr>) = (lift_ex src x)\<lparr>ex_out := out\<rparr>"
  "lift_ex src (x\<lparr>ex_ctx := e\<rparr>) = (lift_ex src x)\<lparr>ex_ctx := e\<rparr>"
  "lift_ex src (x\<lparr>ex_readerCtx := e\<rparr>) = (lift_ex src x)\<lparr>ex_readerCtx := e\<rparr>"
  "lift_ex src (x\<lparr>ex_buf := b\<rparr>) = (lift_ex src x)\<lparr>ex_buf := bare b\<rparr>"
  by (simp_all add: lift_ex_def)

lemma lift_cancelReader [simp]: "lift_ex src (cancelReader x) = cancelReader (lift_ex src x)"
  by (simp add: cancelReader_def)

lemma lift_do_Close [simp]: "lift_ex src (do_Close e x) = do_Close e (lift_ex src x)"
  by (simp add: do_Close_def bare_Close split: prod.split)

lemma lift_after_Append [simp]:
  "lift_ex src (after_Append seg segs res x) = after_Append seg segs (bare_append res) (lift_ex src x)"
  by (cases "(seg, segs, res, x)" rule: after_Append.cases) simp_all

lemma lift_after_Swap [simp]: "lift_ex src (after_Swap res x) = after_Swap (bare_swap res) (lift_ex src x)"
  by (cases res) (simp_all add: Let_def)

section \<open>Counters do not show\<close>

lemma run_abs_on_ex [simp]:
  "run_abs (on_ex f r) = lift_ex (to_come r) (f (rn_ex r))" "rn_ex (on_ex f r) = f (rn_ex r)"
  by (simp_all add: run_abs_def on_ex_def to_come_def)

lemma run_abs_updates [simp]:
  "run_abs (r\<lparr>rn_firstToken := t\<rparr>) = run_abs r" "run_abs (r\<lparr>rn_lastToken := t\<rparr>) = run_abs r"
  "run_abs (r\<lparr>rn_upstreamEnd := t\<rparr>) = run_abs r" "run_abs (r\<lparr>rn_lastClient := t\<rparr>) = run_abs r"
  "run_abs (r\<lparr>rn_totalTokens := n\<rparr>) = run_abs r" "run_abs (r\<lparr>rn_usageTokens := n\<rparr>) = run_abs r"
  "run_abs (r\<lparr>rn_sent := outs\<rparr>) = run_abs r" "run_abs (r\<lparr>rn_packets := outs\<rparr>) = run_abs r"
  "run_abs (r\<lparr>rn_flushed := q\<rparr>) = run_abs r" "run_abs (r\<lparr>rn_visible := v\<rparr>) = run_abs r"
  "run_abs (r\<lparr>rn_panic := q\<rparr>) = run_abs r" "run_abs (r\<lparr>rn_report := rep\<rparr>) = run_abs r"
  "run_abs (r\<lparr>rn_pipe := (rn_pipe r)\<lparr>sp_initialModel := model\<rparr>\<rparr>) = run_abs r"
  by (simp_all add: run_abs_def to_come_def)

lemma run_abs_meter [simp]: "run_abs (meter f r) = run_abs r"
  by (simp add: meter_def) (simp add: run_abs_def lift_ex_def)

lemma run_abs_count_token [simp]: "run_abs (count_token f now r) = run_abs r"
  by (simp add: count_token_def recordToken_def Let_def)

lemma run_abs_store_usage [simp]: "run_abs (store_usage u r) = run_abs r"
  by (simp add: store_usage_def Let_def)

lemma run_abs_fold: "(\<And>k r. run_abs (f k r) = run_abs r) \<Longrightarrow> run_abs (fold f ks r) = run_abs r"
  by (induction ks arbitrary: r) simp_all

lemma run_abs_count_segment [simp]: "run_abs (count_segment nows seg r) = run_abs r"
  by (cases seg) (simp_all add: run_abs_fold Let_def)

lemma run_abs_reader_defer [simp]: "run_abs (reader_defer now r) = run_abs r"
  by (simp add: reader_defer_def split: reader_pc.split)

lemma run_abs_count_out [simp]: "run_abs (count_out now seg r) = run_abs r"
  by (cases seg) simp_all

lemma run_abs_written [simp]: "run_abs (count_written d out r) = run_abs r" "run_abs (call_packetCb out r) = run_abs r"
  by (simp_all add: count_written_def call_packetCb_def)

lemma run_abs_sel:
  "ex_reader (rn_ex r) = ex_reader (run_abs r)" "ex_writer (rn_ex r) = ex_writer (run_abs r)"
  "ex_ctx (rn_ex r) = ex_ctx (run_abs r)" "ex_readerCtx (rn_ex r) = ex_readerCtx (run_abs r)"
  "ex_end (rn_ex r) = ex_end (run_abs r)" "pb_closed (ex_buf (rn_ex r)) = pb_closed (ex_buf (run_abs r))"
  "lift_ex (to_come r) (rn_ex r) = run_abs r" "bare (ex_buf (rn_ex r)) = ex_buf (run_abs r)"
  by (simp_all add: run_abs_def)

lemma readerCtx_cancelled: "ex_readerCtx (cancelReader (rn_ex r)) = ex_readerCtx (cancelReader (run_abs r))"
  by (simp add: cancelReader_def run_abs_def)

section \<open>Every step of the pipeline\<close>

lemma EncodeEvent_nonempty: "EncodeEvent ev \<noteq> []" "EncodeData d \<noteq> []" "EncodeDone \<noteq> []"
  by (simp_all add: EncodeEvent_def EncodeData_def EncodeDone_def)

lemma SerializeSegment_nonempty: "SerializeSegment s h now seg = Some out \<Longrightarrow> out \<noteq> []"
  by (cases seg) (auto simp: EncodeEvent_nonempty serializeReasoning_def serializeContent_def serializeToolCall_def
      serializeRole_def serializeFinish_def serializeUsage_def serializeRaw_def serializeResponseTextDelta_def
      serializeResponseReasoningDelta_def serializeResponseToolCallDelta_def serializeResponseControl_def
      encode_root_def encode_delta_def Let_def split: if_splits)

lemma those_returns: "None \<notin> set xs \<Longrightarrow> \<exists>ys. those xs = Some ys"
proof (induction xs)
  case (Cons a xs)
  then obtain y where "a = Some y" by (cases a) auto
  with Cons show ?case by auto
qed simp

lemma SerializeSegment_returns: "segment_ok seg \<Longrightarrow> \<exists>out. SerializeSegment s h now seg = Some out"
proof (cases seg)
  case (ToolCall t)
  assume "segment_ok seg"
  with ToolCall have "map_of (ts_Calls t) i \<noteq> None" if "i \<in> set (ts_Order t)" for i
    using map_of_tool_ok that by simp
  then have "None \<notin> set (map (map_of (ts_Calls t)) (ts_Order t))" by force
  from those_returns [OF this] ToolCall show ?thesis by (auto simp: serializeToolCall_def)
qed simp_all

lemma abs_take_event:
  assumes "rn_events r = ev # rest"
  shows "\<exists>segs src. ex_source (run_abs r) = segs # src
    \<and> run_abs (take_event ev rest r) = (run_abs r)\<lparr>ex_source := src, ex_reader := ReaderSend segs\<rparr>"
proof -
  let ?q = "meter (AddUpstreamBytes (int (length (ev_Data ev)))) (meter IncUpstreamEvents r)"
  obtain segs p h where ev: "ParseEvent ev (sp_parser (rn_pipe r), rn_heap r) = (segs, p, h)" by (metis prod_cases3)
  have q: "rn_pipe ?q = rn_pipe r" "rn_heap ?q = rn_heap r" "run_abs ?q = run_abs r"
    by (simp_all only: run_abs_meter) (simp_all add: meter_def on_ex_def)
  have "ex_source (run_abs r) = segs # fst (parse_events rest (p, h))"
    by (simp add: run_abs_def to_come_def assms ev split: prod.split)
  moreover have "run_abs (take_event ev rest r) =
      (run_abs ?q)\<lparr>ex_source := fst (parse_events rest (p, h)), ex_reader := ReaderSend segs\<rparr>"
    by (simp add: take_event_def Let_def q ev) (simp add: run_abs_def lift_ex_def to_come_def on_ex_def meter_def)
  ultimately show ?thesis unfolding q by blast
qed

lemma abs_write_segment:
  assumes "ex_writer (run_abs r) = WriterWrite (seg # segs) closed" "segment_ok seg"
  shows "step (run_abs r) (run_abs (write_segment unix d now fails seg segs closed r))"
proof -
  obtain out where out: "SerializeSegment (sp_serializer (rn_pipe r)) (rn_heap r) unix seg = Some out"
    using SerializeSegment_returns [OF assms(2)] by blast
  then have "out \<noteq> []" by (rule SerializeSegment_nonempty)
  let ?q = "call_packetCb out r"
  have q: "run_abs ?q = run_abs r" by simp
  show ?thesis
  proof (cases fails)
    case None
    have "run_abs (write_segment unix d now fails seg segs closed r)
        = (run_abs ?q)\<lparr>ex_out := ex_out (run_abs ?q) @ [seg], ex_writer := WriterWrite segs closed\<rparr>"
      using out \<open>out \<noteq> []\<close> None
      by (simp add: write_segment_def Let_def) (simp add: run_abs_def to_come_def call_packetCb_def)
    with writer_write [OF assms(1)] show ?thesis by (simp add: q)
  next
    case (Some e)
    have "run_abs (write_segment unix d now fails seg segs closed r)
        = (cancelReader (run_abs ?q))\<lparr>ex_writer := WriterReturn (seg # segs) (Some (ErrWrite e))\<rparr>"
      using out \<open>out \<noteq> []\<close> Some
      by (simp add: write_segment_def Let_def) (simp add: run_abs_def to_come_def call_packetCb_def)
    with writer_fails [OF assms(1)] show ?thesis by (simp add: q)
  qed
qed

lemma abs_end_snapshot:
  assumes "ex_writer (run_abs r) = WriterWrite [] closed"
  shows "step (run_abs r) (run_abs (end_snapshot closed r))"
proof -
  have "run_abs (end_snapshot closed r) = (run_abs r)\<lparr>ex_writer :=
      (if closed \<and> Len (ex_buf (run_abs r)) = 0 then WriterReturn [] None else WriterTop)\<rparr>"
    by (simp add: end_snapshot_def Let_def) (simp add: run_abs_def to_come_def Len_def)
  with writer_check [OF assms] show ?thesis by simp
qed

lemma abs_reader_close:
  "run_abs (reader_close e now r) = (do_Close e (run_abs r))\<lparr>ex_reader := ReaderDone []\<rparr>"
  by (simp add: reader_close_def) (simp add: run_abs_def)

lemma abs_step:
  assumes "list_all segment_ok (ex_unwritten (run_abs r))" "run_step r r'"
  shows "step (run_abs r) (run_abs r') \<or> run_abs r' = run_abs r"
  using assms(2)
proof cases
  case (run_cancelled e now)
  then show ?thesis using reader_cancelled [of "run_abs r" e] by (simp add: abs_reader_close run_abs_sel)
next
  case (run_event ev rest)
  with abs_take_event [of r ev rest] reader_event [of "run_abs r"] show ?thesis by (auto simp: run_abs_sel)
next
  case (run_end now)
  then have "ex_source (run_abs r) = []" by (simp add: run_abs_def to_come_def)
  with run_end reader_end [of "run_abs r"] show ?thesis by (simp add: abs_reader_close run_abs_sel)
next
  case run_sent
  with reader_sent [of "run_abs r"] show ?thesis by (simp add: run_abs_sel)
next
  case (run_append seg segs q nows now d)
  have "run_abs q = run_abs r" by (simp add: run_append)
  with run_append(1,2) reader_append [of "run_abs r" seg segs d] show ?thesis
    by (simp add: bare_Append_start [symmetric] run_abs_sel)
next
  case (run_resume seg segs now d)
  with reader_resume [of "run_abs r" seg segs d] show ?thesis
    by (simp add: bare_Append_resume [symmetric] run_abs_sel)
next
  case run_swap
  with writer_swap [of "run_abs r"] show ?thesis by (simp add: bare_Swap_start [symmetric] run_abs_sel)
next
  case (run_timed ch)
  with writer_timed [of "run_abs r" ch] show ?thesis by (simp add: bare_Swap_take [symmetric] run_abs_sel)
next
  case (run_write seg segs closed unix d now fails)
  then have "ex_writer (run_abs r) = WriterWrite (seg # segs) closed" by (simp add: run_abs_sel)
  moreover from this assms(1) have "segment_ok seg" by (simp add: ex_unwritten_def)
  ultimately show ?thesis using abs_write_segment run_write(1) by simp
next
  case (run_check closed)
  then show ?thesis using abs_end_snapshot [of r closed] by (simp add: run_abs_sel)
next
  case (run_defers segs e)
  with writer_defers [of "run_abs r" segs e] show ?thesis by (simp add: run_abs_sel readerCtx_cancelled)
next
  case (run_report segs e clientEnd)
  then show ?thesis by (simp add: make_report_def Let_def)
next
  case (run_cancel e)
  with cancel [of "run_abs r" e] show ?thesis by (simp add: run_abs_sel)
next
  case (run_propagate e)
  with propagate [of "run_abs r" e] show ?thesis by (simp add: run_abs_sel)
next
  case (run_monitor e)
  with monitor [of "run_abs r" e] show ?thesis by (simp add: run_abs_sel)
qed

section \<open>Every run of the pipeline\<close>

lemma unwritten_ok:
  assumes "step\<^sup>*\<^sup>* (ex_init cfg m source e) s" "list_all segment_ok (concat source)"
  shows "list_all segment_ok (ex_unwritten s)"
proof -
  obtain sent where "concat source = sent @ ex_unsent s"
    "gathered CanMerge merged (ex_out s @ ex_unwritten s @ pb_segments (ex_buf s)) sent"
    using flow_ok_reachable [OF assms] by (auto simp: flow_ok_def)
  with seg.gathered_observed [OF this(2)] assms(2) show ?thesis by simp
qed

interpretation run: simulation run_step step run_abs
    "\<lambda>a. step\<^sup>*\<^sup>* (ex_init cfg m source e) a \<and> list_all segment_ok (concat source)" for cfg m source e
proof
  fix r r'
  assume "step\<^sup>*\<^sup>* (ex_init cfg m source e) (run_abs r) \<and> list_all segment_ok (concat source)" "run_step r r'"
  then show "step (run_abs r) (run_abs r') \<or> run_abs r' = run_abs r"
    using abs_step unwritten_ok by blast
qed (auto intro: rtranclp.rtrancl_into_rtrancl)

lemma abs_start:
  "run_abs (start_stream p h evs e flusher now)
   = ex_init (sp_cfg p) None (fst (parse_events evs (sp_parser p, h))) e"
  by (simp add: run_abs_def start_stream_def ex_init_def lift_ex_def to_come_def)
    (simp add: NewPendingBuffer_def Let_def bare_def)

text \<open>The segments of a stream, and a run that starts with it.\<close>

definition parsed :: "stream_pipeline \<Rightarrow> heap \<Rightarrow> event list \<Rightarrow> segment list list" where
  "parsed p h evs = fst (parse_events evs (sp_parser p, h))"

definition reaches :: "stream_pipeline \<Rightarrow> heap \<Rightarrow> event list \<Rightarrow> io_error \<Rightarrow> stream_run \<Rightarrow> bool" where
  "reaches p h evs e r \<longleftrightarrow> (\<exists>flusher now. run_step\<^sup>*\<^sup>* (start_stream p h evs e flusher now) r)
     \<and> list_all segment_ok (concat (parsed p h evs))"

lemma reaches_abs:
  assumes "reaches p h evs e r"
  shows "step\<^sup>*\<^sup>* (ex_init (sp_cfg p) None (parsed p h evs) e) (run_abs r)"
proof -
  let ?init = "ex_init (sp_cfg p) None (parsed p h evs) e"
  obtain flusher now where "run_step\<^sup>*\<^sup>* (start_stream p h evs e flusher now) r"
    and ok: "list_all segment_ok (concat (parsed p h evs))"
    using assms by (auto simp: reaches_def)
  moreover have "run_abs (start_stream p h evs e flusher now) = ?init" by (simp add: abs_start parsed_def)
  ultimately show ?thesis
    using run.simulates [of "start_stream p h evs e flusher now" r "sp_cfg p" None "parsed p h evs" e] by simp
qed

lemma reaches_sched:
  assumes "reaches p h evs e r"
  shows "sched_ok (run_abs r)" "list_all segment_ok (ex_unwritten (run_abs r))"
    "ex_reader (rn_ex r) \<noteq> ReaderPanic"
proof -
  have ok: "list_all segment_ok (concat (parsed p h evs))" using assms by (simp add: reaches_def)
  from reaches_abs [OF assms] show s: "sched_ok (run_abs r)" using ok by (rule sched_ok_reachable)
  from reaches_abs [OF assms] show "list_all segment_ok (ex_unwritten (run_abs r))" using ok by (rule unwritten_ok)
  from s show "ex_reader (rn_ex r) \<noteq> ReaderPanic" by (auto simp: sched_ok_def run_abs_sel)
qed

lemma reaches_induct [consumes 1, case_names start step]:
  assumes "reaches p h evs e r"
    and "\<And>flusher now. P (start_stream p h evs e flusher now)"
    and "\<And>r r'. reaches p h evs e r \<Longrightarrow> reaches p h evs e r' \<Longrightarrow> run_step r r' \<Longrightarrow> P r \<Longrightarrow> P r'"
  shows "P r"
proof -
  obtain flusher now where r: "run_step\<^sup>*\<^sup>* (start_stream p h evs e flusher now) r"
    and ok: "list_all segment_ok (concat (parsed p h evs))"
    using assms(1) by (auto simp: reaches_def)
  have all: "reaches p h evs e q" if "run_step\<^sup>*\<^sup>* (start_stream p h evs e flusher now) q" for q
    using that ok by (auto simp: reaches_def)
  from r show ?thesis
  proof (induction rule: rtranclp_induct)
    case base
    show ?case by (rule assms(2))
  next
    case (step q q')
    show ?case
      by (rule assms(3) [OF all [OF step.hyps(1)] all [OF rtranclp.rtrancl_into_rtrancl [OF step.hyps]]
            step.hyps(2) step.IH])
  qed
qed

end
