(* ===== verification/Pipeline_Accounts.thy ===== *)
theory Pipeline_Accounts
  imports Pipeline_Refinement
begin

text \<open>
  What the counters of a stream say: an invariant of all runs that ties the metrics, the token counts,
  the model and the parser's state to the events read, the segments parsed and the segments written.
\<close>

section \<open>Amounts\<close>

fun reasoning_in :: "segment \<Rightarrow> int" where
  "reasoning_in (Reasoning v) = 1"
| "reasoning_in (ResponseReasoning v) = 1"
| "reasoning_in _ = 0"

fun content_in :: "segment \<Rightarrow> int" where
  "content_in (Content v) = 1"
| "content_in (ResponseText v) = 1"
| "content_in _ = 0"

fun tools_in :: "segment \<Rightarrow> int" where
  "tools_in (ToolCall v) = int (length (ts_Calls v))"
| "tools_in (ResponseTool v) = 1"
| "tools_in _ = 0"

fun tools_out :: "segment \<Rightarrow> int" where
  "tools_out (ToolCall v) = 1"
| "tools_out (ResponseTool v) = 1"
| "tools_out _ = 0"

definition tokens_in :: "segment \<Rightarrow> int" where
  "tokens_in seg = reasoning_in seg + content_in seg + tools_in seg"

definition total_of :: "('a \<Rightarrow> int) \<Rightarrow> 'a list \<Rightarrow> int" where
  "total_of f xs = sum_list (map f xs)"

lemma total_of_simps [simp]:
  "total_of f [] = 0" "total_of f (x # xs) = f x + total_of f xs" "total_of f (xs @ ys) = total_of f xs + total_of f ys"
  by (simp_all add: total_of_def)

text \<open>The completion tokens the upstream reported last, if it reported any.\<close>

fun usage_reported :: "segment \<Rightarrow> goval" where
  "usage_reported (Usage v) = us_Usage v"
| "usage_reported (ResponseControl v) = ct_Usage v"
| "usage_reported _ = GNil"

definition usage_tokens :: "segment list \<Rightarrow> int" where
  "usage_tokens segs =
     fold (\<lambda>seg t. if 0 < extractCompletionTokens (usage_reported seg)
                   then extractCompletionTokens (usage_reported seg) else t) segs 0"

fun model_reported :: "segment \<Rightarrow> bytes" where
  "model_reported (ResponseControl v) = ct_Model v"
| "model_reported _ = []"

text \<open>The model: that of the request, or the first one that a control event reports.\<close>

definition stream_model :: "bytes \<Rightarrow> segment list \<Rightarrow> bytes" where
  "stream_model model segs = fold (\<lambda>seg m. if m = [] then model_reported seg else m) segs model"

section \<open>Counters of the flow\<close>

definition tally :: "stream_metrics \<Rightarrow> int list" where
  "tally m = [UpstreamSSEEvents m, UpstreamBytes m, ReasoningFragmentsIn m, ContentFragmentsIn m,
     ToolArgumentFragmentsIn m, DownstreamSSEEvents m, DownstreamBytes m, ReasoningEventsOut m,
     ContentEventsOut m, ToolEventsOut m]"

definition amounts :: "event list \<Rightarrow> segment list \<Rightarrow> bytes list \<Rightarrow> segment list \<Rightarrow> int list" where
  "amounts evs counted sent written =
     [int (length evs), total_of (\<lambda>ev. int (length (ev_Data ev))) evs, total_of reasoning_in counted,
      total_of content_in counted, total_of tools_in counted, int (length sent),
      total_of (\<lambda>out. int (length out)) sent, total_of reasoning_in written, total_of content_in written,
      total_of tools_out written]"

text \<open>Adding amounts to 64-bit counters.\<close>

definition add_counts :: "int list \<Rightarrow> int list \<Rightarrow> int list" where
  "add_counts cs ds = map2 (\<lambda>c d. wrap64 (c + d)) cs ds"

lemma add_counts_simps [simp]:
  "add_counts [] [] = []" "add_counts (c # cs) (d # ds) = wrap64 (c + d) # add_counts cs ds"
  by (simp_all add: add_counts_def)

definition flow :: "exchange \<Rightarrow> int list option" where
  "flow x = map_option tally (pb_metrics (ex_buf x))"

lemma flow_updates [simp]:
  "flow (x\<lparr>ex_reader := pc\<rparr>) = flow x" "flow (x\<lparr>ex_writer := w\<rparr>) = flow x" "flow (x\<lparr>ex_out := out\<rparr>) = flow x"
  "flow (x\<lparr>ex_ctx := e\<rparr>) = flow x" "flow (x\<lparr>ex_readerCtx := e\<rparr>) = flow x"
  "flow (cancelReader x) = flow x"
  by (simp_all add: flow_def)

lemma tally_kept [simp]: "tally (SetPendingBytes n m) = tally m" "tally (AddReaderPause d m) = tally m"
  "tally (AddDownstreamWrite d m) = tally m"
  by (simp_all add: tally_def SetPendingBytes_def AddReaderPause_def AddDownstreamWrite_def Let_def)

lemma flow_do_Close [simp]: "flow (do_Close e x) = flow x"
  by (simp add: flow_def Close_def notify_simps)

definition same_tally :: "pending_buffer \<Rightarrow> pending_buffer \<Rightarrow> bool" where
  "same_tally b b' \<longleftrightarrow> map_option tally (pb_metrics b') = map_option tally (pb_metrics b)"

lemma same_tally_with [simp]:
  "(\<And>m. tally (f m) = tally m) \<Longrightarrow> same_tally b (with_metrics f b')  = same_tally b b'"
  by (simp add: same_tally_def with_metrics_simps option.map_comp comp_def)

lemma tally_Append:
  "Append_body b seg = AppendReturn b' e signal \<Longrightarrow> same_tally b b'"
  "Append_resume d b ctx seg = AppendReturn b' e signal \<Longrightarrow> same_tally b b'"
  "Append_start d b ctx seg = AppendReturn b' e signal \<Longrightarrow> same_tally b b'"
proof -
  have body: "same_tally b b'" if "Append_body b seg = AppendReturn b' e signal" for b b' :: pending_buffer and e signal
    using that by (auto simp: Append_body_def Let_def same_tally_def buffer_simps option.map_comp comp_def
        split: if_splits option.splits)
  have resume: "same_tally b b'" if "Append_resume d b ctx seg = AppendReturn b' e signal"
    using that body [of "with_metrics (AddReaderPause d) b" b']
    by (auto simp: Append_resume_def Let_def same_tally_def buffer_simps option.map_comp comp_def split: if_splits)
  show "Append_body b seg = AppendReturn b' e signal \<Longrightarrow> same_tally b b'" by (rule body)
  show "Append_resume d b ctx seg = AppendReturn b' e signal \<Longrightarrow> same_tally b b'" by (rule resume)
  show "Append_start d b ctx seg = AppendReturn b' e signal \<Longrightarrow> same_tally b b'"
    using body resume by (auto simp: Append_start_def same_tally_def split: if_splits)
qed

lemma tally_Swap:
  "Swap_take b ctx = SwapReturn b' snapshot closed e broadcast \<Longrightarrow> same_tally b b'"
  "Swap_start b ctx = SwapReturn b' snapshot closed e broadcast \<Longrightarrow> same_tally b b'"
  by (auto simp: Swap_start_def Swap_take_def Let_def same_tally_def buffer_simps option.map_comp comp_def
      split: if_splits)

lemma flow_after_Append [simp]:
  "flow (after_Append seg segs (Append_start d (ex_buf x) ctx seg) x) = flow x"
  "flow (after_Append seg segs (Append_resume d (ex_buf x) ctx seg) x) = flow x"
proof -
  have "flow (after_Append seg segs res x) = flow x"
    if "\<And>b' e signal. res = AppendReturn b' e signal \<Longrightarrow> same_tally (ex_buf x) b'" for res
    using that by (cases "(seg, segs, res, x)" rule: after_Append.cases) (auto simp: flow_def same_tally_def)
  then show "flow (after_Append seg segs (Append_start d (ex_buf x) ctx seg) x) = flow x"
    "flow (after_Append seg segs (Append_resume d (ex_buf x) ctx seg) x) = flow x"
    using tally_Append by blast+
qed

lemma flow_after_Swap [simp]:
  "flow (after_Swap (Swap_start (ex_buf x) ctx) x) = flow x"
  "flow (after_Swap (Swap_take (ex_buf x) ctx) x) = flow x"
proof -
  have "flow (after_Swap res x) = flow x"
    if "\<And>b' snapshot closed e broadcast. res = SwapReturn b' snapshot closed e broadcast \<Longrightarrow> same_tally (ex_buf x) b'"
    for res
    using that by (cases res) (auto simp: Let_def flow_def same_tally_def cancelReader_def)
  then show "flow (after_Swap (Swap_start (ex_buf x) ctx) x) = flow x"
    "flow (after_Swap (Swap_take (ex_buf x) ctx) x) = flow x"
    using tally_Swap by blast+
qed

lemma flow_meter [simp]:
  "flow (rn_ex (meter f r)) = map_option tally (map_option f (pb_metrics (ex_buf (rn_ex r))))"
  by (simp add: meter_def flow_def with_metrics_simps)

text \<open>What each counter adds.\<close>

lemmas inc_defs = IncUpstreamEvents_def IncDownstreamEvents_def IncReasoningFragmentsIn_def IncReasoningEventsOut_def
  IncContentFragmentsIn_def IncContentEventsOut_def IncToolArgumentFragmentsIn_def IncToolEventsOut_def
  AddUpstreamBytes_def AddDownstreamBytes_def

lemma tally_inc:
  assumes "tally m = add_counts (tally m0) [a, b, c, d, e, f, g, h, i, j]"
  shows "tally (IncUpstreamEvents m) = add_counts (tally m0) [a + 1, b, c, d, e, f, g, h, i, j]"
    "tally (AddUpstreamBytes n m) = add_counts (tally m0) [a, b + n, c, d, e, f, g, h, i, j]"
    "tally (IncReasoningFragmentsIn m) = add_counts (tally m0) [a, b, c + 1, d, e, f, g, h, i, j]"
    "tally (IncContentFragmentsIn m) = add_counts (tally m0) [a, b, c, d + 1, e, f, g, h, i, j]"
    "tally (IncToolArgumentFragmentsIn m) = add_counts (tally m0) [a, b, c, d, e + 1, f, g, h, i, j]"
    "tally (IncDownstreamEvents m) = add_counts (tally m0) [a, b, c, d, e, f + 1, g, h, i, j]"
    "tally (AddDownstreamBytes n m) = add_counts (tally m0) [a, b, c, d, e, f, g + n, h, i, j]"
    "tally (IncReasoningEventsOut m) = add_counts (tally m0) [a, b, c, d, e, f, g, h + 1, i, j]"
    "tally (IncContentEventsOut m) = add_counts (tally m0) [a, b, c, d, e, f, g, h, i + 1, j]"
    "tally (IncToolEventsOut m) = add_counts (tally m0) [a, b, c, d, e, f, g, h, i, j + 1]"
  using assms by (simp_all add: tally_def inc_defs wrap64_add add.assoc)

definition flows :: "stream_metrics \<Rightarrow> int list \<Rightarrow> stream_run \<Rightarrow> bool" where
  "flows m0 ds r \<longleftrightarrow> flow (rn_ex r) = Some (add_counts (tally m0) ds)"

lemma flows_updates [simp]:
  "flows m0 ds (r\<lparr>rn_pipe := p\<rparr>) = flows m0 ds r" "flows m0 ds (r\<lparr>rn_heap := hp\<rparr>) = flows m0 ds r"
  "flows m0 ds (r\<lparr>rn_events := evs\<rparr>) = flows m0 ds r" "flows m0 ds (r\<lparr>rn_firstToken := t\<rparr>) = flows m0 ds r"
  "flows m0 ds (r\<lparr>rn_lastToken := t\<rparr>) = flows m0 ds r" "flows m0 ds (r\<lparr>rn_upstreamEnd := t\<rparr>) = flows m0 ds r"
  "flows m0 ds (r\<lparr>rn_lastClient := t\<rparr>) = flows m0 ds r" "flows m0 ds (r\<lparr>rn_totalTokens := n\<rparr>) = flows m0 ds r"
  "flows m0 ds (r\<lparr>rn_usageTokens := n\<rparr>) = flows m0 ds r" "flows m0 ds (r\<lparr>rn_sent := outs\<rparr>) = flows m0 ds r"
  "flows m0 ds (r\<lparr>rn_packets := outs\<rparr>) = flows m0 ds r" "flows m0 ds (r\<lparr>rn_flushed := q\<rparr>) = flows m0 ds r"
  "flows m0 ds (r\<lparr>rn_visible := v\<rparr>) = flows m0 ds r" "flows m0 ds (r\<lparr>rn_panic := q\<rparr>) = flows m0 ds r"
  "flows m0 ds (r\<lparr>rn_report := rep\<rparr>) = flows m0 ds r"
  "flows m0 ds (on_ex f r) \<longleftrightarrow> flow (f (rn_ex r)) = Some (add_counts (tally m0) ds)"
  by (simp_all add: flows_def)

lemma flows_meter:
  assumes "flows m0 ds r" "\<And>m. tally m = add_counts (tally m0) ds \<Longrightarrow> tally (f m) = add_counts (tally m0) ds'"
  shows "flows m0 ds' (meter f r)"
  using assms by (auto simp: flows_def flow_def meter_def with_metrics_simps)

lemma flows_count_token:
  assumes "flows m0 ds r" "\<And>m. tally m = add_counts (tally m0) ds \<Longrightarrow> tally (f m) = add_counts (tally m0) ds'"
  shows "flows m0 ds' (count_token f now r)"
  using flows_meter [OF assms] by (simp add: count_token_def recordToken_def Let_def)

lemma flows_tools:
  "flows m0 [a, b, c, d, e, f, g, h, i, j] r \<Longrightarrow>
   flows m0 [a, b, c, d, e + int (length ks), f, g, h, i, j]
     (fold (\<lambda>k. count_token IncToolArgumentFragmentsIn (nows k)) ks r)"
proof (induction ks arbitrary: r e)
  case (Cons k ks)
  have "flows m0 [a, b, c, d, e + 1, f, g, h, i, j] (count_token IncToolArgumentFragmentsIn (nows k) r)"
    using Cons.prems by (rule flows_count_token) (rule tally_inc)
  from Cons.IH [OF this] show ?case by (simp add: algebra_simps)
qed simp

lemma flows_store_usage [simp]: "flows m0 ds (store_usage u r) = flows m0 ds r"
  by (simp add: store_usage_def Let_def)

lemma flows_count_segment:
  assumes "flows m0 (amounts evs counted sent written) r"
  shows "flows m0 (amounts evs (counted @ [seg]) sent written) (count_segment nows seg r)"
  using assms unfolding amounts_def
  by (cases seg) (auto simp: Let_def intro: flows_count_token tally_inc
      dest: flows_tools [where nows = nows and ks = "[0..<length (ts_Calls t)]" for t])

lemma flows_count_out:
  assumes "flows m0 (amounts evs counted sent written) r"
  shows "flows m0 (amounts evs counted sent (written @ [seg])) (count_out now seg r)"
  using assms unfolding amounts_def
  by (cases seg) (auto intro: flows_meter tally_inc)

lemma flows_written:
  assumes "flows m0 (amounts evs counted sent written) r"
  shows "flows m0 (amounts evs counted (sent @ [out]) written) (count_written d out r)"
proof -
  obtain a b c d' e f g h i j where am: "amounts evs counted sent written = [a, b, c, d', e, f, g, h, i, j]"
    "amounts evs counted (sent @ [out]) written = [a, b, c, d', e, f + 1, g + int (length out), h, i, j]"
    by (simp add: amounts_def)
  from assms have "flows m0 [a, b, c, d', e, f, g, h, i, j] (meter (AddDownstreamWrite d) r)"
    unfolding am(1) by (rule flows_meter) simp
  then have "flows m0 [a, b, c, d', e, f + 1, g, h, i, j] (meter IncDownstreamEvents (meter (AddDownstreamWrite d) r))"
    by (rule flows_meter) (rule tally_inc)
  then show ?thesis unfolding count_written_def am(2) by (rule flows_meter) (rule tally_inc)
qed

text \<open>What counting a segment does to the other accounts.\<close>

lemma token_updates [simp]:
  "rn_pipe (count_token f now r) = rn_pipe r" "rn_heap (count_token f now r) = rn_heap r"
  "rn_events (count_token f now r) = rn_events r" "rn_sent (count_token f now r) = rn_sent r"
  "rn_usageTokens (count_token f now r) = rn_usageTokens r"
  "rn_totalTokens (count_token f now r) = wrap64 (rn_totalTokens r + 1)"
  "rn_firstToken (count_token f now r) \<noteq> None"
  by (simp_all add: count_token_def recordToken_def Let_def meter_def on_ex_def)

lemma fold_tokens:
  "rn_pipe (fold (\<lambda>k. count_token f (nows k)) ks r) = rn_pipe r
   \<and> rn_heap (fold (\<lambda>k. count_token f (nows k)) ks r) = rn_heap r
   \<and> rn_events (fold (\<lambda>k. count_token f (nows k)) ks r) = rn_events r
   \<and> rn_sent (fold (\<lambda>k. count_token f (nows k)) ks r) = rn_sent r
   \<and> rn_usageTokens (fold (\<lambda>k. count_token f (nows k)) ks r) = rn_usageTokens r"
  by (induction ks arbitrary: r) simp_all

lemma fold_total:
  "rn_totalTokens r = wrap64 n \<Longrightarrow>
   rn_totalTokens (fold (\<lambda>k. count_token f (nows k)) ks r) = wrap64 (n + int (length ks))"
proof (induction ks arbitrary: r n)
  case (Cons k ks)
  have "rn_totalTokens (count_token f (nows k) r) = wrap64 (n + 1)" using Cons.prems by (simp add: wrap64_add)
  from Cons.IH [OF this] show ?case by (simp add: algebra_simps)
qed simp

lemma fold_first:
  "rn_firstToken (fold (\<lambda>k. count_token f (nows k)) ks r) = None \<longleftrightarrow> rn_firstToken r = None \<and> ks = []"
  by (induction ks arbitrary: r) (simp_all del: not_None_eq)

lemma store_usage_updates [simp]:
  "rn_firstToken (store_usage u r) = rn_firstToken r"
  "rn_pipe (store_usage u r) = rn_pipe r" "rn_heap (store_usage u r) = rn_heap r"
  "rn_events (store_usage u r) = rn_events r" "rn_sent (store_usage u r) = rn_sent r"
  "rn_totalTokens (store_usage u r) = rn_totalTokens r"
  "rn_usageTokens (store_usage u r) = (if 0 < extractCompletionTokens u then extractCompletionTokens u else rn_usageTokens r)"
  by (simp_all add: store_usage_def Let_def)

lemma count_segment_frame:
  "rn_heap (count_segment nows seg r) = rn_heap r" "rn_events (count_segment nows seg r) = rn_events r"
  "rn_sent (count_segment nows seg r) = rn_sent r"
  "rn_pipe (count_segment nows seg r) = (rn_pipe r)\<lparr>sp_initialModel :=
     (if sp_initialModel (rn_pipe r) = [] then model_reported seg else sp_initialModel (rn_pipe r))\<rparr>"
  by (cases seg; simp add: Let_def fold_tokens)+

lemma count_segment_tokens:
  assumes "rn_totalTokens r = wrap64 n"
  shows "rn_totalTokens (count_segment nows seg r) = wrap64 (n + tokens_in seg)"
  using assms by (cases seg) (simp_all add: Let_def tokens_in_def wrap64_add fold_total)

lemma count_segment_usage:
  "rn_usageTokens (count_segment nows seg r) =
     (if 0 < extractCompletionTokens (usage_reported seg) then extractCompletionTokens (usage_reported seg)
      else rn_usageTokens r)"
  by (cases seg) (simp_all add: Let_def fold_tokens extractCompletionTokens_def)

section \<open>The books\<close>

lemma count_segment_first:
  "rn_firstToken (count_segment nows seg r) = None \<longleftrightarrow> rn_firstToken r = None \<and> tokens_in seg = 0"
  by (cases seg) (simp_all add: Let_def tokens_in_def fold_first del: not_None_eq)

lemma tokens_nonneg: "0 \<le> tokens_in seg" "0 \<le> total_of tokens_in segs"
proof -
  show t: "0 \<le> tokens_in seg" for seg by (cases seg) (simp_all add: tokens_in_def)
  show "0 \<le> total_of tokens_in segs" by (induction segs) (simp_all add: t)
qed

text \<open>Segments of the event being appended that have not been counted yet.\<close>

fun uncounted :: "reader_pc \<Rightarrow> segment list" where
  "uncounted (ReaderSend segs) = segs"
| "uncounted (ReaderParked seg segs) = segs"
| "uncounted (ReaderWoken seg segs) = segs"
| "uncounted (ReaderDone segs) = tl segs"
| "uncounted ReaderTop = []"
| "uncounted ReaderPanic = []"

lemma uncounted_wake [simp]: "uncounted (wake_reader pc) = uncounted pc"
  by (cases pc) simp_all

definition books_ok :: "stream_pipeline \<Rightarrow> heap \<Rightarrow> event list \<Rightarrow> stream_run \<Rightarrow> bool" where
  "books_ok p h evs r \<longleftrightarrow> (\<exists>read ls counted. evs = read @ rn_events r
     \<and> parse_events read (sp_parser p, h) = (ls, sp_parser (rn_pipe r), rn_heap r)
     \<and> concat ls = counted @ uncounted (ex_reader (rn_ex r))
     \<and> rn_totalTokens r = wrap64 (total_of tokens_in counted)
     \<and> (rn_firstToken r = None \<longleftrightarrow> total_of tokens_in counted = 0)
     \<and> rn_usageTokens r = usage_tokens counted
     \<and> sp_initialModel (rn_pipe r) = stream_model (sp_initialModel p) counted
     \<and> flows (sp_metrics p) (amounts read counted (rn_sent r) (ex_out (rn_ex r))) r)"

lemma books_okE:
  assumes "books_ok p h evs r"
  obtains read ls counted where "evs = read @ rn_events r"
    "parse_events read (sp_parser p, h) = (ls, sp_parser (rn_pipe r), rn_heap r)"
    "concat ls = counted @ uncounted (ex_reader (rn_ex r))"
    "rn_totalTokens r = wrap64 (total_of tokens_in counted)"
    "rn_usageTokens r = usage_tokens counted"
    "sp_initialModel (rn_pipe r) = stream_model (sp_initialModel p) counted"
    "flows (sp_metrics p) (amounts read counted (rn_sent r) (ex_out (rn_ex r))) r"
    "rn_firstToken r = None \<longleftrightarrow> total_of tokens_in counted = 0"
  using assms by (auto simp: books_ok_def)

text \<open>Everything the books speak of.\<close>

definition booked :: "stream_run \<Rightarrow> bool \<times> event list \<times> parser \<times> heap \<times> segment list \<times> int \<times> int \<times> bytes
    \<times> bytes list \<times> segment list \<times> int list option" where
  "booked r = (rn_firstToken r = None, rn_events r, sp_parser (rn_pipe r), rn_heap r, uncounted (ex_reader (rn_ex r)), rn_totalTokens r,
     rn_usageTokens r, sp_initialModel (rn_pipe r), rn_sent r, ex_out (rn_ex r), flow (rn_ex r))"

lemma books_ok_same: "books_ok p h evs r \<Longrightarrow> booked r' = booked r \<Longrightarrow> books_ok p h evs r'"
  by (auto simp: books_ok_def booked_def flows_def)

lemma parse_events_append:
  "parse_events (evs @ evs') ph =
     (let (ls, ph) = parse_events evs ph; (ls', ph) = parse_events evs' ph in (ls @ ls', ph))"
  by (induction evs arbitrary: ph) (auto simp: Let_def split: prod.splits)

lemma total_of_snoc: "usage_tokens (counted @ [seg]) =
    (if 0 < extractCompletionTokens (usage_reported seg) then extractCompletionTokens (usage_reported seg)
     else usage_tokens counted)"
  "stream_model m (counted @ [seg]) = (if stream_model m counted = [] then model_reported seg else stream_model m counted)"
  by (simp_all add: usage_tokens_def stream_model_def)

lemma reader_defer_booked [simp]: "booked (reader_defer now r) = booked r"
  by (simp add: booked_def reader_defer_def split: reader_pc.split)

lemma booked_on_ex:
  assumes "uncounted (ex_reader (f (rn_ex r))) = uncounted (ex_reader (rn_ex r))" "ex_out (f (rn_ex r)) = ex_out (rn_ex r)"
    "flow (f (rn_ex r)) = flow (rn_ex r)"
  shows "booked (on_ex f r) = booked r"
  using assms by (simp add: booked_def on_ex_def)

lemma ex_out_after [simp]:
  "ex_out (after_Append seg segs res x) = ex_out x" "ex_out (after_Swap sw x) = ex_out x"
  "uncounted (ex_reader (after_Swap sw x)) = uncounted (ex_reader x)"
  by (cases "(seg, segs, res, x)" rule: after_Append.cases; simp)
    (cases sw; simp add: Let_def; fail)+

lemma uncounted_after_Append:
  "ex_reader (after_Append seg segs res x) \<noteq> ReaderPanic \<Longrightarrow> uncounted (ex_reader (after_Append seg segs res x)) = segs"
  by (cases "(seg, segs, res, x)" rule: after_Append.cases) simp_all

lemma uncounted_do_Close [simp]: "uncounted (ex_reader (do_Close e x)) = uncounted (ex_reader x)"
  by simp

text \<open>Counting moves the first uncounted segment.\<close>

lemma books_count:
  assumes "books_ok p h evs r" "uncounted (ex_reader (rn_ex r)) = seg # segs" "q = count_segment nows seg r"
    and "uncounted (ex_reader (f (rn_ex q))) = segs" "ex_out (f (rn_ex q)) = ex_out (rn_ex r)"
    and "flow (f (rn_ex q)) = flow (rn_ex q)"
  shows "books_ok p h evs (on_ex f q)"
proof -
  from assms(1) obtain read ls counted where b: "evs = read @ rn_events r"
    "parse_events read (sp_parser p, h) = (ls, sp_parser (rn_pipe r), rn_heap r)"
    "concat ls = counted @ uncounted (ex_reader (rn_ex r))"
    "rn_totalTokens r = wrap64 (total_of tokens_in counted)"
    "rn_usageTokens r = usage_tokens counted"
    "sp_initialModel (rn_pipe r) = stream_model (sp_initialModel p) counted"
    "flows (sp_metrics p) (amounts read counted (rn_sent r) (ex_out (rn_ex r))) r"
    "rn_firstToken r = None \<longleftrightarrow> total_of tokens_in counted = 0"
    by (rule books_okE)
  have "flows (sp_metrics p) (amounts read (counted @ [seg]) (rn_sent r) (ex_out (rn_ex r))) q"
    unfolding assms(3) by (rule flows_count_segment [OF b(7)])
  then show ?thesis
    unfolding books_ok_def
    using b assms(2,4-6) count_segment_tokens [OF b(4), of nows seg]
      count_segment_first [of nows seg r] tokens_nonneg(1) [of seg] tokens_nonneg(2) [of counted]
    by (intro exI [of _ read] exI [of _ ls] exI [of _ "counted @ [seg]"])
      (simp add: assms(3) count_segment_frame count_segment_usage total_of_snoc flows_def, simp add: on_ex_def
        count_segment_frame count_segment_usage total_of_snoc add_nonneg_eq_0_iff)
qed

lemma books_event:
  assumes "books_ok p h evs r" "ex_reader (rn_ex r) = ReaderTop" "rn_events r = ev # rest"
  shows "books_ok p h evs (take_event ev rest r)"
proof -
  from assms(1) obtain read ls counted where b: "evs = read @ rn_events r"
    "parse_events read (sp_parser p, h) = (ls, sp_parser (rn_pipe r), rn_heap r)"
    "concat ls = counted @ uncounted (ex_reader (rn_ex r))"
    "rn_totalTokens r = wrap64 (total_of tokens_in counted)"
    "rn_usageTokens r = usage_tokens counted"
    "sp_initialModel (rn_pipe r) = stream_model (sp_initialModel p) counted"
    "flows (sp_metrics p) (amounts read counted (rn_sent r) (ex_out (rn_ex r))) r"
    "rn_firstToken r = None \<longleftrightarrow> total_of tokens_in counted = 0"
    by (rule books_okE)
  let ?q = "meter (AddUpstreamBytes (int (length (ev_Data ev)))) (meter IncUpstreamEvents r)"
  obtain a b' c d e f g i j k where am: "amounts read counted (rn_sent r) (ex_out (rn_ex r)) = [a, b', c, d, e, f, g, i, j, k]"
    "amounts (read @ [ev]) counted (rn_sent r) (ex_out (rn_ex r))
     = [a + 1, b' + int (length (ev_Data ev)), c, d, e, f, g, i, j, k]"
    by (simp add: amounts_def)
  have "flows (sp_metrics p) [a + 1, b', c, d, e, f, g, i, j, k] (meter IncUpstreamEvents r)"
    using b(7) unfolding am(1) by (rule flows_meter) (rule tally_inc)
  then have q: "flows (sp_metrics p) (amounts (read @ [ev]) counted (rn_sent r) (ex_out (rn_ex r))) ?q"
    unfolding am(2) by (rule flows_meter) (rule tally_inc)
  obtain segs ps hp where ev: "ParseEvent ev (sp_parser (rn_pipe r), rn_heap r) = (segs, ps, hp)" by (metis prod_cases3)
  have frame: "rn_firstToken ?q = rn_firstToken r" "rn_pipe ?q = rn_pipe r" "rn_heap ?q = rn_heap r" "rn_sent ?q = rn_sent r"
    "rn_totalTokens ?q = rn_totalTokens r" "rn_usageTokens ?q = rn_usageTokens r" "ex_out (rn_ex ?q) = ex_out (rn_ex r)"
    by (simp_all add: meter_def on_ex_def)
  have "parse_events (read @ [ev]) (sp_parser p, h) = (ls @ [segs], ps, hp)"
    by (simp add: parse_events_append b(2) ev)
  moreover have "concat (ls @ [segs]) = counted @ segs" using b(3) assms(2) by simp
  moreover have "take_event ev rest r = on_ex (ex_reader_update (\<lambda>_. ReaderSend segs))
      (?q\<lparr>rn_pipe := (rn_pipe r)\<lparr>sp_parser := ps\<rparr>, rn_heap := hp, rn_events := rest\<rparr>)"
    by (simp add: take_event_def Let_def frame ev)
  ultimately show ?thesis
    unfolding books_ok_def
    using b assms(3) q frame
    by (intro exI [of _ "read @ [ev]"] exI [of _ "ls @ [segs]"] exI [of _ counted])
      (simp add: on_ex_def flows_def)
qed

text \<open>Writing.\<close>

lemma meter_frame [simp]:
  "rn_firstToken (meter f r) = rn_firstToken r" "rn_pipe (meter f r) = rn_pipe r" "rn_heap (meter f r) = rn_heap r" "rn_events (meter f r) = rn_events r"
  "rn_sent (meter f r) = rn_sent r" "rn_totalTokens (meter f r) = rn_totalTokens r"
  "rn_usageTokens (meter f r) = rn_usageTokens r" "ex_out (rn_ex (meter f r)) = ex_out (rn_ex r)"
  "ex_reader (rn_ex (meter f r)) = ex_reader (rn_ex r)" "rn_flushed (meter f r) = rn_flushed r"
  "rn_visible (meter f r) = rn_visible r" "rn_flusher (meter f r) = rn_flusher r"
  "ex_writer (rn_ex (meter f r)) = ex_writer (rn_ex r)"
  by (simp_all add: meter_def on_ex_def)

lemma count_out_frame [simp]:
  "rn_firstToken (count_out now seg r) = rn_firstToken r" "rn_pipe (count_out now seg r) = rn_pipe r" "rn_heap (count_out now seg r) = rn_heap r"
  "rn_events (count_out now seg r) = rn_events r" "rn_sent (count_out now seg r) = rn_sent r"
  "rn_totalTokens (count_out now seg r) = rn_totalTokens r" "rn_usageTokens (count_out now seg r) = rn_usageTokens r"
  "ex_out (rn_ex (count_out now seg r)) = ex_out (rn_ex r)"
  "ex_reader (rn_ex (count_out now seg r)) = ex_reader (rn_ex r)"
  "rn_flushed (count_out now seg r) = rn_flushed r" "rn_visible (count_out now seg r) = rn_visible r"
  "rn_flusher (count_out now seg r) = rn_flusher r"
  "ex_writer (rn_ex (count_out now seg r)) = ex_writer (rn_ex r)"
  by (cases seg; simp)+

lemma call_packetCb_frame [simp]:
  "rn_firstToken (call_packetCb out r) = rn_firstToken r" "rn_pipe (call_packetCb out r) = rn_pipe r" "rn_heap (call_packetCb out r) = rn_heap r"
  "rn_events (call_packetCb out r) = rn_events r" "rn_sent (call_packetCb out r) = rn_sent r"
  "rn_totalTokens (call_packetCb out r) = rn_totalTokens r" "rn_usageTokens (call_packetCb out r) = rn_usageTokens r"
  "rn_ex (call_packetCb out r) = rn_ex r" "rn_visible (call_packetCb out r) = rn_visible r"
  "rn_flusher (call_packetCb out r) = rn_flusher r" "rn_flushed (call_packetCb out r) = rn_flushed r"
  by (simp_all add: call_packetCb_def)

text \<open>A segment that can be serialized is written, or the write fails.\<close>

lemma write_segment_cases:
  assumes "segment_ok seg"
  obtains (fails) out e where "fails = Some e"
      "SerializeSegment (sp_serializer (rn_pipe r)) (rn_heap r) unix seg = Some out"
      "write_segment unix d now fails seg segs closed r =
         on_ex (\<lambda>x. (cancelReader x)\<lparr>ex_writer := WriterReturn (seg # segs) (Some (ErrWrite e))\<rparr>) (call_packetCb out r)"
  | (writes) out where "SerializeSegment (sp_serializer (rn_pipe r)) (rn_heap r) unix seg = Some out"
      "write_segment unix d now fails seg segs closed r = count_out now seg ((count_written d out
         (on_ex (\<lambda>x. x\<lparr>ex_out := ex_out x @ [seg], ex_writer := WriterWrite segs closed\<rparr>)
            ((call_packetCb out r)\<lparr>rn_sent := rn_sent r @ [out]\<rparr>)))\<lparr>rn_flushed := True\<rparr>)"
proof -
  obtain out where out: "SerializeSegment (sp_serializer (rn_pipe r)) (rn_heap r) unix seg = Some out"
    using SerializeSegment_returns [OF assms] by blast
  from SerializeSegment_nonempty [OF out] have "out \<noteq> []" .
  with out fails [of _ out] writes [of out] show thesis
    by (cases fails) (auto simp: write_segment_def Let_def)
qed

lemma books_write:
  assumes "books_ok p h evs r" "segment_ok seg"
  shows "books_ok p h evs (write_segment unix d now fails seg segs closed r)"
  using assms(2)
proof (cases rule: write_segment_cases [where r = r and unix = unix and d = d and now = now and fails = fails
      and segs = segs and closed = closed])
  case (fails out e)
  have "booked (write_segment unix d now (Some e) seg segs closed r) = booked (call_packetCb out r)"
    unfolding fails(3) [unfolded fails(1)] by (rule booked_on_ex) simp_all
  also have "\<dots> = booked r" by (simp add: booked_def)
  finally show ?thesis using books_ok_same [OF assms(1)] fails(1) by simp
next
  case (writes out)
  from assms(1) obtain read ls counted where b: "evs = read @ rn_events r"
    "parse_events read (sp_parser p, h) = (ls, sp_parser (rn_pipe r), rn_heap r)"
    "concat ls = counted @ uncounted (ex_reader (rn_ex r))"
    "rn_totalTokens r = wrap64 (total_of tokens_in counted)"
    "rn_usageTokens r = usage_tokens counted"
    "sp_initialModel (rn_pipe r) = stream_model (sp_initialModel p) counted"
    "flows (sp_metrics p) (amounts read counted (rn_sent r) (ex_out (rn_ex r))) r"
    "rn_firstToken r = None \<longleftrightarrow> total_of tokens_in counted = 0"
    by (rule books_okE)
  let ?q = "on_ex (\<lambda>x. x\<lparr>ex_out := ex_out x @ [seg], ex_writer := WriterWrite segs closed\<rparr>)
            ((call_packetCb out r)\<lparr>rn_sent := rn_sent r @ [out]\<rparr>)"
  have "flows (sp_metrics p) (amounts read counted (rn_sent r) (ex_out (rn_ex r))) ?q"
    using b(7) by (simp add: flows_def)
  from flows_written [OF this, of out d] have "flows (sp_metrics p)
      (amounts read counted (rn_sent r @ [out]) (ex_out (rn_ex r))) ((count_written d out ?q)\<lparr>rn_flushed := True\<rparr>)"
    by simp
  from flows_count_out [OF this, of seg now] have f: "flows (sp_metrics p) (amounts read counted (rn_sent r @ [out]) (ex_out (rn_ex r) @ [seg]))
      (write_segment unix d now fails seg segs closed r)"
    unfolding writes(2) .
  show ?thesis
    unfolding books_ok_def
    by (rule exI [of _ read], rule exI [of _ ls], rule exI [of _ counted])
      (use b f in \<open>simp add: writes(2) count_written_def\<close>, simp add: on_ex_def)
qed

text \<open>Every step keeps the books.\<close>

lemma tally_report: "tally (record_report x m) = tally m"
  by (cases x) (simp add: record_report_update tally_def)

lemma books_step:
  assumes "books_ok p h evs r" "run_step r r'"
    and "list_all segment_ok (ex_unwritten (rn_ex r))" "ex_reader (rn_ex r') \<noteq> ReaderPanic"
  shows "books_ok p h evs r'"
  using assms(2)
proof cases
  case (run_cancelled e now)
  then show ?thesis
    by (auto intro!: books_ok_same [OF assms(1)] booked_on_ex simp: reader_close_def)
next
  case (run_event ev rest)
  then show ?thesis using books_event [OF assms(1)] by simp
next
  case (run_end now)
  then show ?thesis
    by (auto intro!: books_ok_same [OF assms(1)] booked_on_ex simp: reader_close_def)
next
  case run_sent
  then show ?thesis by (auto intro!: books_ok_same [OF assms(1)] booked_on_ex)
next
  case (run_append seg segs q nows now d)
  let ?f = "after_Append seg segs (Append_start d (ex_buf (rn_ex q)) (ex_readerCtx (rn_ex q)) seg)"
  have "ex_reader (?f (rn_ex q)) \<noteq> ReaderPanic"
    using assms(4) unfolding run_append(1) by (simp add: reader_defer_def on_ex_def split: reader_pc.splits if_splits)
  moreover have "ex_out (run_abs q) = ex_out (run_abs r)" by (simp add: run_append(3))
  then have "ex_out (rn_ex q) = ex_out (rn_ex r)" by (simp add: run_abs_def)
  ultimately have "books_ok p h evs (on_ex ?f q)"
    using run_append(2) uncounted_after_Append by (intro books_count [OF assms(1) _ run_append(3)]) simp_all
  then show ?thesis unfolding run_append(1) by (rule books_ok_same) simp
next
  case (run_resume seg segs now d)
  let ?f = "after_Append seg segs (Append_resume d (ex_buf (rn_ex r)) (ex_readerCtx (rn_ex r)) seg)"
  have "ex_reader (?f (rn_ex r)) \<noteq> ReaderPanic"
    using assms(4) unfolding run_resume(1) by (simp add: reader_defer_def on_ex_def split: reader_pc.splits if_splits)
  then have "booked (on_ex ?f r) = booked r"
    using run_resume(2) uncounted_after_Append by (intro booked_on_ex) simp_all
  then show ?thesis unfolding run_resume(1) by (intro books_ok_same [OF assms(1)]) simp
next
  case run_swap
  then show ?thesis by (auto intro!: books_ok_same [OF assms(1)] booked_on_ex)
next
  case (run_timed ch)
  then show ?thesis by (auto intro!: books_ok_same [OF assms(1)] booked_on_ex)
next
  case (run_write seg segs closed unix d now fails)
  moreover from this assms(3) have "segment_ok seg" by (simp add: ex_unwritten_def)
  ultimately show ?thesis using books_write [OF assms(1)] by simp
next
  case (run_check closed)
  then show ?thesis
    by (intro books_ok_same [OF assms(1)]) (simp add: end_snapshot_def booked_def Let_def on_ex_def)
next
  case (run_defers segs e)
  then show ?thesis by (auto intro!: books_ok_same [OF assms(1)] booked_on_ex)
next
  case (run_report segs e clientEnd)
  have "flow (rn_ex (make_report clientEnd r)) = flow (rn_ex r)"
    by (cases "final_report clientEnd r")
      (auto simp: make_report_def Let_def flow_def meter_def on_ex_def with_metrics_simps option.map_comp comp_def
        tally_report)
  then show ?thesis
    unfolding run_report(1) by (intro books_ok_same [OF assms(1)]) (simp add: make_report_def Let_def booked_def)
next
  case (run_cancel e)
  then show ?thesis by (auto intro!: books_ok_same [OF assms(1)] booked_on_ex)
next
  case (run_propagate e)
  then show ?thesis by (auto intro!: books_ok_same [OF assms(1)] booked_on_ex)
next
  case (run_monitor e)
  then show ?thesis by (auto intro!: books_ok_same [OF assms(1)] booked_on_ex)
qed

lemma books_reachable:
  assumes "reaches p h evs e r" "list_all int64_range (tally (sp_metrics p))"
  shows "books_ok p h evs r"
  using assms(1)
proof (induction rule: reaches_induct)
  case (start flusher now)
  have "flows (sp_metrics p) (amounts [] [] [] []) (start_stream p h evs e flusher now)"
    using assms(2) by (simp add: flows_def flow_def start_stream_def ex_init_def NewPendingBuffer_def Let_def
        tally_def amounts_def)
  then show ?case
    by (simp add: books_ok_def start_stream_def ex_init_def usage_tokens_def stream_model_def)
next
  case (step r r')
  have "list_all segment_ok (ex_unwritten (rn_ex r))"
    using reaches_sched(2) [OF step(1)] by (simp add: ex_unwritten_def run_abs_sel)
  then show ?case using books_step [OF step(4,3)] reaches_sched(3) [OF step(2)] by blast
qed

end
