(* ===== verification/Pipeline_Schedule.thy ===== *)
theory Pipeline_Schedule
  imports Pipeline
begin

text \<open>
  The steps of a stream as a function of the goroutine that moves and of what it reads from the clock and
  from the client's connection, so that a run of \<open>ProcessStream\<close> can be executed.
\<close>

text \<open>
  \<open>StepReader nows now d\<close>: the reader, with the clock readings for its tokens, the time at which it may
  return and the length of a pause.  \<open>StepWriter unix d now fails\<close>: the writer.
\<close>

datatype run_action =
    StepReader "nat \<Rightarrow> int" int int
  | StepWriter int int int "bytes option"
  | StepReport int
  | StepCancel bytes
  | StepPropagate
  | StepMonitor

definition run_reader :: "(nat \<Rightarrow> int) \<Rightarrow> int \<Rightarrow> int \<Rightarrow> stream_run \<Rightarrow> stream_run option" where
  "run_reader nows now d r =
     (case ex_reader (rn_ex r) of
        ReaderTop \<Rightarrow>
          (case ex_readerCtx (rn_ex r) of
             Some e \<Rightarrow> Some (reader_close (Some e) now r)
           | None \<Rightarrow>
               (case rn_events r of
                  [] \<Rightarrow> Some (reader_close (close_error (ex_end (rn_ex r))) now r)
                | ev # rest \<Rightarrow> Some (take_event ev rest r)))
      | ReaderSend [] \<Rightarrow> Some (on_ex (ex_reader_update (\<lambda>_. ReaderTop)) r)
      | ReaderSend (seg # segs) \<Rightarrow>
          (let q = count_segment nows seg r
           in Some (reader_defer now
                (on_ex (after_Append seg segs (Append_start d (ex_buf (rn_ex q)) (ex_readerCtx (rn_ex q)) seg)) q)))
      | ReaderWoken seg segs \<Rightarrow>
          Some (reader_defer now
            (on_ex (after_Append seg segs (Append_resume d (ex_buf (rn_ex r)) (ex_readerCtx (rn_ex r)) seg)) r))
      | _ \<Rightarrow> None)"

definition run_writer :: "int \<Rightarrow> int \<Rightarrow> int \<Rightarrow> bytes option \<Rightarrow> stream_run \<Rightarrow> stream_run option" where
  "run_writer unix d now fails r =
     (case ex_writer (rn_ex r) of
        WriterTop \<Rightarrow> Some (on_ex (\<lambda>x. after_Swap (Swap_start (ex_buf x) (ex_ctx x)) x) r)
      | WriterWoken \<Rightarrow> Some (on_ex (\<lambda>x. after_Swap (Swap_start (ex_buf x) (ex_ctx x)) x) r)
      | WriterTimed ch \<Rightarrow> Some (on_ex (\<lambda>x. after_Swap (Swap_take (ex_buf x) (ex_ctx x)) x) r)
      | WriterWrite [] closed \<Rightarrow> Some (end_snapshot closed r)
      | WriterWrite (seg # segs) closed \<Rightarrow> Some (write_segment unix d now fails seg segs closed r)
      | WriterReturn segs e \<Rightarrow>
          Some (on_ex (\<lambda>x. (do_Close (ex_readerCtx (cancelReader x)) (cancelReader x))
                            \<lparr>ex_writer := WriterDone segs e\<rparr>) r)
      | _ \<Rightarrow> None)"

fun perform_run :: "run_action \<Rightarrow> stream_run \<Rightarrow> stream_run option" where
  "perform_run (StepReader nows now d) r = run_reader nows now d r"
| "perform_run (StepWriter unix d now fails) r = run_writer unix d now fails r"
| "perform_run (StepReport clientEnd) r =
     (case ex_writer (rn_ex r) of
        WriterDone segs e \<Rightarrow> if rn_report r = None then Some (make_report clientEnd r) else None
      | _ \<Rightarrow> None)"
| "perform_run (StepCancel e) r =
     (if ex_ctx (rn_ex r) = None then Some (on_ex (ex_ctx_update (\<lambda>_. Some (ErrContext e))) r) else None)"
| "perform_run StepPropagate r =
     (case ex_ctx (rn_ex r) of
        Some e \<Rightarrow>
          if ex_readerCtx (rn_ex r) = None then Some (on_ex (ex_readerCtx_update (\<lambda>_. Some e)) r) else None
      | None \<Rightarrow> None)"
| "perform_run StepMonitor r =
     (case ex_readerCtx (rn_ex r) of
        Some e \<Rightarrow> if pb_closed (ex_buf (rn_ex r)) then None else Some (on_ex (do_Close (Some e)) r)
      | None \<Rightarrow> None)"

fun run_actions :: "run_action list \<Rightarrow> stream_run \<Rightarrow> stream_run option" where
  "run_actions [] r = Some r"
| "run_actions (a # as) r = (case perform_run a r of None \<Rightarrow> None | Some r' \<Rightarrow> run_actions as r')"

lemma perform_run_step: "perform_run a r = Some r' \<Longrightarrow> run_step r r'"
  by (cases "(a, r)" rule: perform_run.cases)
    (auto simp: run_reader_def run_writer_def Let_def intro: run_step.intros
      split: reader_pc.splits writer_pc.splits list.splits option.splits if_splits)

lemma run_actions_reach: "run_actions as r = Some r' \<Longrightarrow> run_step\<^sup>*\<^sup>* r r'"
  by (induction as r rule: run_actions.induct)
    (auto split: option.splits intro: converse_rtranclp_into_rtranclp perform_run_step)

section \<open>A sample stream\<close>

definition sample_chunk :: event where
  "sample_chunk = \<lparr>ev_Type = [], ev_Data = ''{'' @ quote # ''choices'' @ quote # '':[{'' @ quote # ''delta''
     @ quote # '':{'' @ quote # ''content'' @ quote # '':'' @ quote # ''hi'' @ quote # ''}}]}'', ev_ID = [], ev_Raw = []\<rparr>"

definition sample_pipeline :: stream_pipeline where
  "sample_pipeline = SetProtocol_pipeline ProtocolChatCompletions (NewStreamPipeline 3000000000 DefaultBufferConfig None)"

definition sample_actions :: "run_action list" where
  "sample_actions = replicate 4 (StepReader (\<lambda>_. 5) 6 0) @ replicate 4 (StepWriter 4 1 7 None)"

definition sample_start :: stream_run where
  "sample_start = start_stream sample_pipeline [] [sample_chunk] EOF True 2"

definition sample_finished :: stream_run where
  "sample_finished = the (run_actions sample_actions sample_start)"

lemma sample_runs:
  "case run_actions sample_actions sample_start of
     Some r \<Rightarrow> ex_ctx (rn_ex r) = None \<and> ex_writer (rn_ex r) = WriterDone [] None \<and> rn_flusher r
   | None \<Rightarrow> False"
  by code_simp

lemma sample_finished:
  "run_step\<^sup>*\<^sup>* sample_start sample_finished" "ex_ctx (rn_ex sample_finished) = None"
  "ex_writer (rn_ex sample_finished) = WriterDone [] None" "rn_flusher sample_finished"
proof -
  obtain r where r: "run_actions sample_actions sample_start = Some r" "ex_ctx (rn_ex r) = None"
    "ex_writer (rn_ex r) = WriterDone [] None" "rn_flusher r"
    using sample_runs by (cases "run_actions sample_actions sample_start") auto
  then have "sample_finished = r" by (simp add: sample_finished_def)
  with r run_actions_reach [OF r(1)] show "run_step\<^sup>*\<^sup>* sample_start sample_finished"
    "ex_ctx (rn_ex sample_finished) = None" "ex_writer (rn_ex sample_finished) = WriterDone [] None"
    "rn_flusher sample_finished" by simp_all
qed

lemma sample_segments:
  "fst (parse_events [sample_chunk] (sp_parser sample_pipeline, []))
   = [[Content \<lparr>cs_ChoiceIndex = 0, cs_Text = ''hi'', cs_Metadata = zero_meta\<lparr>md_Created := 3\<rparr>\<rparr>]]"
  by code_simp

end
