(* ===== verification/Pipeline_Laws.thy ===== *)
theory Pipeline_Laws
  imports Pipeline_Accounts Pipeline_Schedule
begin

text \<open>
  What holds of a stream when \<open>ProcessStream\<close> returns, what has been flushed while it runs, and the
  properties of the pipeline as a whole.
\<close>

section \<open>When a stream ends undisturbed\<close>

text \<open>
  As long as the context is not cancelled, the reader's context is cancelled only when \<open>ProcessStream\<close>
  returns, and when it returns without an error the reader has returned before.
\<close>

definition calm :: "exchange \<Rightarrow> bool" where
  "calm x \<longleftrightarrow> (ex_ctx x = None \<longrightarrow>
     (case ex_writer x of
        WriterReturn segs e \<Rightarrow> e = None \<longrightarrow> ex_readerCtx x = None
      | WriterDone segs e \<Rightarrow> e = None \<longrightarrow>
          ex_source x = [] \<and> ex_reader x = ReaderDone [] \<and> pb_segments (ex_buf x) = []
      | _ \<Rightarrow> ex_readerCtx x = None))"

lemma calm_wake: "calm x \<Longrightarrow> calm (x\<lparr>ex_writer := wake_writer (ex_writer x)\<rparr>)"
  by (cases "ex_writer x") (simp_all add: calm_def)

lemma calm_append:
  assumes "calm x" "ex_reader x \<noteq> ReaderDone []"
  shows "calm (after_Append seg segs res x)"
  using assms by (cases "(seg, segs, res, x)" rule: after_Append.cases; cases "ex_writer x") (auto simp: calm_def)

lemma calm_swap:
  assumes "calm x" "ex_writer x = WriterTop \<or> ex_writer x = WriterWoken \<or> ex_writer x = WriterTimed ch"
  shows "calm (after_Swap res x)"
  using assms by (cases res) (auto simp: calm_def Let_def)

lemma calm_step:
  assumes "calm x" "sched_ok x" "step x x'"
  shows "calm x'"
  using assms(3)
proof cases
  case (reader_append seg segs d)
  then show ?thesis using calm_append [OF assms(1)] by simp
next
  case (reader_resume seg segs d)
  then show ?thesis using calm_append [OF assms(1)] by simp
next
  case writer_swap
  then show ?thesis using calm_swap [OF assms(1)] by blast
next
  case (writer_timed ch)
  then show ?thesis using calm_swap [OF assms(1)] by blast
next
  case (writer_defers segs e)
  show ?thesis
  proof (cases "ex_ctx x = None \<and> e = None")
    case True
    then have "ex_readerCtx x = None" using assms(1) writer_defers(2) by (simp add: calm_def)
    moreover have c: "pb_closed (ex_buf x)" "pb_segments (ex_buf x) = []"
      using assms(2) writer_defers(2) True by (simp_all add: sched_ok_def)
    ultimately have "ex_source x = []" "ex_reader x = ReaderDone []"
      using assms(2) by (simp_all add: sched_ok_def end_ok_def)
    then show ?thesis using c unfolding writer_defers(1) by (simp add: calm_def Close_def)
  next
    case False
    then show ?thesis unfolding writer_defers(1) by (auto simp: calm_def)
  qed
qed (use assms in \<open>auto simp: calm_def Close_def buffer_simps split: writer_pc.splits\<close>)

lemma calm_reachable:
  assumes "step\<^sup>*\<^sup>* (ex_init cfg m source e) x" "list_all segment_ok (concat source)"
  shows "calm x"
  using assms(1)
proof (induction rule: rtranclp_induct)
  case base
  show ?case by (simp add: calm_def ex_init_def)
next
  case (step x x')
  then show ?case using calm_step sched_ok_reachable [OF step.hyps(1) assms(2)] by blast
qed

text \<open>So at an undisturbed end all events have been read, and all segments counted and written.\<close>

definition undisturbed_end :: "stream_run \<Rightarrow> bool" where
  "undisturbed_end r \<longleftrightarrow> ex_ctx (rn_ex r) = None \<and> ex_writer (rn_ex r) = WriterDone [] None"

lemma events_parse_nil: "fst (parse_events evs ph) = [] \<longleftrightarrow> evs = []"
  by (cases evs) (auto split: prod.splits)

lemma undisturbed_books:
  assumes "reaches p h evs e r" "list_all int64_range (tally (sp_metrics p))" "undisturbed_end r"
  shows "rn_events r = []"
    and "parse_events evs (sp_parser p, h) = (parsed p h evs, sp_parser (rn_pipe r), rn_heap r)"
    and "rn_totalTokens r = wrap64 (total_of tokens_in (concat (parsed p h evs)))"
    and "rn_usageTokens r = usage_tokens (concat (parsed p h evs))"
    and "sp_initialModel (rn_pipe r) = stream_model (sp_initialModel p) (concat (parsed p h evs))"
    and "flows (sp_metrics p) (amounts evs (concat (parsed p h evs)) (rn_sent r) (ex_out (rn_ex r))) r"
    and "rn_firstToken r = None \<longleftrightarrow> total_of tokens_in (concat (parsed p h evs)) = 0"
proof -
  have ok: "list_all segment_ok (concat (parsed p h evs))" using assms(1) by (simp add: reaches_def)
  have "calm (run_abs r)" by (rule calm_reachable [OF reaches_abs [OF assms(1)] ok])
  then have fin: "to_come r = []" "ex_reader (rn_ex r) = ReaderDone []"
    using assms(3) by (simp_all add: calm_def undisturbed_end_def run_abs_sel, simp_all add: run_abs_def)
  from fin(1) show ev: "rn_events r = []" by (simp add: to_come_def events_parse_nil)
  obtain read ls counted where b: "evs = read @ rn_events r"
    "parse_events read (sp_parser p, h) = (ls, sp_parser (rn_pipe r), rn_heap r)"
    "concat ls = counted @ uncounted (ex_reader (rn_ex r))"
    "rn_totalTokens r = wrap64 (total_of tokens_in counted)"
    "rn_usageTokens r = usage_tokens counted"
    "sp_initialModel (rn_pipe r) = stream_model (sp_initialModel p) counted"
    "flows (sp_metrics p) (amounts read counted (rn_sent r) (ex_out (rn_ex r))) r"
    "rn_firstToken r = None \<longleftrightarrow> total_of tokens_in counted = 0"
    using books_reachable [OF assms(1,2)] by (rule books_okE)
  have c: "read = evs" "ls = parsed p h evs" "counted = concat (parsed p h evs)"
    using b(1-3) ev fin(2) by (simp_all add: parsed_def)
  from b(2,4-8) show "parse_events evs (sp_parser p, h) = (parsed p h evs, sp_parser (rn_pipe r), rn_heap r)"
    "rn_totalTokens r = wrap64 (total_of tokens_in (concat (parsed p h evs)))"
    "rn_usageTokens r = usage_tokens (concat (parsed p h evs))"
    "sp_initialModel (rn_pipe r) = stream_model (sp_initialModel p) (concat (parsed p h evs))"
    "flows (sp_metrics p) (amounts evs (concat (parsed p h evs)) (rn_sent r) (ex_out (rn_ex r))) r"
    "rn_firstToken r = None \<longleftrightarrow> total_of tokens_in (concat (parsed p h evs)) = 0"
    by (simp_all only: c)
qed

section \<open>Flushing\<close>

text \<open>With a flusher, everything written has been flushed unless the writer is in a snapshot.\<close>

fun in_snapshot :: "writer_pc \<Rightarrow> bool" where
  "in_snapshot (WriterWrite segs c) \<longleftrightarrow> True"
| "in_snapshot (WriterReturn segs e) \<longleftrightarrow> segs \<noteq> []"
| "in_snapshot (WriterDone segs e) \<longleftrightarrow> segs \<noteq> []"
| "in_snapshot _ \<longleftrightarrow> False"

definition flush_ok :: "stream_run \<Rightarrow> bool" where
  "flush_ok r \<longleftrightarrow> (rn_flusher r \<and> \<not> rn_flushed r \<longrightarrow> rn_visible r = length (rn_sent r))
     \<and> (rn_flushed r \<longrightarrow> in_snapshot (ex_writer (rn_ex r))) \<and> \<not> rn_panic r"

text \<open>What the writer's side of a stream looks like from outside the writer.\<close>

definition outlet :: "stream_run \<Rightarrow> bool \<times> bool \<times> nat \<times> bytes list \<times> bool" where
  "outlet r = (rn_flusher r, rn_flushed r, rn_visible r, rn_sent r, rn_panic r)"

lemma flush_ok_same:
  "flush_ok r \<Longrightarrow> outlet r' = outlet r \<Longrightarrow>
   in_snapshot (ex_writer (rn_ex r)) \<longrightarrow> in_snapshot (ex_writer (rn_ex r')) \<Longrightarrow> flush_ok r'"
  by (auto simp: flush_ok_def outlet_def)

lemma outlet_kept [simp]:
  "outlet (on_ex f r) = outlet r" "outlet (meter g r) = outlet r" "outlet (count_token g now r) = outlet r"
  "outlet (store_usage u r) = outlet r" "outlet (reader_defer now r) = outlet r"
  "outlet (call_packetCb out r) = outlet r" "outlet (take_event ev rest r) = outlet r"
  "outlet (r\<lparr>rn_pipe := p\<rparr>) = outlet r"
  by (simp_all add: outlet_def on_ex_def meter_def count_token_def recordToken_def store_usage_def reader_defer_def
      call_packetCb_def take_event_def Let_def split: reader_pc.split prod.split)

lemma outlet_count_segment [simp]: "outlet (count_segment nows seg r) = outlet r"
proof -
  have "outlet (fold (\<lambda>k. count_token f (nows k)) ks r) = outlet r" for f ks r
    by (induction ks arbitrary: r) simp_all
  then show ?thesis by (cases seg) (simp_all add: Let_def)
qed

lemma in_snapshot_wake [simp]: "in_snapshot (wake_writer w) = in_snapshot w"
  by (cases w) simp_all

lemma writer_kept:
  "in_snapshot (ex_writer (after_Append seg segs res x)) = in_snapshot (ex_writer x)"
  "ex_writer (rn_ex (reader_defer now r)) = ex_writer (rn_ex r)"
  by (cases "(seg, segs, res, x)" rule: after_Append.cases; simp)
    (simp add: reader_defer_def split: reader_pc.split)

lemma writer_counted: "ex_writer (rn_ex (count_segment nows seg r)) = ex_writer (rn_ex r)"
  using run_abs_count_segment [of nows seg r] by (metis run_abs_sel(2))

lemma flush_ok_step:
  assumes "flush_ok r" "run_step r r'" "list_all segment_ok (ex_unwritten (rn_ex r))"
  shows "flush_ok r'"
  using assms(2)
proof cases
  case (run_event ev rest)
  have "ex_writer (rn_ex (take_event ev rest r)) = ex_writer (rn_ex r)"
    by (simp add: take_event_def Let_def on_ex_def meter_def split: prod.split)
  with run_event(1) show ?thesis by (intro flush_ok_same [OF assms(1)]) simp_all
next
  case run_swap
  then have "\<not> rn_flushed r" using assms(1) by (auto simp: flush_ok_def)
  then show ?thesis using assms(1) unfolding run_swap(1) by (simp add: flush_ok_def on_ex_def)
next
  case (run_timed ch)
  then have "\<not> rn_flushed r" using assms(1) by (auto simp: flush_ok_def)
  then show ?thesis using assms(1) unfolding run_timed(1) by (simp add: flush_ok_def on_ex_def)
next
  case (run_write seg segs closed unix d now fails)
  from this assms(3) have "segment_ok seg" by (simp add: ex_unwritten_def)
  then show ?thesis
    unfolding run_write(1)
  proof (cases rule: write_segment_cases [where r = r and unix = unix and d = d and now = now and fails = fails
        and segs = segs and closed = closed])
    case (fails out e)
    show "flush_ok (write_segment unix d now fails seg segs closed r)"
      unfolding fails(3) by (rule flush_ok_same [OF assms(1)]) simp_all
  next
    case (writes out)
    have "rn_panic (count_out now seg q) = rn_panic q" for q by (cases seg) (simp_all add: meter_def on_ex_def)
    then show "flush_ok (write_segment unix d now fails seg segs closed r)"
      using assms(1) unfolding writes(2)
      by (simp add: flush_ok_def) (simp add: count_written_def call_packetCb_def meter_def on_ex_def)
  qed
next
  case (run_check closed)
  then show ?thesis using assms(1) by (auto simp: flush_ok_def end_snapshot_def Let_def on_ex_def)
next
  case (run_report segs e clientEnd)
  then show ?thesis
    by (intro flush_ok_same [OF assms(1)])
      (simp_all add: make_report_def Let_def, simp add: outlet_def meter_def on_ex_def)
qed (auto intro!: flush_ok_same [OF assms(1)] simp: reader_close_def writer_kept writer_counted)

lemma flush_ok_reachable: "reaches p h evs e r \<Longrightarrow> flush_ok r"
proof (induction rule: reaches_induct)
  case (step r r')
  have "list_all segment_ok (ex_unwritten (rn_ex r))"
    using reaches_sched(2) [OF step(1)] by (simp add: ex_unwritten_def run_abs_sel)
  then show ?case using flush_ok_step [OF step(4,3)] by blast
qed (simp add: flush_ok_def start_stream_def ex_init_def)

section \<open>Properties\<close>



text \<open>
  C13: the report of an undisturbed stream.  When \<open>ProcessStream\<close> returns without an error and its context
  was not cancelled, the report names the model of the request, else the first model a control event
  gave, else the parser's, else \<open>unknown\<close>; its tokens are the last positive usage that the upstream
  reported, else the number of fragments of all segments; and there is no report only if there was
  neither a fragment nor a usage.
\<close>
theorem stream_report_complete:
  assumes "run_step\<^sup>*\<^sup>* (start_stream p h evs e flusher now) r" "list_all segment_ok (concat (parsed p h evs))"
    and "list_all int64_range (tally (sp_metrics p))" "undisturbed_end r"
  shows "case final_report clientEnd r of
      Some (model, tokens, ttft, gen, client) \<Rightarrow>
        model = (let m = stream_model (sp_initialModel p) (concat (parsed p h evs));
                     m = (if m = [] then Model (fst (snd (parse_events evs (sp_parser p, h)))) else m)
                 in if m = [] then ''unknown'' else m)
        \<and> tokens = (if 0 < usage_tokens (concat (parsed p h evs)) then usage_tokens (concat (parsed p h evs))
                     else wrap64 (total_of tokens_in (concat (parsed p h evs))))
    | None \<Rightarrow> total_of tokens_in (concat (parsed p h evs)) = 0 \<and> usage_tokens (concat (parsed p h evs)) \<le> 0"
proof -
  have "reaches p h evs e r" using assms(1,2) by (auto simp: reaches_def)
  note b = undisturbed_books [OF this assms(3,4)]
  show ?thesis
    using b(2-5,7) by (cases "rn_firstToken r") (auto simp: final_report_def final_model_def Let_def)
qed

text \<open>
  C14: nothing lingers unflushed.  If the client's writer can flush, then whenever \<open>ProcessStream\<close> waits
  for more input or has returned without leaving a part of a snapshot unwritten, everything it wrote has
  been flushed.
\<close>
theorem written_is_flushed:
  assumes "run_step\<^sup>*\<^sup>* (start_stream p h evs e flusher now) r" "list_all segment_ok (concat (parsed p h evs))"
    and "rn_flusher r" "\<not> in_snapshot (ex_writer (rn_ex r))"
  shows "rn_visible r = length (rn_sent r)"
proof -
  have "reaches p h evs e r" using assms(1,2) by (auto simp: reaches_def)
  from flush_ok_reachable [OF this] assms(3,4) show ?thesis by (auto simp: flush_ok_def)
qed

section \<open>Witnesses\<close>

lemma sample_stream:
  "run_step\<^sup>*\<^sup>* (start_stream sample_pipeline [] [sample_chunk] EOF True 2) sample_finished"
  "list_all segment_ok (concat (parsed sample_pipeline [] [sample_chunk]))"
  "list_all int64_range (tally (sp_metrics sample_pipeline))" "undisturbed_end sample_finished"
proof -
  show "run_step\<^sup>*\<^sup>* (start_stream sample_pipeline [] [sample_chunk] EOF True 2) sample_finished"
    using sample_finished(1) by (simp add: sample_start_def)
  show "list_all segment_ok (concat (parsed sample_pipeline [] [sample_chunk]))"
    unfolding parsed_def sample_segments by simp
  show "list_all int64_range (tally (sp_metrics sample_pipeline))"
    by (simp add: sample_pipeline_def SetProtocol_pipeline_def NewStreamPipeline_def zero_metrics_def tally_def)
  show "undisturbed_end sample_finished"
    using sample_finished by (simp add: undisturbed_end_def)
qed



theorem stream_report_complete_witness:
  "case final_report 9 sample_finished of
      Some (model, tokens, ttft, gen, client) \<Rightarrow>
        model = (let m = stream_model (sp_initialModel sample_pipeline) (concat (parsed sample_pipeline [] [sample_chunk]));
                     m = (if m = [] then Model (fst (snd (parse_events [sample_chunk] (sp_parser sample_pipeline, [])))) else m)
                 in if m = [] then ''unknown'' else m)
        \<and> tokens = (if 0 < usage_tokens (concat (parsed sample_pipeline [] [sample_chunk]))
                     then usage_tokens (concat (parsed sample_pipeline [] [sample_chunk]))
                     else wrap64 (total_of tokens_in (concat (parsed sample_pipeline [] [sample_chunk]))))
    | None \<Rightarrow> total_of tokens_in (concat (parsed sample_pipeline [] [sample_chunk])) = 0
        \<and> usage_tokens (concat (parsed sample_pipeline [] [sample_chunk])) \<le> 0"
  by (rule stream_report_complete [OF sample_stream])

theorem written_is_flushed_witness: "rn_visible sample_finished = length (rn_sent sample_finished)"
  by (rule written_is_flushed [OF sample_stream(1,2)]) (simp_all add: sample_finished(3,4))

end
