(* ===== verification/Transparency.thy ===== *)
theory Transparency
  imports Parser_Laws Schedule Metadata_Trip
begin

text \<open>
  The proxy as a whole, for chat streams: what merging does to segments that can be written, and what a
  client obtains that parses the proxy's output, compared with what the upstream sent.
\<close>

declare decode_rune.simps [simp del]

section \<open>Merged segments can be written\<close>

lemma valid_utf8_append: "valid_utf8 s \<Longrightarrow> valid_utf8 (s @ t) = valid_utf8 t"
proof (induction s rule: valid_utf8.induct)
  case (1 s)
  show ?case
  proof (cases s)
    case Nil
    then show ?thesis by simp
  next
    case (Cons c u)
    have g: "good_rune s" and v: "valid_utf8 (drop (snd (decode_rune s)) s)"
      using 1(2) Cons by (subst (asm) valid_utf8.simps, simp split: if_splits)+
    have d: "decode_rune (s @ t) = decode_rune s" and w: "snd (decode_rune s) \<le> length s"
    proof -
      show "decode_rune (s @ t) = decode_rune s"
      proof (cases "byte c < 128")
        case False
        have "decode_rune (take (snd (decode_rune s)) s @ drop (snd (decode_rune s)) s @ t) = decode_rune s"
          by (rule good_rune_wide(3) [OF g Cons False])
        then show ?thesis by (simp flip: append_assoc)
      qed (simp add: Cons)
      show "snd (decode_rune s) \<le> length s" using decode_rune_width [of s] Cons by simp
    qed
    have "good_rune (s @ t)" using g d by (simp add: good_rune_def Cons)
    then have "valid_utf8 (s @ t) = valid_utf8 (drop (snd (decode_rune s)) s @ t)"
      unfolding valid_utf8.simps [of "s @ t"] d using Cons w by (simp only: drop_append) simp
    also have "\<dots> = valid_utf8 t" by (rule 1(1) [OF _ g v]) (simp add: Cons)
    finally show ?thesis .
  qed
qed

lemma valid_merge_name: "valid_utf8 e \<Longrightarrow> valid_utf8 c \<Longrightarrow> valid_utf8 (merge_name e c)"
  by (simp add: merge_name_def valid_utf8_append)

lemma call_ok_merge: "call_ok e \<Longrightarrow> call_ok c \<Longrightarrow> call_ok (merge_call e c) \<and> tc_Index (merge_call e c) = tc_Index e"
  by (simp add: call_ok_def merge_call_def Let_def valid_merge_name valid_utf8_append)

lemma tool_clean_merge:
  assumes "tool_clean a" "tool_clean b" "tool_Merge a b = Some t"
  shows "tool_clean t" "ts_Metadata t = ts_Metadata a"
proof -
  have ok: "tool_ok a" "tool_ok b" using assms(1,2) by (simp_all add: tool_clean_def)
  obtain t' where t': "tool_Merge a b = Some t'" "\<And>i. call_at t' i = join_call (call_at a i) (call_at b i)"
    "ts_Order t' = ts_Order a @ filter (\<lambda>i. call_at a i = None) (ts_Order b)"
    "ts_ChoiceIndex t' = ts_ChoiceIndex a" "ts_Metadata t' = ts_Metadata a"
    using tool_Merge_spec [OF ok(2), of a] by blast
  then have t: "t' = t" using assms(3) by simp
  note tok = tool_Merge_ok [OF ok assms(3)]
  have at: "tc_Index c = i \<and> call_ok c" if "call_at s i = Some c" "tool_clean s" for s i c
    using map_of_SomeD [OF that(1)] that(2) by (auto simp: tool_clean_def list_all_iff)
  have "tc_Index c = i \<and> call_ok c" if "(i, c) \<in> set (ts_Calls t)" for i c
  proof -
    have "call_at t i = Some c" using that tok by (auto simp: tool_ok_def)
    then have "join_call (call_at a i) (call_at b i) = Some c" using t'(2) t by simp
    then consider "call_at a i = Some c" | "call_at b i = Some c"
      | e x where "call_at a i = Some e" "call_at b i = Some x" "c = merge_call e x"
      by (cases "call_at a i"; cases "call_at b i") simp_all
    then show ?thesis
    proof cases
      case 3
      with at [OF 3(1) assms(1)] at [OF 3(2) assms(2)] call_ok_merge [of e x] show ?thesis by simp
    qed (use at assms(1,2) in blast)+
  qed
  then show "tool_clean t" "ts_Metadata t = ts_Metadata a"
    using tok t' t assms(1) by (auto simp: tool_clean_def list_all_iff)
qed

lemma merged_clean:
  assumes "clean_segment s" "clean_segment n" "CanMerge s n" "merged s n = Some s'"
  shows "clean_segment s' \<and> seg_meta s' = seg_meta s \<and> is_raw s' = is_raw s"
  using assms(3)
proof (cases rule: CanMerge_cases)
  case (tool a b)
  with assms obtain t where t: "tool_Merge a b = Some t" "s' = ToolCall t" by auto
  with tool_clean_merge [OF _ _ t(1)] tool assms(1,2) show ?thesis by (simp add: is_raw_def)
qed (use assms in \<open>auto simp: reasoning_Merge_def content_Merge_def valid_utf8_append is_raw_def\<close>)

lemma clean_ok: "clean_segment s \<Longrightarrow> segment_ok s"
  by (cases s) (simp_all add: tool_clean_def)

lemma carriable_ok: "carriable s h now seg \<Longrightarrow> segment_ok seg"
  by (simp add: carriable_def clean_ok)

lemma merged_carriable:
  assumes "carriable s h now a" "carriable s h now b" "CanMerge a b" "merged a b = Some a'"
  shows "carriable s h now a'"
  using assms merged_clean [OF _ _ assms(3,4)] by (auto simp: carriable_def)

text \<open>What holds of the pushed elements and is kept by merging holds of what is gathered.\<close>

lemma gathered_closed:
  assumes keep: "\<And>a b a'. P a \<Longrightarrow> P b \<Longrightarrow> CanMerge a b \<Longrightarrow> merged a b = Some a' \<Longrightarrow> P a'"
    and ok: "\<And>a. P a \<Longrightarrow> segment_ok a"
  shows "gathered CanMerge merged out sent \<Longrightarrow> list_all P sent \<Longrightarrow> list_all P out"
proof (induction rule: gathered.induct)
  case (gathered_push us xs sent seg ys)
  then have c: "list_all P us" "list_all P xs" "P seg" by simp_all
  then have "list_all segment_ok xs" "segment_ok seg" using ok by (auto simp: list_all_iff)
  with gathered_push.hyps(2) show ?case
  proof (cases rule: seg.push_cases)
    case (joined zs l l')
    with c keep [of l seg l'] show ?thesis by simp
  next
    case queued
    with c show ?thesis by simp
  qed
qed simp

lemma gathered_carriable:
  "gathered CanMerge merged out sent \<Longrightarrow> list_all (carriable s h now) sent \<Longrightarrow> list_all (carriable s h now) out"
  by (rule gathered_closed) (use merged_carriable carriable_ok in blast)+

lemma gathered_clean:
  "gathered CanMerge merged out sent \<Longrightarrow> list_all clean_segment sent \<Longrightarrow> list_all clean_segment out"
  by (rule gathered_closed) (use merged_clean clean_ok in blast)+

section \<open>Merging announces no role twice\<close>

lemma news_last_role: "news seen (xs @ [Role v]) = AList.update (ro_ChoiceIndex v) (ro_Role v) (news seen xs)"
  by (simp add: news_append)

lemma roleless_snoc:
  "roleless l \<Longrightarrow> announced seen (xs @ [l]) = announced seen xs \<and> news seen (xs @ [l]) = news seen xs"
  by (cases l) (simp_all add: announced_append news_append)

lemma gathered_announced:
  "gathered CanMerge merged out sent \<Longrightarrow> list_all segment_ok sent \<Longrightarrow> announced seen sent \<Longrightarrow>
   list_all segment_ok out \<and> announced seen out \<and> news seen out = news seen sent"
proof (induction rule: gathered.induct)
  case (gathered_push us xs sent s ys)
  then have ok: "list_all segment_ok xs" "segment_ok s" "list_all segment_ok us"
    and a: "announced seen (us @ xs)" "news seen (us @ xs) = news seen sent" "fresh_role (news seen sent) s"
    by (simp_all add: announced_append)
  show ?case
  proof (cases rule: seg.push_cases [OF gathered_push.hyps(2) ok(1,2)])
    case (1 zs l l')
    have "segment_ok l'" using merged_ok [OF 1(5) ok(2) 1(2,3)] .
    moreover have "roleless l \<and> roleless s \<and> roleless l'"
      using 1(2)
    proof (cases rule: CanMerge_cases)
      case (role v w)
      have "news seen (us @ xs) = AList.update (ro_ChoiceIndex v) (ro_Role v) (news seen (us @ zs))"
        using news_last_role [of seen "us @ zs" v] by (simp add: 1(1) role)
      then have "\<not> fresh_role (news seen (us @ xs)) s" using role by (simp add: role_CanMerge_def)
      with a(2,3) show ?thesis by simp
    qed (use 1(3) in auto)
    ultimately show ?thesis
      using 1(1,4) a(1,2) ok roleless_snoc [of l seen "us @ zs"] roleless_snoc [of l' seen "us @ zs"]
        roleless_snoc [of s seen sent]
      by simp
  next
    case 2
    with a ok show ?thesis by (simp add: announced_append news_append)
  qed
qed simp

section \<open>What a stream says\<close>

lemma canon_canon: "canon (canon v) = canon v"
proof (induction v)
  case (GObj kvs)
  let ?g = "\<lambda>(k, v). (k, canon v)"
  have c: "canon (GObj xs) = GObj (map ?g (sort_key fst xs))" for xs
    unfolding canon.simps(2) sort_key_map_snd ..
  have "map ?g (map ?g (sort_key fst kvs)) = map ?g (sort_key fst kvs)"
    using GObj by fastforce
  moreover have "sort_key fst (sort_key fst kvs) = sort_key fst kvs"
    by (rule sort_key_id_if_sorted) simp
  ultimately show ?case unfolding c sort_key_map_snd by simp
qed (auto simp: comp_def)

text \<open>An atom without the metadata its segment came with, maps in the order of their keys.\<close>

fun forget :: "atom \<Rightarrow> atom" where
  "forget (Whole seg) = Whole (reread zero_meta seg)"
| "forget a = a"

definition substance :: "int \<Rightarrow> segment list \<Rightarrow> atom list" where
  "substance i segs = map forget (carried i segs)"

lemma is_mark_forget [simp]: "is_mark (forget a) = is_mark a"
  by (cases a) simp_all

lemma forget_mark: "is_mark a \<Longrightarrow> forget a = forget b \<longleftrightarrow> a = b"
  by (cases a; cases b) simp_all

lemma map_forget_collapse: "map forget (collapse xs) = collapse (map forget xs)"
  by (induction xs rule: collapse.induct) (auto simp: forget_mark)

lemma calls_under_index:
  assumes "tool_clean t"
  shows "map_of (map (\<lambda>c. (tc_Index c, c)) (calls_in_order t)) i = call_at t i"
proof -
  note co = calls_in_order [OF assms]
  let ?m = "map (\<lambda>c. (tc_Index c, c)) (calls_in_order t)"
  have ok: "tool_ok t" using assms by (simp add: tool_clean_def)
  have fst_m: "map fst ?m = ts_Order t" using co(3) by (simp add: comp_def)
  show ?thesis
  proof (cases "i \<in> set (ts_Order t)")
    case True
    then obtain c where c: "call_at t i = Some c" using map_of_tool_ok [OF ok] by blast
    have "c \<in> set (calls_in_order t)" using True c by (force simp: calls_in_order_def)
    moreover have "tc_Index c = i" using map_of_SomeD [OF c] assms by (auto simp: tool_clean_def list_all_iff)
    ultimately have "(i, c) \<in> set ?m" by force
    moreover have "distinct (map fst ?m)" using fst_m ok by (simp add: tool_ok_def)
    ultimately show ?thesis using c by simp
  next
    case False
    have "fst ` set ?m = set (ts_Order t)" unfolding fst_m [symmetric] by (simp only: set_map)
    then have "map_of ?m i = None" using False unfolding map_of_eq_None_iff by blast
    then show ?thesis using map_of_tool_ok [OF ok, of i] False by simp
  qed
qed

lemma view_reread:
  assumes "clean_segment seg"
  shows "map forget (view i (reread m seg)) = map forget (view i seg)"
  using assms by (cases seg) (simp_all add: calls_under_index canon_canon split: option.split)

lemma substance_unfold: "substance i segs = collapse (concat (map (\<lambda>s. map forget (view i s)) segs))"
  by (simp add: substance_def carried_def map_forget_collapse map_concat comp_def)

lemma substance_back:
  assumes "list_all2 one_back segs gots" "list_all clean_segment segs"
  shows "substance i (concat gots) = substance i segs"
proof -
  have "concat (map (\<lambda>s. map forget (view i s)) (concat gots)) = concat (map (\<lambda>s. map forget (view i s)) segs)"
    using assms by (induction rule: list_all2_induct) (auto simp: one_back_def view_reread)
  then show ?thesis by (simp add: substance_unfold)
qed

section \<open>The proxy is transparent\<close>

text \<open>The writer serializes each segment in the environment (heap, time) of its moment.\<close>

definition env_ok :: "serializer \<Rightarrow> segment list \<Rightarrow> heap \<times> int \<Rightarrow> bool" where
  "env_ok s segs e \<longleftrightarrow> list_all (carriable s (fst e) (snd e)) segs"

lemma all_carriable_zip:
  assumes "gathered CanMerge merged out sent" "list_all (env_ok s sent) envs" "length envs = length out"
  shows "all_carriable s (zip envs out)"
proof -
  have "carriable s (fst e) (snd e) seg" if "(e, seg) \<in> set (zip envs out)" for e seg
  proof -
    have "env_ok s sent e" using assms(2) set_zip_leftD [OF that] by (simp add: list_all_iff)
    then have "list_all (carriable s (fst e) (snd e)) out"
      using gathered_carriable [OF assms(1)] by (simp add: env_ok_def)
    then show ?thesis using set_zip_rightD [OF that] by (simp add: list_all_iff)
  qed
  then show ?thesis by (auto simp: all_carriable_def list_all_iff)
qed

text \<open>
  What is gathered from a stream's segments is serialized without a panic, and a client that parses the
  output obtains the substance of the stream.
\<close>

lemma transparent_output:
  assumes "list_all clean_segment segs" "announced [] segs" "gathered CanMerge merged out segs"
    and "list_all (env_ok s segs) envs" "length envs = length out"
    and "ps_seenRoles client = []" "ps_protocol client = ProtocolChatCompletions"
  shows "\<exists>outs. serialize_all s (zip envs out) = Some outs
    \<and> substance i (concat (fst (parse_events (scan_all e (lines_of (concat outs))) (client, [])))) = substance i segs"
proof -
  have ok: "list_all segment_ok segs" using assms(1) clean_ok by (auto simp: list_all_iff)
  have snd_zip: "map snd (zip envs out) = out" using assms(5) by simp
  have c: "list_all clean_segment out" using assms(3,1) by (rule gathered_clean)
  obtain outs where outs: "serialize_all s (zip envs out) = Some outs"
    "list_all2 one_back out (fst (parse_events (scan_all e (lines_of (concat outs))) (client, [])))"
    using stream_comes_back [OF all_carriable_zip [OF assms(3-5)], of client e "[]"] snd_zip
      gathered_announced [OF assms(3) ok assms(2)] assms(6,7) by auto
  have "substance i out = substance i segs"
    using gathered_carried [OF assms(3) ok] by (simp add: substance_def)
  with outs substance_back [OF outs(2) c] show ?thesis by (intro exI [of _ outs]) simp
qed

end
