(* ===== verification/Pipeline_Transparency.thy ===== *)
theory Pipeline_Transparency
  imports Pipeline_Laws Transparency
begin

text \<open>
  The end-to-end property of a chat stream, from the bytes of the upstream to the bytes the client gets:
  what \<open>ProcessStream\<close> has written is the serialization of the segments it has passed on, each with the
  shared map of extra fields as it was at some moment of the stream.
\<close>

section \<open>What has been written\<close>

definition heap_after :: "stream_pipeline \<Rightarrow> heap \<Rightarrow> event list \<Rightarrow> heap" where
  "heap_after p h evs = snd (snd (parse_events evs (sp_parser p, h)))"

definition sent_ok :: "stream_pipeline \<Rightarrow> heap \<Rightarrow> event list \<Rightarrow> stream_run \<Rightarrow> bool" where
  "sent_ok p h evs r \<longleftrightarrow> sp_serializer (rn_pipe r) = sp_serializer p
     \<and> (\<exists>envs. length envs = length (ex_out (rn_ex r))
          \<and> serialize_all (sp_serializer p) (zip envs (ex_out (rn_ex r))) = Some (rn_sent r)
          \<and> list_all (\<lambda>env. \<exists>n. fst env = heap_after p h (take n evs)) envs)"

definition writings :: "stream_run \<Rightarrow> serializer \<times> segment list \<times> bytes list" where
  "writings r = (sp_serializer (rn_pipe r), ex_out (rn_ex r), rn_sent r)"

lemma sent_ok_same: "sent_ok p h evs r \<Longrightarrow> writings r' = writings r \<Longrightarrow> sent_ok p h evs r'"
  by (simp add: sent_ok_def writings_def)

lemma writings_kept [simp]:
  "writings (meter f r) = writings r" "writings (reader_defer now r) = writings r"
  "writings (take_event ev rest r) = writings r" "writings (call_packetCb out r) = writings r"
  by (simp_all add: writings_def reader_defer_def take_event_def Let_def on_ex_def split: reader_pc.split prod.split)

lemma writings_count_segment [simp]: "writings (count_segment nows seg r) = writings r"
proof -
  have "ex_out (run_abs (count_segment nows seg r)) = ex_out (run_abs r)" by simp
  then show ?thesis by (simp add: writings_def count_segment_frame run_abs_def)
qed

lemma writings_on_ex: "ex_out (f (rn_ex r)) = ex_out (rn_ex r) \<Longrightarrow> writings (on_ex f r) = writings r"
  by (simp add: writings_def on_ex_def)

lemma those_snoc: "those (xs @ [x]) = (case those xs of None \<Rightarrow> None | Some ys \<Rightarrow> map_option (\<lambda>y. ys @ [y]) x)"
  by (induction xs) (auto split: option.splits simp: option.map_comp comp_def)

lemma sent_write:
  assumes "sent_ok p h evs r" "segment_ok seg" "rn_heap r = heap_after p h (take n evs)"
  shows "sent_ok p h evs (write_segment unix d now fails seg segs closed r)"
  using assms(2)
proof (cases rule: write_segment_cases [where r = r and unix = unix and d = d and now = now and fails = fails
      and segs = segs and closed = closed])
  case (fails out e)
  have "writings (write_segment unix d now (Some e) seg segs closed r) = writings (call_packetCb out r)"
    unfolding fails(3) [unfolded fails(1)] by (rule writings_on_ex) simp
  then show ?thesis using sent_ok_same [OF assms(1)] fails(1) by simp
next
  case (writes out)
  obtain envs where e: "length envs = length (ex_out (rn_ex r))"
    "serialize_all (sp_serializer p) (zip envs (ex_out (rn_ex r))) = Some (rn_sent r)"
    "list_all (\<lambda>env. \<exists>n. fst env = heap_after p h (take n evs)) envs"
    and s: "sp_serializer (rn_pipe r) = sp_serializer p"
    using assms(1) by (auto simp: sent_ok_def)
  let ?r = "write_segment unix d now fails seg segs closed r"
  have w: "sp_serializer (rn_pipe ?r) = sp_serializer p" "ex_out (rn_ex ?r) = ex_out (rn_ex r) @ [seg]"
    "rn_sent ?r = rn_sent r @ [out]"
    unfolding writes(2) by (simp_all add: count_written_def s) (simp_all add: on_ex_def s)
  show ?thesis
    unfolding sent_ok_def w
    using e writes(1) s assms(3)
    by (intro conjI exI [of _ "envs @ [(rn_heap r, unix)]"]) (auto simp: serialize_all_def those_snoc)
qed

lemma sent_step:
  assumes "sent_ok p h evs r" "run_step r r'" "list_all segment_ok (ex_unwritten (rn_ex r))"
    and "\<exists>n. rn_heap r = heap_after p h (take n evs)"
  shows "sent_ok p h evs r'"
  using assms(2)
proof cases
  case (run_write seg segs closed unix d now fails)
  moreover from this assms(3) have "segment_ok seg" by (simp add: ex_unwritten_def)
  ultimately show ?thesis using sent_write [OF assms(1)] assms(4) by blast
next
  case (run_check closed)
  then show ?thesis
    by (intro sent_ok_same [OF assms(1)]) (simp add: end_snapshot_def writings_def Let_def on_ex_def)
next
  case (run_report segs e clientEnd)
  have "writings (make_report clientEnd r) = writings (meter f r)" for f
    by (simp add: make_report_def Let_def) (simp add: writings_def)
  with run_report show ?thesis by (intro sent_ok_same [OF assms(1)]) simp
qed (auto intro!: sent_ok_same [OF assms(1)] writings_on_ex simp: reader_close_def writings_on_ex)

lemma books_heap:
  assumes "books_ok p h evs r"
  shows "\<exists>n. rn_heap r = heap_after p h (take n evs)"
  using assms
proof (rule books_okE)
  fix read ls
  assume "evs = read @ rn_events r" "parse_events read (sp_parser p, h) = (ls, sp_parser (rn_pipe r), rn_heap r)"
  then have "rn_heap r = heap_after p h (take (length read) evs)" by (simp add: heap_after_def)
  then show ?thesis by blast
qed

lemma sent_reachable:
  assumes "reaches p h evs e r" "list_all int64_range (tally (sp_metrics p))"
  shows "sent_ok p h evs r"
  using assms(1)
proof (induction rule: reaches_induct)
  case (start flusher now)
  show ?case by (simp add: sent_ok_def start_stream_def ex_init_def serialize_all_def)
next
  case (step r r')
  have "list_all segment_ok (ex_unwritten (rn_ex r))"
    using reaches_sched(2) [OF step(1)] by (simp add: ex_unwritten_def run_abs_sel)
  then show ?case using sent_step [OF step(4,3)] books_heap [OF books_reachable [OF step(1) assms(2)]] by blast
qed

section \<open>The proxy is transparent\<close>

text \<open>
  A stream that the chat format can carry: its segments are clean, and at every moment the metadata of
  each of them, with the shared map as it is then, can be written.
\<close>

definition stream_clean :: "stream_pipeline \<Rightarrow> event list \<Rightarrow> bool" where
  "stream_clean p evs \<longleftrightarrow> list_all clean_segment (concat (parsed p [] evs))
     \<and> valid_utf8 (modelOverride (sp_serializer p))
     \<and> list_all (\<lambda>n. list_all (\<lambda>seg. meta_clean (heap_after p [] (take n evs)) (seg_meta seg))
          (concat (parsed p [] evs))) [0..<Suc (length evs)]"

lemma stream_clean_env:
  assumes "stream_clean p evs"
  shows "env_ok (sp_serializer p) (concat (parsed p [] evs)) (heap_after p [] (take n evs), unix)"
proof -
  have "take n evs = take (min n (length evs)) evs" "min n (length evs) \<in> set [0..<Suc (length evs)]"
    by (auto simp: min_def)
  then have "list_all (\<lambda>seg. meta_clean (heap_after p [] (take n evs)) (seg_meta seg)) (concat (parsed p [] evs))"
    using assms by (simp only: stream_clean_def list_all_iff [of _ "[0..<Suc (length evs)]"])
  with assms base_ok_baseMap show ?thesis
    by (auto simp: env_ok_def carriable_def stream_clean_def list_all_iff)
qed

lemma undisturbed_gathered:
  assumes "reaches p h evs e r" "undisturbed_end r"
  shows "gathered CanMerge merged (ex_out (rn_ex r)) (concat (parsed p h evs))"
proof -
  have ok: "list_all segment_ok (concat (parsed p h evs))" using assms(1) by (simp add: reaches_def)
  note reach = reaches_abs [OF assms(1)]
  have "calm (run_abs r)" by (rule calm_reachable [OF reach ok])
  then have "ex_unsent (run_abs r) = []" "ex_unwritten (run_abs r) = []" "pb_segments (ex_buf (run_abs r)) = []"
    using assms(2) by (simp_all add: calm_def undisturbed_end_def run_abs_sel ex_unsent_def ex_unwritten_def)
  with flow_ok_reachable [OF reach ok] show ?thesis by (simp add: flow_ok_def run_abs_def)
qed

lemma stream_transparent:
  assumes "run_step\<^sup>*\<^sup>* (start_stream p [] (scan_all EOF (lines_of upstream)) EOF flusher now) r"
    and "sp_parser p = SetProtocol ProtocolChatCompletions (NewParser t0)"
    and "stream_clean p (scan_all EOF (lines_of upstream))" "list_all int64_range (tally (sp_metrics p))"
    and "undisturbed_end r"
  shows "substance i (concat (fst (parse_events (scan_all EOF (lines_of (concat (rn_sent r))))
             (SetProtocol ProtocolChatCompletions (NewParser t1), []))))
       = substance i (concat (parsed p [] (scan_all EOF (lines_of upstream))))"
proof -
  let ?evs = "scan_all EOF (lines_of upstream)"
  let ?segs = "concat (parsed p [] ?evs)"
  let ?client = "SetProtocol ProtocolChatCompletions (NewParser t1)"
  have clean: "list_all clean_segment ?segs" using assms(3) by (simp add: stream_clean_def)
  then have "list_all segment_ok ?segs" using clean_ok by (auto simp: list_all_iff)
  with assms(1) have reach: "reaches p [] ?evs EOF r" by (auto simp: reaches_def)
  have "ps_seenRoles (sp_parser p) = []" by (simp add: assms(2) SetProtocol_def NewParser_def)
  then have ann: "announced [] ?segs" using announced_parsed [of "sp_parser p" ?evs "[]"] by (simp add: parsed_def)
  obtain envs where envs: "length envs = length (ex_out (rn_ex r))"
    "serialize_all (sp_serializer p) (zip envs (ex_out (rn_ex r))) = Some (rn_sent r)"
    "list_all (\<lambda>env. \<exists>n. fst env = heap_after p [] (take n ?evs)) envs"
    using sent_reachable [OF reach assms(4)] by (auto simp: sent_ok_def)
  have "list_all (env_ok (sp_serializer p) ?segs) envs"
    using envs(3) stream_clean_env [OF assms(3)] by (fastforce simp: list_all_iff)
  from transparent_output [OF clean ann undisturbed_gathered [OF reach assms(5)] this envs(1), of ?client i EOF]
    envs(2)
  show ?thesis by (simp add: SetProtocol_def NewParser_def)
qed


section \<open>A witness\<close>

definition sample_upstream :: bytes where
  "sample_upstream = EncodeData (ev_Data sample_chunk)"

lemma sample_events: "scan_all EOF (lines_of sample_upstream) = [sample_chunk]"
  by code_simp

lemma sample_heap: "heap_after sample_pipeline [] [sample_chunk] = []"
  by code_simp

lemma sample_clean: "stream_clean sample_pipeline [sample_chunk]"
proof -
  have "heap_after sample_pipeline [] (take n [sample_chunk]) = []" for n
    by (cases n) (simp_all only: take_0 take_Suc_Cons take_Nil sample_heap, simp add: heap_after_def)
  moreover have "meta_clean [] (zero_meta\<lparr>md_Created := 3\<rparr>)"
    by (simp add: meta_clean_def zero_meta_def heap_get_def)
  moreover have "modelOverride (sp_serializer sample_pipeline) = []"
    by (simp add: sample_pipeline_def SetProtocol_pipeline_def NewStreamPipeline_def NewSerializer_def)
  ultimately show ?thesis
    unfolding stream_clean_def parsed_def sample_segments by (simp add: list_all_iff)
qed


end
