(* ===== verification/Responses_Trip.thy ===== *)
theory Responses_Trip
  imports Metadata_Trip
begin

text \<open>
  Responses API deltas, written by the serializer and read by a parser, and the events of both protocols
  that are passed on as they came.
\<close>

section \<open>Members of a written delta\<close>

lemma get_string_written:
  assumes "writable_to 10000 (GObj R)" "map_of R k = Some (GStr v)" "valid_utf8 v"
  shows "get_string (written R) k = v"
  using assms(2,3) by (simp add: get_string_def um_map_raw_written(2) [OF assms(1)] um_jtext_string)

lemma get_string_absent:
  "writable_to 10000 (GObj R) \<Longrightarrow> map_of R k = None \<Longrightarrow> get_string (written R) k = []"
  by (simp add: get_string_def um_map_raw_written(2))

lemma get_string_optional:
  assumes "writable_to 10000 (GObj R)" "map_of R k = (if v \<noteq> [] then Some (GStr v) else None)" "valid_utf8 v"
  shows "get_string (written R) k = v"
  using assms get_string_written [of R k v] get_string_absent [of R k] by (cases "v = []") simp_all

lemma get_int_written:
  assumes "writable_to 10000 (GObj R)" "map_of R k = Some (GInt i)" "int64_range i"
  shows "get_int (written R) k = i"
  using assms(2,3) by (simp add: get_int_def um_map_raw_written(2) [OF assms(1)] um_jtext_int)

definition opt_range :: "int option \<Rightarrow> bool" where
  "opt_range i \<longleftrightarrow> (case i of Some x \<Rightarrow> int64_range x | None \<Rightarrow> True)"

lemma get_int_ptr_written:
  assumes "writable_to 10000 (GObj R)" "map_of R k = map_option GInt i" "opt_range i"
  shows "get_int_ptr (written R) k = i"
  using assms(2,3) by (cases i) (simp_all add: opt_range_def get_int_ptr_def um_map_raw_written(2) [OF assms(1)] um_jtext_int)

text \<open>Extra fields that can be written beside the keys of their event.\<close>

definition extra_clean :: "bytes list \<Rightarrow> gomap \<Rightarrow> bool" where
  "extra_clean known x \<longleftrightarrow> distinct (map fst x)
     \<and> list_all (\<lambda>(k, v). k \<notin> set known \<and> k \<noteq> ''error'' \<and> valid_utf8 k \<and> writable_to 9999 v \<and> from_json v) x"

lemma extra_clean_absent:
  "extra_clean known x \<Longrightarrow> k \<in> set known \<or> k = ''error'' \<Longrightarrow> map_of x k = None"
  by (force simp: extra_clean_def list_all_iff map_of_eq_None_iff)

lemma map_of_collect_extra:
  assumes "distinct (map fst root)"
  shows "map_of (collect_extra known root) k = (if k \<in> set known then None else Option.bind (map_of root k) um_any)"
proof -
  let ?f = "\<lambda>(k, raw) m. if k \<in> set known then m
        else (case um_any raw of Some v \<Rightarrow> AList.update k v m | None \<Rightarrow> m)"
  have "map_of (fold ?f root m) k =
      (case (if k \<in> set known then None else Option.bind (map_of root k) um_any) of
         Some v \<Rightarrow> Some v | None \<Rightarrow> map_of m k)" for m
    using assms
  proof (induction root arbitrary: m)
    case (Cons kr root)
    obtain k' raw where kr: "kr = (k', raw)" by (cases kr)
    have fresh: "map_of root k' = None" using Cons.prems by (simp add: kr map_of_eq_None_iff)
    show ?case
      using fresh Cons.IH Cons.prems by (auto simp: kr split: option.splits)
  qed simp
  from this [of "[]"] show ?thesis unfolding collect_extra_def by (auto split: option.split)
qed

lemma collect_extra_written:
  assumes w: "writable_to 10000 (GObj R)" and "extra_clean known x"
    and R: "\<And>k. k \<notin> set known \<Longrightarrow> map_of R k = map_of x k"
  shows "map_of (collect_extra known (written R)) = map_option canon \<circ> map_of x"
proof
  fix k
  have d: "distinct (map fst (written R))" using w by (intro written_distinct) (simp add: writable_to_def)
  show "map_of (collect_extra known (written R)) k = (map_option canon \<circ> map_of x) k"
  proof (cases "map_of x k")
    case None
    then show ?thesis
      using R by (simp add: map_of_collect_extra [OF d] um_map_raw_written(2) [OF w])
  next
    case (Some v)
    then have "k \<notin> set known" "writable_to 9999 v" "from_json v"
      using map_of_SomeD [OF Some] assms(2) by (auto simp: extra_clean_def list_all_iff)
    moreover from this have "um_any (jtext v) = Some (canon v)"
      by (intro um_any_jtext) (simp_all add: writable_to_def)
    ultimately show ?thesis
      using R Some by (simp add: map_of_collect_extra [OF d] um_map_raw_written(2) [OF w])
  qed
qed

text \<open>A root is built key by key.\<close>

lemma writable_root_put:
  "writable_to 10000 (GObj m) \<Longrightarrow> valid_utf8 k \<Longrightarrow> writable_to 9999 v \<Longrightarrow> writable_to 10000 (GObj (put k v m))"
  using writable_put [of 9999 m k v] by simp

lemma writable_root_optional:
  "writable_to 10000 (GObj m) \<Longrightarrow> valid_utf8 k \<Longrightarrow> valid_utf8 s \<Longrightarrow> writable_to 10000 (GObj (put_string k s m))"
  "writable_to 10000 (GObj m) \<Longrightarrow> valid_utf8 k \<Longrightarrow> writable_to 10000 (GObj (put_int_ptr k i m))"
  by (simp_all add: put_string_def put_int_ptr_def writable_root_put split: option.split)

lemma writable_root_extra:
  assumes "extra_clean known x"
  shows "writable_to 10000 (GObj (put_all [] x))"
proof -
  have "list_all (\<lambda>(k, v). valid_utf8 k \<and> writable_to 9999 v) x"
    using assms by (auto simp: extra_clean_def list_all_iff)
  moreover have "writable_to (Suc 9999) (GObj [])" by (simp add: writable_to_def)
  ultimately show ?thesis using writable_put_all [of 9999 "[]" x] by simp
qed

lemmas writable_root = writable_root_put writable_root_optional writable_root_extra

lemma map_of_put_extra: "extra_clean known x \<Longrightarrow> map_of (put_all [] x) = map_of x"
  by (simp add: map_of_put_all extra_clean_def)

section \<open>Delta events\<close>

definition delta_event :: "bytes \<Rightarrow> bytes \<Rightarrow> gomap \<Rightarrow> event" where
  "delta_event ty i m = \<lparr>ev_Type = ty, ev_Data = jtext (GObj m), ev_ID = i, ev_Raw = []\<rparr>"

lemma encode_delta_written:
  assumes "writable_to 10000 (GObj m)" "clean_line ty" "clean_line i"
  shows "encode_delta ty i m = EncodeEvent (delta_event ty i m)" "encodable (delta_event ty i m)"
proof -
  have w: "writable (GObj m)" using assms(1) by (simp only: writable_to_def)
  then show "encode_delta ty i m = EncodeEvent (delta_event ty i m)"
    by (simp add: encode_delta_def delta_event_def marshal_or_nil_jtext)
  show "encodable (delta_event ty i m)"
    using printable_clean [OF jtext_printable [OF w]] assms(2,3)
    by (simp add: encodable_def delta_event_def)
qed

lemma parse_delta_event:
  assumes "writable_to 10000 (GObj m)" "ps_protocol p \<noteq> ProtocolChatCompletions"
    "has_prefix ty response_prefix"
  shows "ParseEvent (delta_event ty i m) (p, h)
    = (let (seg, p) = parse_responses_root (delta_event ty i m) (jtext (GObj m)) (written m) p in ([seg], p, h))"
proof -
  have "writable (GObj m)" using assms(1) by (simp only: writable_to_def)
  note t = trim_jtext_object [OF this]
  have "isResponsesEvent (delta_event ty i m)" using assms(3) by (simp add: isResponsesEvent_def delta_event_def)
  then have "ParseEvent (delta_event ty i m) (p, h) = parseResponsesEvent (delta_event ty i m) (p, h)"
    using assms(2) by (simp add: ParseEvent_def split: protocol.split)
  then show ?thesis
    using t um_map_raw_written(1) [OF assms(1)] by (simp add: parseResponsesEvent_def delta_event_def Let_def)
qed

lemma delta_types:
  "ty \<in> set text_types \<union> set reasoning_types \<union> set tool_types \<Longrightarrow>
   has_prefix ty response_prefix \<and> clean_line ty \<and> valid_utf8 ty \<and> ty \<noteq> [] \<and> ty \<noteq> ''error'' \<and> ty \<noteq> ''response.failed''"
  by (auto simp: text_types_def reasoning_types_def tool_types_def has_prefix_def response_prefix_def clean_line_def)

lemma delta_types_disjoint:
  "ty \<in> set reasoning_types \<Longrightarrow> ty \<notin> set text_types"
  "ty \<in> set tool_types \<Longrightarrow> ty \<notin> set text_types \<and> ty \<notin> set reasoning_types"
  by (auto simp: text_types_def reasoning_types_def tool_types_def)

definition delta_segment :: "bytes \<Rightarrow> event \<Rightarrow> raw_map \<Rightarrow> common_metadata \<Rightarrow> segment" where
  "delta_segment ty ev root m =
     (if ty \<in> set text_types then ResponseText (text_segment ty ev root m)
      else if ty \<in> set reasoning_types then ResponseReasoning (reasoning_segment_of ty ev root m)
      else ResponseTool (tool_segment_of ty ev root m))"

lemma parse_responses_delta:
  assumes "writable_to 10000 (GObj R)" "ps_protocol p \<noteq> ProtocolChatCompletions" "map_of R ''error'' = None"
    "ty \<in> set text_types \<union> set reasoning_types \<union> set tool_types"
  obtains q where "ParseEvent (delta_event ty i R) (p, h)
    = ([delta_segment ty (delta_event ty i R) (written R) (ps_meta q)], q, h)"
proof
  note ty = delta_types [OF assms(4)]
  let ?q = "p\<lparr>ps_meta := extractResponsesMetadata (written R) (ps_meta p)\<rparr>"
  have "map_of (written R) ''error'' = None" by (simp add: um_map_raw_written(2) [OF assms(1)] assms(3))
  then show "ParseEvent (delta_event ty i R) (p, h)
    = ([delta_segment ty (delta_event ty i R) (written R) (ps_meta ?q)], ?q, h)"
    using parse_delta_event [OF assms(1,2), of ty] ty assms(4)
    by (auto simp: parse_responses_root_def responses_type_def delta_event_def Let_def delta_segment_def)
qed

lemma valid_utf8_delta_keys [simp]:
  "valid_utf8 ''item_id''" "valid_utf8 ''output_index''" "valid_utf8 ''content_index''" "valid_utf8 ''summary_index''"
  "valid_utf8 ''sequence_number''" "valid_utf8 ''response_id''" "valid_utf8 ''logprobs''" "valid_utf8 ''call_id''"
  by simp_all

section \<open>Text deltas\<close>

definition text_clean :: "response_text_segment \<Rightarrow> bool" where
  "text_clean v \<longleftrightarrow> rt_EventType v \<in> set text_types \<and> clean_line (rt_SSEID v)
     \<and> valid_utf8 (rt_ResponseID v) \<and> valid_utf8 (rt_ItemID v) \<and> valid_utf8 (rt_Delta v)
     \<and> int64_range (rt_OutputIndex v) \<and> int64_range (rt_ContentIndex v) \<and> int64_range (rt_SequenceNumber v)
     \<and> extra_clean text_known (rt_Extra v)
     \<and> (if rt_HasLogprobs v
         then (case rt_Logprobs v of Some vs \<Rightarrow> writable_to 9999 (GArr vs) \<and> from_json (GArr vs) | None \<Rightarrow> True)
         else rt_Logprobs v = None)"

definition text_map :: "response_text_segment \<Rightarrow> gomap" where
  "text_map seg =
     (let m = put_all [] (rt_Extra seg);
          m = put ''type'' (GStr (rt_EventType seg)) m;
          m = put ''item_id'' (GStr (rt_ItemID seg)) m;
          m = put ''output_index'' (GInt (rt_OutputIndex seg)) m;
          m = put ''content_index'' (GInt (rt_ContentIndex seg)) m;
          m = put ''delta'' (GStr (rt_Delta seg)) m;
          m = put ''sequence_number'' (GInt (rt_SequenceNumber seg)) m;
          m = put_string ''response_id'' (rt_ResponseID seg) m
      in if rt_HasLogprobs seg
         then put ''logprobs'' (case rt_Logprobs seg of Some vs \<Rightarrow> GArr vs | None \<Rightarrow> GNil) m else m)"

lemma serialize_text: "serializeResponseTextDelta v = encode_delta (rt_EventType v) (rt_SSEID v) (text_map v)"
  by (simp add: serializeResponseTextDelta_def text_map_def Let_def)

lemma writable_text_map:
  assumes "text_clean v"
  shows "writable_to 10000 (GObj (text_map v))"
proof -
  have ty: "valid_utf8 (rt_EventType v)" using assms delta_types [of "rt_EventType v"] by (simp add: text_clean_def)
  have "extra_clean text_known (rt_Extra v)" using assms by (simp add: text_clean_def)
  then show ?thesis
    using assms ty
    by (cases "rt_HasLogprobs v")
      (auto simp: text_map_def Let_def text_clean_def intro!: writable_root split: option.splits)
qed

lemma text_map_lookup:
  assumes "text_clean v"
  shows "map_of (text_map v) ''item_id'' = Some (GStr (rt_ItemID v))"
    "map_of (text_map v) ''output_index'' = Some (GInt (rt_OutputIndex v))"
    "map_of (text_map v) ''content_index'' = Some (GInt (rt_ContentIndex v))"
    "map_of (text_map v) ''delta'' = Some (GStr (rt_Delta v))"
    "map_of (text_map v) ''sequence_number'' = Some (GInt (rt_SequenceNumber v))"
    "map_of (text_map v) ''response_id'' = (if rt_ResponseID v \<noteq> [] then Some (GStr (rt_ResponseID v)) else None)"
    "map_of (text_map v) ''logprobs'' =
      (if rt_HasLogprobs v then Some (case rt_Logprobs v of Some vs \<Rightarrow> GArr vs | None \<Rightarrow> GNil) else None)"
    "map_of (text_map v) ''error'' = None"
    "k \<notin> set text_known \<Longrightarrow> map_of (text_map v) k = map_of (rt_Extra v) k"
proof -
  have x: "extra_clean text_known (rt_Extra v)" using assms by (simp add: text_clean_def)
  note look = text_map_def Let_def map_of_put_string map_of_put_extra [OF x]
  have n: "map_of (rt_Extra v) k = None" if "k \<in> set text_known \<or> k = ''error''" for k
    using extra_clean_absent [OF x that] .
  show "map_of (text_map v) ''item_id'' = Some (GStr (rt_ItemID v))"
    "map_of (text_map v) ''output_index'' = Some (GInt (rt_OutputIndex v))"
    "map_of (text_map v) ''content_index'' = Some (GInt (rt_ContentIndex v))"
    "map_of (text_map v) ''delta'' = Some (GStr (rt_Delta v))"
    "map_of (text_map v) ''sequence_number'' = Some (GInt (rt_SequenceNumber v))"
    "map_of (text_map v) ''response_id'' = (if rt_ResponseID v \<noteq> [] then Some (GStr (rt_ResponseID v)) else None)"
    "map_of (text_map v) ''error'' = None"
    using n by (simp_all add: look text_known_def)
  show "map_of (text_map v) ''logprobs'' =
      (if rt_HasLogprobs v then Some (case rt_Logprobs v of Some vs \<Rightarrow> GArr vs | None \<Rightarrow> GNil) else None)"
    using n by (simp add: look text_known_def)
  show "map_of (text_map v) k = map_of (rt_Extra v) k" if "k \<notin> set text_known"
    using that by (simp add: look text_known_def)
qed

text \<open>What comes back: the same segment, nested objects in the order of their keys; a nil slice of log
  probabilities is written as \<open>null\<close>, which reads as none.\<close>

definition text_back :: "common_metadata \<Rightarrow> response_text_segment \<Rightarrow> response_text_segment \<Rightarrow> bool" where
  "text_back m v v' \<longleftrightarrow>
     v'\<lparr>rt_Extra := []\<rparr> = v\<lparr>rt_HasLogprobs := rt_Logprobs v \<noteq> None, rt_Logprobs := map_option (map canon) (rt_Logprobs v),
       rt_Extra := [], rt_Metadata := m\<rparr>
     \<and> map_of (rt_Extra v') = map_option canon \<circ> map_of (rt_Extra v)"

lemma logprobs_back:
  assumes "text_clean v"
  shows "get_logprobs (written (text_map v)) = (rt_Logprobs v \<noteq> None, map_option (map canon) (rt_Logprobs v))"
proof (cases "rt_Logprobs v")
  case None
  have "jtext GNil = lit_null"
    by (simp add: jtext_def)
  with None show ?thesis
    by (simp add: get_logprobs_def um_map_raw_written(2) [OF writable_text_map [OF assms]] text_map_lookup(7) [OF assms])
next
  case (Some vs)
  then have vs: "writable (GArr vs)" "gdepth (GArr vs) \<le> 10000" "from_json (GArr vs)" "rt_HasLogprobs v"
    using assms by (auto simp: text_clean_def writable_to_def split: if_splits)
  have "stored_any (jtext (GArr vs)) = canon (GArr vs)"
    using json_parse_jtext [OF vs(1,2)] any_jv [OF vs(1,3)] by (simp only: stored_any_def option.case)
  then have "stored_slice (jtext (GArr vs)) = Some (map canon vs)" by (simp add: stored_slice_def)
  then show ?thesis
    using Some vs(4) jtext_nonempty [OF vs(1)] jtext_not_null [OF vs(1)]
    by (simp add: get_logprobs_def um_map_raw_written(2) [OF writable_text_map [OF assms]] text_map_lookup(7) [OF assms])
qed

lemma text_comes_back:
  assumes "text_clean v" "ps_protocol p \<noteq> ProtocolChatCompletions"
  shows "\<exists>ev p' v'. serializeResponseTextDelta v = EncodeEvent ev \<and> encodable ev
    \<and> ParseEvent ev (p, h) = ([ResponseText v'], p', h) \<and> text_back (ps_meta p') v v'"
proof -
  let ?ty = "rt_EventType v" and ?R = "text_map v"
  let ?ev = "delta_event ?ty (rt_SSEID v) ?R"
  note w = writable_text_map [OF assms(1)]
  note look = text_map_lookup [OF assms(1)]
  have ty: "?ty \<in> set text_types" and i: "clean_line (rt_SSEID v)" using assms(1) by (simp_all add: text_clean_def)
  obtain q where "ParseEvent ?ev (p, h) = ([delta_segment ?ty ?ev (written ?R) (ps_meta q)], q, h)"
    by (rule parse_responses_delta [OF w assms(2) look(8)]) (use ty in blast)
  then have "ParseEvent ?ev (p, h) = ([ResponseText (text_segment ?ty ?ev (written ?R) (ps_meta q))], q, h)"
    using ty by (simp add: delta_segment_def)
  moreover have "text_back (ps_meta q) v (text_segment ?ty ?ev (written ?R) (ps_meta q))"
    unfolding text_back_def
  proof (intro conjI response_text_segment.equality)
    show "map_of (rt_Extra (text_segment ?ty ?ev (written ?R) (ps_meta q))) = map_option canon \<circ> map_of (rt_Extra v)"
      using assms(1) look(9) by (simp add: text_segment_def text_clean_def collect_extra_written [OF w])
  qed (use assms(1) in \<open>simp_all add: text_segment_def text_clean_def delta_event_def logprobs_back
      get_string_written [OF w look(1)] get_int_written [OF w look(2)] get_int_written [OF w look(3)]
      get_string_written [OF w look(4)] get_int_written [OF w look(5)] get_string_optional [OF w look(6)]\<close>)
  ultimately show ?thesis
    using serialize_text encode_delta_written [OF w _ i] delta_types [of ?ty] ty by (metis UnCI)
qed

section \<open>Reasoning deltas\<close>

definition reasoning_clean :: "response_reasoning_segment \<Rightarrow> bool" where
  "reasoning_clean v \<longleftrightarrow> rr_EventType v \<in> set reasoning_types \<and> clean_line (rr_SSEID v)
     \<and> valid_utf8 (rr_ResponseID v) \<and> valid_utf8 (rr_ItemID v) \<and> valid_utf8 (rr_Delta v)
     \<and> int64_range (rr_OutputIndex v) \<and> opt_range (rr_ContentIndex v) \<and> opt_range (rr_SummaryIndex v)
     \<and> int64_range (rr_SequenceNumber v) \<and> extra_clean reasoning_known (rr_Extra v)"

definition reasoning_map :: "response_reasoning_segment \<Rightarrow> gomap" where
  "reasoning_map seg =
     (let m = put_all [] (rr_Extra seg);
          m = put ''type'' (GStr (rr_EventType seg)) m;
          m = put ''item_id'' (GStr (rr_ItemID seg)) m;
          m = put ''output_index'' (GInt (rr_OutputIndex seg)) m;
          m = put_int_ptr ''summary_index'' (rr_SummaryIndex seg) m;
          m = put_int_ptr ''content_index'' (rr_ContentIndex seg) m;
          m = put ''delta'' (GStr (rr_Delta seg)) m;
          m = put ''sequence_number'' (GInt (rr_SequenceNumber seg)) m
      in put_string ''response_id'' (rr_ResponseID seg) m)"

lemma serialize_reasoning:
  "serializeResponseReasoningDelta v = encode_delta (rr_EventType v) (rr_SSEID v) (reasoning_map v)"
  by (simp add: serializeResponseReasoningDelta_def reasoning_map_def Let_def)

lemma writable_reasoning_map:
  assumes "reasoning_clean v"
  shows "writable_to 10000 (GObj (reasoning_map v))"
  using assms delta_types [of "rr_EventType v"]
  by (auto simp: reasoning_map_def Let_def reasoning_clean_def intro!: writable_root)

lemma map_of_put_int_ptr:
  "map_of (put_int_ptr k i m) k' = (if k' = k \<and> i \<noteq> None then map_option GInt i else map_of m k')"
  by (simp add: put_int_ptr_def update_conv' split: option.split)

lemma reasoning_map_lookup:
  assumes "reasoning_clean v"
  shows "map_of (reasoning_map v) ''item_id'' = Some (GStr (rr_ItemID v))"
    "map_of (reasoning_map v) ''output_index'' = Some (GInt (rr_OutputIndex v))"
    "map_of (reasoning_map v) ''summary_index'' = map_option GInt (rr_SummaryIndex v)"
    "map_of (reasoning_map v) ''content_index'' = map_option GInt (rr_ContentIndex v)"
    "map_of (reasoning_map v) ''delta'' = Some (GStr (rr_Delta v))"
    "map_of (reasoning_map v) ''sequence_number'' = Some (GInt (rr_SequenceNumber v))"
    "map_of (reasoning_map v) ''response_id'' = (if rr_ResponseID v \<noteq> [] then Some (GStr (rr_ResponseID v)) else None)"
    "map_of (reasoning_map v) ''error'' = None"
    "k \<notin> set reasoning_known \<Longrightarrow> map_of (reasoning_map v) k = map_of (rr_Extra v) k"
proof -
  have x: "extra_clean reasoning_known (rr_Extra v)" using assms by (simp add: reasoning_clean_def)
  note look = reasoning_map_def Let_def map_of_put_string map_of_put_extra [OF x] map_of_put_int_ptr
  have n: "map_of (rr_Extra v) k = None" if "k \<in> set reasoning_known \<or> k = ''error''" for k
    using extra_clean_absent [OF x that] .
  show "map_of (reasoning_map v) ''item_id'' = Some (GStr (rr_ItemID v))"
    "map_of (reasoning_map v) ''output_index'' = Some (GInt (rr_OutputIndex v))"
    "map_of (reasoning_map v) ''summary_index'' = map_option GInt (rr_SummaryIndex v)"
    "map_of (reasoning_map v) ''content_index'' = map_option GInt (rr_ContentIndex v)"
    "map_of (reasoning_map v) ''delta'' = Some (GStr (rr_Delta v))"
    "map_of (reasoning_map v) ''sequence_number'' = Some (GInt (rr_SequenceNumber v))"
    "map_of (reasoning_map v) ''response_id'' = (if rr_ResponseID v \<noteq> [] then Some (GStr (rr_ResponseID v)) else None)"
    "map_of (reasoning_map v) ''error'' = None"
    using n by (simp_all add: look reasoning_known_def)
  show "map_of (reasoning_map v) k = map_of (rr_Extra v) k" if "k \<notin> set reasoning_known"
    using that by (simp add: look reasoning_known_def)
qed

definition reasoning_back :: "common_metadata \<Rightarrow> response_reasoning_segment \<Rightarrow> response_reasoning_segment \<Rightarrow> bool" where
  "reasoning_back m v v' \<longleftrightarrow> v'\<lparr>rr_Extra := []\<rparr> = v\<lparr>rr_Extra := [], rr_Metadata := m\<rparr>
     \<and> map_of (rr_Extra v') = map_option canon \<circ> map_of (rr_Extra v)"

lemma reasoning_comes_back_responses:
  assumes "reasoning_clean v" "ps_protocol p \<noteq> ProtocolChatCompletions"
  shows "\<exists>ev p' v'. serializeResponseReasoningDelta v = EncodeEvent ev \<and> encodable ev
    \<and> ParseEvent ev (p, h) = ([ResponseReasoning v'], p', h) \<and> reasoning_back (ps_meta p') v v'"
proof -
  let ?ty = "rr_EventType v" and ?R = "reasoning_map v"
  let ?ev = "delta_event ?ty (rr_SSEID v) ?R"
  note w = writable_reasoning_map [OF assms(1)]
  note look = reasoning_map_lookup [OF assms(1)]
  have ty: "?ty \<in> set reasoning_types" and i: "clean_line (rr_SSEID v)" using assms(1) by (simp_all add: reasoning_clean_def)
  obtain q where "ParseEvent ?ev (p, h) = ([delta_segment ?ty ?ev (written ?R) (ps_meta q)], q, h)"
    by (rule parse_responses_delta [OF w assms(2) look(8)]) (use ty in blast)
  then have "ParseEvent ?ev (p, h) = ([ResponseReasoning (reasoning_segment_of ?ty ?ev (written ?R) (ps_meta q))], q, h)"
    using ty delta_types_disjoint(1) [OF ty] by (simp add: delta_segment_def)
  moreover have "reasoning_back (ps_meta q) v (reasoning_segment_of ?ty ?ev (written ?R) (ps_meta q))"
    unfolding reasoning_back_def
  proof (intro conjI response_reasoning_segment.equality)
    show "map_of (rr_Extra (reasoning_segment_of ?ty ?ev (written ?R) (ps_meta q))) = map_option canon \<circ> map_of (rr_Extra v)"
      using assms(1) look(9) by (simp add: reasoning_segment_of_def reasoning_clean_def collect_extra_written [OF w])
  qed (use assms(1) in \<open>simp_all add: reasoning_segment_of_def reasoning_clean_def delta_event_def
      get_string_written [OF w look(1)] get_int_written [OF w look(2)] get_int_ptr_written [OF w look(3)]
      get_int_ptr_written [OF w look(4)] get_string_written [OF w look(5)] get_int_written [OF w look(6)]
      get_string_optional [OF w look(7)]\<close>)
  ultimately show ?thesis
    using serialize_reasoning encode_delta_written [OF w _ i] delta_types [of ?ty] ty by (metis UnCI)
qed

section \<open>Tool-call deltas\<close>

definition tool_delta_clean :: "response_tool_segment \<Rightarrow> bool" where
  "tool_delta_clean v \<longleftrightarrow> rc_EventType v \<in> set tool_types \<and> clean_line (rc_SSEID v)
     \<and> valid_utf8 (rc_ResponseID v) \<and> valid_utf8 (rc_ItemID v) \<and> valid_utf8 (rc_Delta v) \<and> valid_utf8 (rc_CallID v)
     \<and> int64_range (rc_OutputIndex v) \<and> int64_range (rc_SequenceNumber v) \<and> extra_clean tool_known (rc_Extra v)"

definition tool_delta_map :: "response_tool_segment \<Rightarrow> gomap" where
  "tool_delta_map seg =
     (let m = put_all [] (rc_Extra seg);
          m = put ''type'' (GStr (rc_EventType seg)) m;
          m = put ''item_id'' (GStr (rc_ItemID seg)) m;
          m = put ''output_index'' (GInt (rc_OutputIndex seg)) m;
          m = put ''delta'' (GStr (rc_Delta seg)) m;
          m = put ''sequence_number'' (GInt (rc_SequenceNumber seg)) m;
          m = put_string ''call_id'' (rc_CallID seg) m
      in put_string ''response_id'' (rc_ResponseID seg) m)"

lemma serialize_tool_delta:
  "serializeResponseToolCallDelta v = encode_delta (rc_EventType v) (rc_SSEID v) (tool_delta_map v)"
  by (simp add: serializeResponseToolCallDelta_def tool_delta_map_def Let_def)

lemma writable_tool_delta_map:
  assumes "tool_delta_clean v"
  shows "writable_to 10000 (GObj (tool_delta_map v))"
  using assms delta_types [of "rc_EventType v"]
  by (auto simp: tool_delta_map_def Let_def tool_delta_clean_def intro!: writable_root)

lemma tool_delta_map_lookup:
  assumes "tool_delta_clean v"
  shows "map_of (tool_delta_map v) ''item_id'' = Some (GStr (rc_ItemID v))"
    "map_of (tool_delta_map v) ''output_index'' = Some (GInt (rc_OutputIndex v))"
    "map_of (tool_delta_map v) ''delta'' = Some (GStr (rc_Delta v))"
    "map_of (tool_delta_map v) ''sequence_number'' = Some (GInt (rc_SequenceNumber v))"
    "map_of (tool_delta_map v) ''call_id'' = (if rc_CallID v \<noteq> [] then Some (GStr (rc_CallID v)) else None)"
    "map_of (tool_delta_map v) ''response_id'' = (if rc_ResponseID v \<noteq> [] then Some (GStr (rc_ResponseID v)) else None)"
    "map_of (tool_delta_map v) ''error'' = None"
    "k \<notin> set tool_known \<Longrightarrow> map_of (tool_delta_map v) k = map_of (rc_Extra v) k"
proof -
  have x: "extra_clean tool_known (rc_Extra v)" using assms by (simp add: tool_delta_clean_def)
  note look = tool_delta_map_def Let_def map_of_put_string map_of_put_extra [OF x]
  have n: "map_of (rc_Extra v) k = None" if "k \<in> set tool_known \<or> k = ''error''" for k
    using extra_clean_absent [OF x that] .
  show "map_of (tool_delta_map v) ''item_id'' = Some (GStr (rc_ItemID v))"
    "map_of (tool_delta_map v) ''output_index'' = Some (GInt (rc_OutputIndex v))"
    "map_of (tool_delta_map v) ''delta'' = Some (GStr (rc_Delta v))"
    "map_of (tool_delta_map v) ''sequence_number'' = Some (GInt (rc_SequenceNumber v))"
    "map_of (tool_delta_map v) ''call_id'' = (if rc_CallID v \<noteq> [] then Some (GStr (rc_CallID v)) else None)"
    "map_of (tool_delta_map v) ''response_id'' = (if rc_ResponseID v \<noteq> [] then Some (GStr (rc_ResponseID v)) else None)"
    "map_of (tool_delta_map v) ''error'' = None"
    using n by (simp_all add: look tool_known_def)
  show "map_of (tool_delta_map v) k = map_of (rc_Extra v) k" if "k \<notin> set tool_known"
    using that by (simp add: look tool_known_def)
qed

definition tool_delta_back :: "common_metadata \<Rightarrow> response_tool_segment \<Rightarrow> response_tool_segment \<Rightarrow> bool" where
  "tool_delta_back m v v' \<longleftrightarrow> v'\<lparr>rc_Extra := []\<rparr> = v\<lparr>rc_Extra := [], rc_Metadata := m\<rparr>
     \<and> map_of (rc_Extra v') = map_option canon \<circ> map_of (rc_Extra v)"

lemma tool_delta_comes_back:
  assumes "tool_delta_clean v" "ps_protocol p \<noteq> ProtocolChatCompletions"
  shows "\<exists>ev p' v'. serializeResponseToolCallDelta v = EncodeEvent ev \<and> encodable ev
    \<and> ParseEvent ev (p, h) = ([ResponseTool v'], p', h) \<and> tool_delta_back (ps_meta p') v v'"
proof -
  let ?ty = "rc_EventType v" and ?R = "tool_delta_map v"
  let ?ev = "delta_event ?ty (rc_SSEID v) ?R"
  note w = writable_tool_delta_map [OF assms(1)]
  note look = tool_delta_map_lookup [OF assms(1)]
  have ty: "?ty \<in> set tool_types" and i: "clean_line (rc_SSEID v)" using assms(1) by (simp_all add: tool_delta_clean_def)
  obtain q where "ParseEvent ?ev (p, h) = ([delta_segment ?ty ?ev (written ?R) (ps_meta q)], q, h)"
    by (rule parse_responses_delta [OF w assms(2) look(7)]) (use ty in blast)
  then have "ParseEvent ?ev (p, h) = ([ResponseTool (tool_segment_of ?ty ?ev (written ?R) (ps_meta q))], q, h)"
    using ty delta_types_disjoint(2) [OF ty] by (simp add: delta_segment_def)
  moreover have "tool_delta_back (ps_meta q) v (tool_segment_of ?ty ?ev (written ?R) (ps_meta q))"
    unfolding tool_delta_back_def
  proof (intro conjI response_tool_segment.equality)
    show "map_of (rc_Extra (tool_segment_of ?ty ?ev (written ?R) (ps_meta q))) = map_option canon \<circ> map_of (rc_Extra v)"
      using assms(1) look(8) by (simp add: tool_segment_of_def tool_delta_clean_def collect_extra_written [OF w])
  qed (use assms(1) in \<open>simp_all add: tool_segment_of_def tool_delta_clean_def delta_event_def
      get_string_written [OF w look(1)] get_int_written [OF w look(2)] get_string_written [OF w look(3)]
      get_int_written [OF w look(4)] get_string_optional [OF w look(5)] get_string_optional [OF w look(6)]\<close>)
  ultimately show ?thesis
    using serialize_tool_delta encode_delta_written [OF w _ i] delta_types [of ?ty] ty by (metis UnCI)
qed

section \<open>Events that are passed on as they came\<close>

text \<open>The type under which an event is passed on: its own, or the type its data name.\<close>

definition passed_type :: "event \<Rightarrow> bytes" where
  "passed_type ev =
     (case um_map_raw (trim_space (ev_Data ev)) of Some root \<Rightarrow> responses_type ev root | None \<Rightarrow> ev_Type ev)"

definition passed_on :: "event \<Rightarrow> bytes" where
  "passed_on ev =
     (if trim_space (ev_Data ev) = done_marker then EncodeDone
      else EncodeEvent \<lparr>ev_Type = passed_type ev, ev_Data = trim_space (ev_Data ev), ev_ID = ev_ID ev, ev_Raw = []\<rparr>)"

lemma responses_whole:
  assumes "parseResponsesEvent ev ph = (segs, ph')" "ResponseControl c \<in> set segs"
  shows "serializeResponseControl c = passed_on ev"
proof -
  let ?data = "trim_space (ev_Data ev)"
  have ne: "?data \<noteq> []" using assms by (auto simp: parseResponsesEvent_def Let_def)
  show ?thesis
  proof (cases "?data = done_marker")
    case True
    with assms show ?thesis
      by (auto simp: parseResponsesEvent_def Let_def passed_on_def serializeResponseControl_def control_event_def
          done_marker_def)
  next
    case False
    show ?thesis
    proof (cases "um_map_raw ?data")
      case None
      with assms False ne show ?thesis
        by (auto simp: parseResponsesEvent_def Let_def passed_on_def passed_type_def serializeResponseControl_def
            control_event_def)
    next
      case (Some root)
      with assms False ne have "ResponseControl c = fst (parse_responses_root ev ?data root (fst ph))"
        by (auto simp: parseResponsesEvent_def Let_def split: prod.splits)
      then have "ct_EventType c = responses_type ev root \<and> ct_ID c = ev_ID ev \<and> ct_Data c = ?data \<and> \<not> ct_IsDone c"
        by (auto simp: parse_responses_root_def Let_def control_event_def split: if_splits)
      with Some False show ?thesis
        by (simp add: passed_on_def passed_type_def serializeResponseControl_def)
    qed
  qed
qed

section \<open>Properties\<close>

fun responses_clean :: "segment \<Rightarrow> bool" where
  "responses_clean (ResponseText v) = text_clean v"
| "responses_clean (ResponseReasoning v) = reasoning_clean v"
| "responses_clean (ResponseTool v) = tool_delta_clean v"
| "responses_clean _ = False"

fun responses_back :: "common_metadata \<Rightarrow> segment \<Rightarrow> segment \<Rightarrow> bool" where
  "responses_back m (ResponseText v) (ResponseText v') = text_back m v v'"
| "responses_back m (ResponseReasoning v) (ResponseReasoning v') = reasoning_back m v v'"
| "responses_back m (ResponseTool v) (ResponseTool v') = tool_delta_back m v v'"
| "responses_back m _ _ = False"

text \<open>
  C28: deltas of the Responses protocol survive the serializer.  A text, reasoning or tool-call delta is
  written as one event; read from any position of a stream and parsed by a parser that detects the
  protocol, or is set to it, it gives one segment with the same event type, identifiers, indices (absent
  ones absent), sequence number, text, log probabilities and extra fields.
\<close>
theorem responses_delta_round_trip:
  assumes "responses_clean seg" "ps_protocol p \<noteq> ProtocolChatCompletions"
  shows "\<exists>out ev p' seg'. SerializeSegment s h now seg = Some out
    \<and> scan_event e scan_init (lines_of (out @ t)) = (Inr ev, lines_of t)
    \<and> ParseEvent ev (p, h1) = ([seg'], p', h1) \<and> responses_back (ps_meta p') seg seg'"
proof (cases seg)
  case (ResponseText v)
  with text_comes_back [OF _ assms(2), of v h1] assms(1) scan_EncodeEvent show ?thesis by fastforce
next
  case (ResponseReasoning v)
  with reasoning_comes_back_responses [OF _ assms(2), of v h1] assms(1) scan_EncodeEvent show ?thesis by fastforce
next
  case (ResponseTool v)
  with tool_delta_comes_back [OF _ assms(2), of v h1] assms(1) scan_EncodeEvent show ?thesis by fastforce
qed (use assms(1) in simp_all)

definition trip_delta :: segment where
  "trip_delta = ResponseText \<lparr>rt_EventType = ''response.output_text.delta'', rt_ResponseID = ''r'', rt_ItemID = ''i'',
     rt_OutputIndex = 0, rt_ContentIndex = 1, rt_SequenceNumber = 7, rt_Delta = ''hello'', rt_HasLogprobs = True,
     rt_Logprobs = Some [GStr ''p''], rt_SSEID = ''9'', rt_Extra = [(''obfuscation'', GStr ''x'')],
     rt_Metadata = trip_meta\<rparr>"

theorem responses_delta_round_trip_witness:
  "\<exists>out ev p' seg'. SerializeSegment NewSerializer [] 5 trip_delta = Some out
    \<and> scan_event EOF scan_init (lines_of (out @ [])) = (Inr ev, lines_of [])
    \<and> ParseEvent ev (NewParser 0, []) = ([seg'], p', []) \<and> responses_back (ps_meta p') trip_delta seg'"
  by (rule responses_delta_round_trip)
    (simp_all add: trip_delta_def text_clean_def text_types_def clean_line_def extra_clean_def text_known_def
      writable_to_def NewParser_def)

text \<open>
  What is not a delta is passed on untouched.  When a Responses event gives a control segment
  (lifecycle events, errors, data that are no JSON object, the end marker), serializing that segment
  writes the event again: same type, or the type its data name where it had none, same identifier and
  the same data up to surrounding space; the end marker becomes the end marker.
\<close>
theorem control_passes_through:
  assumes "parseResponsesEvent ev ph = (segs, ph')" "ResponseControl c \<in> set segs"
  shows "SerializeSegment s h now (ResponseControl c) = Some (passed_on ev)"
  using responses_whole [OF assms] by simp

theorem control_passes_through_witness:
  "SerializeSegment NewSerializer [] 5
     (ResponseControl (control_event ''x'' \<lparr>ev_Type = ''x'', ev_Data = ''no json'', ev_ID = ''3'', ev_Raw = []\<rparr> ''no json'' (NewParser 0)))
   = Some (passed_on \<lparr>ev_Type = ''x'', ev_Data = ''no json'', ev_ID = ''3'', ev_Raw = []\<rparr>)"
proof (rule control_passes_through)
  have "trim_space ''no json'' = ''no json''" by (rule trim_space_id) (simp_all add: ascii_space_def)
  moreover have "um_map_raw ''no json'' = None" by code_simp
  ultimately show "parseResponsesEvent \<lparr>ev_Type = ''x'', ev_Data = ''no json'', ev_ID = ''3'', ev_Raw = []\<rparr> (NewParser 0, [])
    = ([ResponseControl (control_event ''x'' \<lparr>ev_Type = ''x'', ev_Data = ''no json'', ev_ID = ''3'', ev_Raw = []\<rparr> ''no json'' (NewParser 0))],
       NewParser 0, [])"
    by (simp add: parseResponsesEvent_def done_marker_def Let_def)
qed simp

end
