(* ===== verification/Responses_Transparency.thy ===== *)
theory Responses_Transparency
  imports Pipeline_Transparency Responses_Trip
begin

text \<open>
  The end-to-end property of a Responses stream, beside that of a chat stream in theory
  \<open>Pipeline_Transparency\<close>: deltas of text, reasoning and tool calls are merged, everything else is passed
  on, and a client that parses what \<open>ProcessStream\<close> has written obtains what the upstream sent.
\<close>

section \<open>Segments that can be written\<close>

definition control_written :: "response_control_segment \<Rightarrow> event" where
  "control_written c = \<lparr>ev_Type = ct_EventType c, ev_Data = ct_Data c, ev_ID = ct_ID c, ev_Raw = []\<rparr>"

definition failed :: "bytes \<Rightarrow> raw_map \<Rightarrow> bool" where
  "failed ty root \<longleftrightarrow> ty = ''error'' \<or> ty = ''response.failed'' \<or> map_of root ''error'' \<noteq> None"

definition is_delta :: "bytes \<Rightarrow> bool" where
  "is_delta ty \<longleftrightarrow> ty \<in> set text_types \<union> set reasoning_types \<union> set tool_types"

text \<open>A control segment as the parser makes it.\<close>

definition control_parsed :: "response_control_segment \<Rightarrow> bool" where
  "control_parsed c \<longleftrightarrow>
     (if ct_IsDone c then ct_Data c = done_marker \<and> ct_Usage c = GNil \<and> \<not> ct_IsError c
      else trim_space (ct_Data c) = ct_Data c \<and> ct_Data c \<noteq> [] \<and> ct_Data c \<noteq> done_marker \<and>
        (case um_map_raw (ct_Data c) of
           None \<Rightarrow> ct_Usage c = GNil \<and> \<not> ct_IsError c
         | Some root \<Rightarrow> responses_type (control_written c) root = ct_EventType c \<and>
             ct_IsError c = failed (ct_EventType c) root \<and>
             (if ct_IsError c then ct_Usage c = GNil
              else \<not> is_delta (ct_EventType c) \<and> ct_Usage c = control_usage root)))"

lemma control_parsed:
  assumes "parseResponsesEvent ev ph = (segs, ph')" "ResponseControl c \<in> set segs"
  shows "control_parsed c"
proof -
  let ?data = "trim_space (ev_Data ev)"
  consider (final) "?data = done_marker" | (plain) "?data \<noteq> done_marker" "um_map_raw ?data = None"
    | (root) root where "?data \<noteq> done_marker" "um_map_raw ?data = Some root"
    by (cases "um_map_raw ?data") auto
  then show ?thesis
  proof cases
    case root
    with assms have "ResponseControl c = fst (parse_responses_root ev ?data root (fst ph))" "?data \<noteq> []"
      by (auto simp: parseResponsesEvent_def Let_def split: prod.splits if_splits)
    with root show ?thesis
      by (auto simp: parse_responses_root_def Let_def control_event_def control_parsed_def control_written_def
          failed_def is_delta_def responses_type_def trim_space_idem split: if_splits)
  qed (use assms in \<open>auto simp: parseResponsesEvent_def Let_def control_event_def control_parsed_def done_marker_def
        trim_space_idem split: if_splits\<close>)
qed

fun responses_carriable :: "segment \<Rightarrow> bool" where
  "responses_carriable (ResponseControl c) \<longleftrightarrow> (ct_IsDone c \<or> encodable (control_written c)) \<and> control_parsed c"
| "responses_carriable seg \<longleftrightarrow> responses_clean seg"

lemma extra_clean_put_all:
  assumes "extra_clean known x" "extra_clean known y"
  shows "extra_clean known (put_all x y)"
proof -
  have "extra_clean known (AList.update k v m)"
    if "extra_clean known m" "k \<notin> set known" "k \<noteq> ''error''" "valid_utf8 k" "writable_to 9999 v" "from_json v" for k v m
    using that in_set_update [of _ k v m] by (fastforce simp: extra_clean_def list_all_iff distinct_update)
  then have "list_all (\<lambda>(k, v). k \<notin> set known \<and> k \<noteq> ''error'' \<and> valid_utf8 k \<and> writable_to 9999 v \<and> from_json v) ys \<Longrightarrow>
      extra_clean known m \<Longrightarrow> extra_clean known (put_all m ys)" for ys m
    unfolding put_all_def by (induction ys arbitrary: m) auto
  with assms show ?thesis
    by (simp add: extra_clean_def)
qed

lemma text_clean_merge:
  assumes "text_clean a" "text_clean b"
  shows "text_clean (response_text_Merge a b)"
proof -
  have "writable_to 9999 (GArr (xs @ ys)) \<longleftrightarrow> writable_to 9999 (GArr xs) \<and> writable_to 9999 (GArr ys)" for xs ys
    using writable_to_arr [of 9998] by simp
  then show ?thesis
    using assms extra_clean_put_all [of text_known "rt_Extra a" "rt_Extra b"]
    by (auto simp: text_clean_def response_text_Merge_def Let_def valid_utf8_append append_slice_def
        split: option.splits list.splits if_splits)
qed

lemma responses_merged_carriable:
  assumes "responses_carriable s" "responses_carriable n" "CanMerge s n" "merged s n = Some s'"
  shows "responses_carriable s'"
  using assms(3)
proof (cases rule: CanMerge_cases)
  case (rtext a b)
  with assms text_clean_merge [of a b] show ?thesis by auto
next
  case (rreasoning a b)
  with assms extra_clean_put_all [of reasoning_known "rr_Extra a" "rr_Extra b"] show ?thesis
    by (auto simp: reasoning_clean_def response_reasoning_Merge_def Let_def valid_utf8_append)
next
  case (rtool a b)
  with assms extra_clean_put_all [of tool_known "rc_Extra a" "rc_Extra b"] show ?thesis
    by (auto simp: tool_delta_clean_def response_tool_Merge_def Let_def valid_utf8_append)
qed (use assms in auto)

lemma responses_carriable_ok: "responses_carriable seg \<Longrightarrow> segment_ok seg"
  by (cases seg) simp_all

lemma gathered_responses:
  "gathered CanMerge merged out sent \<Longrightarrow> list_all responses_carriable sent \<Longrightarrow> list_all responses_carriable out"
  by (rule gathered_closed) (use responses_merged_carriable responses_carriable_ok in blast)+

section \<open>What a segment says\<close>

text \<open>
  Of a control segment: its type, identifier, data, usage and flags.  Its model may be the one the parser
  has seen before, and the end marker has neither type nor identifier on the wire.
\<close>

definition essence_of :: "response_control_segment \<Rightarrow> response_control_segment" where
  "essence_of c =
     (let c = c\<lparr>ct_Model := [], ct_Metadata := zero_meta\<rparr>
      in if ct_IsDone c then c\<lparr>ct_EventType := [], ct_ID := []\<rparr> else c)"

definition essence :: "atom \<Rightarrow> atom" where
  "essence a = (case a of Whole (ResponseControl c) \<Rightarrow> Whole (ResponseControl (essence_of c)) | _ \<Rightarrow> a)"

definition responses_substance :: "int \<Rightarrow> segment list \<Rightarrow> atom list" where
  "responses_substance i segs = map essence (carried i segs)"

lemma essence_simps [simp]:
  "essence (Byte ch b) = Byte ch b" "essence (RoleMark k r) = RoleMark k r"
  "essence (Whole (ResponseControl c)) = Whole (ResponseControl (essence_of c))"
  by (simp_all add: essence_def)

lemma map_essence_collapse: "map essence (collapse xs) = collapse (map essence xs)"
proof -
  have m: "is_mark (essence a) = is_mark a" for a
    by (simp add: essence_def split: atom.split segment.split)
  have "is_mark a \<Longrightarrow> essence a = essence b \<longleftrightarrow> a = b" for a b
    by (cases a; cases b) (simp_all add: essence_def split: segment.split)
  with m show ?thesis
    by (induction xs rule: collapse.induct) auto
qed

definition same_essence :: "segment \<Rightarrow> segment list \<Rightarrow> bool" where
  "same_essence seg got \<longleftrightarrow> (\<forall>i. map essence (concat (map (view i) got)) = map essence (view i seg))"

lemma substance_same:
  assumes "list_all2 same_essence segs gots"
  shows "responses_substance i (concat gots) = responses_substance i segs"
proof -
  have "map essence (concat (map (view i) (concat gots))) = map essence (concat (map (view i) segs))"
    using assms by (induction rule: list_all2_induct) (simp_all add: same_essence_def)
  then show ?thesis
    by (simp add: responses_substance_def carried_def map_essence_collapse)
qed

section \<open>A stream comes back\<close>

lemma control_comes_back:
  assumes "responses_carriable (ResponseControl c)" "ps_protocol p = ProtocolResponses"
  shows "\<exists>ev segs p'. SerializeSegment s h0 now (ResponseControl c) = Some (EncodeEvent ev) \<and> encodable ev
    \<and> ParseEvent ev (p, h) = (segs, p', h) \<and> same_essence (ResponseControl c) segs"
proof -
  define ev where "ev = (if ct_IsDone c then \<lparr>ev_Type = [], ev_Data = done_marker, ev_ID = [], ev_Raw = []\<rparr> else control_written c)"
  have "SerializeSegment s h0 now (ResponseControl c) = Some (EncodeEvent ev)"
    by (simp add: ev_def serializeResponseControl_def control_written_def EncodeDone_def EncodeEvent_def data_lines_def
        done_marker_def data_prefix_def)
  moreover have "encodable ev"
    using assms(1) by (auto simp: ev_def encodable_def clean_line_def done_marker_def)
  moreover have "ParseEvent ev (p, h) = parseResponsesEvent ev (p, h)"
    using assms(2) by (simp add: ParseEvent_def)
  moreover have "\<exists>c' p'. parseResponsesEvent ev (p, h) = ([ResponseControl c'], p', h) \<and> essence_of c' = essence_of c"
  proof (cases "ct_IsDone c")
    case True
    have "trim_space done_marker = done_marker"
      by (rule trim_space_id) (simp_all add: done_marker_def ascii_space_def)
    moreover have "done_marker \<noteq> []"
      by (simp add: done_marker_def)
    ultimately show ?thesis
      using True assms(1)
      by (cases c) (simp add: ev_def parseResponsesEvent_def control_event_def control_parsed_def essence_of_def)
  next
    case False
    then have ev: "ev_Data ev = ct_Data c" "ev_Type ev = ct_EventType c" "ev_ID ev = ct_ID c" "ev = control_written c"
      by (simp_all add: ev_def control_written_def)
    have data: "trim_space (ct_Data c) = ct_Data c" "ct_Data c \<noteq> []" "ct_Data c \<noteq> done_marker"
      using assms(1) False by (simp_all add: control_parsed_def)
    show ?thesis
    proof (cases "um_map_raw (ct_Data c)")
      case None
      with assms(1) False ev data show ?thesis
        by (cases c) (simp add: parseResponsesEvent_def control_event_def control_parsed_def essence_of_def)
    next
      case (Some root)
      with assms(1) False have c: "responses_type (control_written c) root = ct_EventType c"
        "ct_IsError c = failed (ct_EventType c) root" "ct_IsError c \<Longrightarrow> ct_Usage c = GNil"
        "\<not> ct_IsError c \<Longrightarrow> \<not> is_delta (ct_EventType c) \<and> ct_Usage c = control_usage root"
        by (auto simp: control_parsed_def split: if_splits)
      with Some False ev data show ?thesis
        by (cases c) (auto simp: parseResponsesEvent_def parse_responses_root_def Let_def control_event_def
            failed_def is_delta_def essence_of_def)
    qed
  qed
  ultimately show ?thesis
    by (fastforce simp: same_essence_def)
qed

lemma responses_comes_back:
  assumes "responses_carriable seg" "ps_protocol p = ProtocolResponses"
  shows "\<exists>ev segs p'. SerializeSegment s h0 now seg = Some (EncodeEvent ev) \<and> encodable ev
    \<and> ParseEvent ev (p, h) = (segs, p', h) \<and> same_essence seg segs"
proof (cases seg)
  case (ResponseText v)
  have "same_essence seg [ResponseText v']" if "text_back m v v'" for m v'
    using that unfolding ResponseText by (cases v; cases v') (simp add: same_essence_def text_back_def)
  with ResponseText text_comes_back [of v p h] assms show ?thesis
    by fastforce
next
  case (ResponseReasoning v)
  have "same_essence seg [ResponseReasoning v']" if "reasoning_back m v v'" for m v'
    using that unfolding ResponseReasoning by (cases v; cases v') (simp add: same_essence_def reasoning_back_def)
  with ResponseReasoning reasoning_comes_back_responses [of v p h] assms show ?thesis
    by fastforce
next
  case (ResponseTool v)
  have "same_essence seg [ResponseTool v']" if "tool_delta_back m v v'" for m v'
    using that unfolding ResponseTool by (cases v; cases v') (simp add: same_essence_def tool_delta_back_def)
  with ResponseTool tool_delta_comes_back [of v p h] assms show ?thesis
    by fastforce
next
  case (ResponseControl c)
  with control_comes_back [of c p s h0 now h] assms show ?thesis
    by simp
qed (use assms(1) in simp_all)

lemma scan_all_EncodeEvent:
  assumes "encodable ev"
  shows "scan_all e (lines_of (EncodeEvent ev @ t)) = ev # scan_all e (lines_of t)"
proof -
  have "lines_of (EncodeEvent ev @ t) \<noteq> []"
  proof
    assume "lines_of (EncodeEvent ev @ t) = []"
    then show False
      using scan_EncodeEvent [OF assms, of e t] by (simp add: scan_error_def has_event_def scan_init_def)
  qed
  then show ?thesis
    using scan_EncodeEvent [OF assms, of e t] by (subst scan_all.simps) simp
qed

lemma responses_stream_comes_back:
  assumes "list_all responses_carriable (map snd ws)" "ps_protocol p = ProtocolResponses"
    and "serialize_all s ws = Some outs"
  shows "list_all2 same_essence (map snd ws) (fst (parse_events (scan_all e (lines_of (concat outs))) (p, h)))"
  using assms
proof (induction ws arbitrary: p h outs)
  case Nil
  then show ?case
    by (simp add: serialize_all_def lines_of_Nil scan_all.simps scan_error_def has_event_def scan_init_def)
next
  case (Cons w ws)
  obtain h0 now seg where w: "w = ((h0, now), seg)"
    by (metis surj_pair)
  obtain ev segs p' where ev: "SerializeSegment s h0 now seg = Some (EncodeEvent ev)" "encodable ev"
    "ParseEvent ev (p, h) = (segs, p', h)" "same_essence seg segs"
    using responses_comes_back [of seg p s h0 now h] Cons.prems by (auto simp: w)
  with Cons.prems(3) obtain outs' where outs: "outs = EncodeEvent ev # outs'" "serialize_all s ws = Some outs'"
    by (auto simp: serialize_all_def w split: option.splits)
  have "ps_protocol p' = ProtocolResponses"
    using ParseEvent_step [OF ev(3)] Cons.prems(2) by (simp add: role_step_def)
  with Cons.IH [of p' outs' h] Cons.prems outs ev show ?case
    by (cases "parse_events (scan_all e (lines_of (concat outs'))) (p', h)") (simp add: scan_all_EncodeEvent w)
qed

section \<open>The proxy is transparent\<close>

text \<open>
  What the Responses format can carry: the type and identifier of an event hold no line break and no
  carriage return at their end, strings are UTF-8, integers fit 64 bits, extra fields are not too deep and
  have no key of the format.
\<close>

fun responses_writable :: "segment \<Rightarrow> bool" where
  "responses_writable (ResponseControl c) \<longleftrightarrow> ct_IsDone c \<or> encodable (control_written c)"
| "responses_writable seg \<longleftrightarrow> responses_clean seg"

lemma parsed_carriable:
  assumes "ps_protocol p = ProtocolResponses" "parse_events evs (p, h) = (ls, ph')"
    and "list_all responses_writable (concat ls)"
  shows "list_all responses_carriable (concat ls)"
  using assms
proof (induction evs arbitrary: p h ls ph')
  case (Cons ev evs)
  obtain segs q h1 where ev: "ParseEvent ev (p, h) = (segs, q, h1)"
    by (metis prod_cases3)
  obtain ls' ph2 where evs: "parse_events evs (q, h1) = (ls', ph2)"
    by (rule prod.exhaust)
  have q: "ps_protocol q = ProtocolResponses"
    using ParseEvent_step [OF ev] Cons.prems(1) by (simp add: role_step_def)
  have "parseResponsesEvent ev (p, h) = (segs, q, h1)"
    using ev Cons.prems(1) by (simp add: ParseEvent_def)
  then have "responses_carriable seg" if "seg \<in> set segs" "responses_writable seg" for seg
    using control_parsed that by (cases seg) auto
  with Cons.IH [OF q evs] Cons.prems ev evs show ?case
    by (auto simp: list_all_iff)
qed simp

lemma responses_transparent:
  assumes "run_step\<^sup>*\<^sup>* (start_stream p [] (scan_all EOF (lines_of upstream)) EOF flusher now) r"
    and "ps_protocol (sp_parser p) = ProtocolResponses"
    and "list_all responses_writable (concat (parsed p [] (scan_all EOF (lines_of upstream))))"
    and "list_all int64_range (tally (sp_metrics p))" "undisturbed_end r"
  shows "responses_substance i (concat (fst (parse_events (scan_all EOF (lines_of (concat (rn_sent r))))
             (SetProtocol ProtocolResponses (NewParser t), []))))
       = responses_substance i (concat (parsed p [] (scan_all EOF (lines_of upstream))))"
proof -
  let ?evs = "scan_all EOF (lines_of upstream)"
  let ?segs = "concat (parsed p [] ?evs)"
  have clean: "list_all responses_carriable ?segs"
    using assms(2, 3) parsed_carriable [of "sp_parser p" ?evs "[]"] unfolding parsed_def by (metis prod.collapse)
  then have ok: "list_all segment_ok ?segs"
    using responses_carriable_ok by (auto simp: list_all_iff)
  with assms(1) have reach: "reaches p [] ?evs EOF r"
    by (auto simp: reaches_def)
  note out = undisturbed_gathered [OF reach assms(5)]
  obtain envs where envs: "length envs = length (ex_out (rn_ex r))"
    "serialize_all (sp_serializer p) (zip envs (ex_out (rn_ex r))) = Some (rn_sent r)"
    using sent_reachable [OF reach assms(4)] by (auto simp: sent_ok_def)
  then have "map snd (zip envs (ex_out (rn_ex r))) = ex_out (rn_ex r)"
    by simp
  with responses_stream_comes_back [OF _ _ envs(2), of "SetProtocol ProtocolResponses (NewParser t)" EOF "[]"]
    gathered_responses [OF out clean]
  have "list_all2 same_essence (ex_out (rn_ex r)) (fst (parse_events (scan_all EOF (lines_of (concat (rn_sent r))))
      (SetProtocol ProtocolResponses (NewParser t), [])))"
    by (simp add: SetProtocol_def)
  from substance_same [OF this] show ?thesis
    using gathered_carried [OF out ok] by (simp add: responses_substance_def)
qed


section \<open>A witness\<close>

definition delta_chunk :: event where
  "delta_chunk = \<lparr>ev_Type = ''response.output_text.delta'', ev_Data = ''{'' @ quote # ''delta'' @ quote # '':'' @ quote # ''hi''
     @ quote # ''}'', ev_ID = [], ev_Raw = []\<rparr>"

definition delta_pipeline :: stream_pipeline where
  "delta_pipeline = SetProtocol_pipeline ProtocolResponses (NewStreamPipeline 3000000000 DefaultBufferConfig None)"

definition delta_start :: stream_run where
  "delta_start = start_stream delta_pipeline [] [delta_chunk] EOF True 2"

definition delta_finished :: stream_run where
  "delta_finished = the (run_actions sample_actions delta_start)"

lemma delta_runs:
  "case run_actions sample_actions delta_start of
     Some r \<Rightarrow> ex_ctx (rn_ex r) = None \<and> ex_writer (rn_ex r) = WriterDone [] None
   | None \<Rightarrow> False"
  by code_simp

lemma delta_finished: "run_step\<^sup>*\<^sup>* delta_start delta_finished" "undisturbed_end delta_finished"
  using delta_runs run_actions_reach [of sample_actions delta_start]
  by (auto simp: delta_finished_def undisturbed_end_def split: option.splits)

lemma delta_parsed:
  "scan_all EOF (lines_of (EncodeEvent delta_chunk)) = [delta_chunk]"
  "fst (parse_events [delta_chunk] (sp_parser delta_pipeline, [])) =
     [[ResponseText \<lparr>rt_EventType = ''response.output_text.delta'', rt_ResponseID = [], rt_ItemID = [],
        rt_OutputIndex = 0, rt_ContentIndex = 0, rt_SequenceNumber = 0, rt_Delta = ''hi'', rt_HasLogprobs = False,
        rt_Logprobs = None, rt_SSEID = [], rt_Extra = [], rt_Metadata = zero_meta\<lparr>md_Created := 3\<rparr>\<rparr>]]"
  by code_simp+


end
