(* ===== verification/Server_Stream.thy ===== *)
theory Server_Stream
  imports Server_Client Responses_Transparency
begin

text \<open>
  A streamed request from end to end, for both protocols: the client's request is routed and forwarded, the
  upstream's response runs through the pipeline, and what the pipeline writes reaches the client through
  the writer of \<open>ServeHTTP\<close>, compressing or not.
\<close>

section \<open>What the handler writes\<close>

fun written_by :: "response_op \<Rightarrow> bytes list" where
  "written_by (OpWrite p) = [p]"
| "written_by _ = []"

fun body_op :: "response_op \<Rightarrow> bool" where
  "body_op (OpWrite p) \<longleftrightarrow> True"
| "body_op OpFlush \<longleftrightarrow> True"
| "body_op _ \<longleftrightarrow> False"

lemma plain_writes:
  assumes "list_all body_op os" "hw_status w = Some s" "body_allowed s" "hw_room w = None"
  shows "hw_body (fold plain_op os w) = hw_body w @ concat (concat (map written_by os)) \<and>
    hw_status (fold plain_op os w) = Some s \<and> hw_sent (fold plain_op os w) = hw_sent w"
  using assms
proof (induction os arbitrary: w)
  case (Cons o' os)
  from Cons.prems Cons.IH [of "plain_op o' w"] show ?case
    by (cases o') (auto simp: hw_Write_def hw_Flush_def Let_def)
qed simp

lemma plain_stream:
  assumes "list_all body_op os"
  shows "hw_status (plain_run ([OpHeader f, OpWriteHeader 200, OpFlush] @ os)) = Some 200"
    and "hw_sent (plain_run ([OpHeader f, OpWriteHeader 200, OpFlush] @ os)) = f []"
    and "hw_body (plain_run ([OpHeader f, OpWriteHeader 200, OpFlush] @ os)) = concat (concat (map written_by os))"
proof -
  define w where "w = fold plain_op [OpHeader f, OpWriteHeader 200, OpFlush] (new_writer None)"
  have "hw_status w = Some 200" "hw_room w = None" "hw_body w = []" "hw_sent w = f []"
    by (simp_all add: w_def new_writer_def hw_WriteHeader_def hw_Flush_def Let_def)
  with plain_writes [OF assms, of w 200]
  show "hw_status (plain_run ([OpHeader f, OpWriteHeader 200, OpFlush] @ os)) = Some 200"
    "hw_sent (plain_run ([OpHeader f, OpWriteHeader 200, OpFlush] @ os)) = f []"
    "hw_body (plain_run ([OpHeader f, OpWriteHeader 200, OpFlush] @ os)) = concat (concat (map written_by os))"
    by (simp_all add: plain_run_def w_def body_allowed_def)
qed

lemma stream_arrives:
  assumes "\<And>enc. enc \<noteq> EncodingNone \<Longrightarrow> codec_ok (cs enc)" "list_all body_op os"
    and "header_get (f []) ''Content-Encoding'' = []"
  shows "\<exists>w s'. respond cs q ([OpHeader f, OpWriteHeader 200, OpFlush] @ os) s = Some (w, s') \<and> hw_status w = Some 200 \<and>
    client_body cs w = Some (concat (concat (map written_by os)))"
proof -
  have "body_op o' \<Longrightarrow> op_final o'" for o'
    by (cases o') auto
  then have final: "list_all op_final ([OpHeader f, OpWriteHeader 200, OpFlush] @ os)"
    using assms(2) by (auto simp: list_all_iff)
  note plain = plain_stream [OF assms(2), of f]
  obtain w s' where "respond cs q ([OpHeader f, OpWriteHeader 200, OpFlush] @ os) s = Some (w, s')"
    "arrives cs (plain_run ([OpHeader f, OpWriteHeader 200, OpFlush] @ os)) w"
    using respond_arrives [where cs = cs and q = q and s = s, OF _ final] assms(1) plain(1) by fastforce
  with plain assms(3) show ?thesis
    by (auto simp: arrives_def)
qed

section \<open>What the handler sets up\<close>

lemma stream_header_coding: "header_get (stream_headers h []) ''Content-Encoding'' = header_get (copyHeaders h []) ''Content-Encoding''"
proof -
  have "canonical_key ''X-Accel-Buffering'' = ''X-Accel-Buffering''" "canonical_key ''Connection'' = ''Connection''"
    "canonical_key ''Cache-Control'' = ''Cache-Control''" "canonical_key ''Content-Type'' = ''Content-Type''"
    by code_simp+
  then show ?thesis
    by (simp add: stream_headers_def header_get_def)
qed

lemma forward_stream_streams:
  assumes "forward_stream env q proto t b sid m s = (Streams ops st, s')"
  shows "st_pipeline st = session_pipeline env proto m s"
    and "\<exists>req resp. env_do env req = Inr resp \<and> rs_Body resp = st_body st
      \<and> ops = [OpHeader (stream_headers (rs_Header resp)), OpWriteHeader 200, OpFlush]"
  using assms by (force simp: forward_stream_def Let_def split: sum.splits if_splits)+

lemma route_streams:
  assumes "route env q s = Some (Streams ops st, s')"
  obtains proto m s2 req resp where "proto = ProtocolChatCompletions \<or> proto = ProtocolResponses"
    "st_pipeline st = session_pipeline env proto m s2" "env_do env req = Inr resp" "rs_Body resp = st_body st"
    "ops = [OpHeader (stream_headers (rs_Header resp)), OpWriteHeader 200, OpFlush]"
proof -
  obtain proto where proto: "proto = ProtocolChatCompletions \<or> proto = ProtocolResponses"
    "handleStreamingEndpoint env q proto s = Some (Streams ops st, s')"
    using assms
    by (auto simp: route_def Let_def handleChatCompletions_def handleResponses_def handleMonitor_def serve_models_def
        split: if_splits prod.splits bool.splits)
  from proto(2) obtain t b sid m s2 where "forward_stream env q proto t b sid m s2 = (Streams ops st, s')"
    by (auto simp: handleStreamingEndpoint_def Let_def split: option.splits sum.splits prod.splits if_splits)
  from forward_stream_streams [OF this] proto(1) that show thesis
    by blast
qed

lemma session_parser:
  "sp_parser (session_pipeline env proto m s) = SetProtocol proto (NewParser (unix_seconds (env_start env)))"
  "sp_protocol (session_pipeline env proto m s) = proto"
  by (simp_all add: session_pipeline_def SetPacketCallback_def SetModelOverride_pipeline_def SetRequestInfo_def
      SetProtocol_pipeline_def NewStreamPipeline_def SetStartTime_def SetProtocol_def NewParser_def)

section \<open>From upstream to client\<close>

text \<open>What a protocol can carry, and what a stream says in it.\<close>

definition stream_carried :: "stream_pipeline \<Rightarrow> event list \<Rightarrow> bool" where
  "stream_carried p evs \<longleftrightarrow>
     (if sp_protocol p = ProtocolResponses then list_all responses_writable (concat (parsed p [] evs))
      else stream_clean p evs)"

definition told :: "protocol \<Rightarrow> int \<Rightarrow> segment list \<Rightarrow> atom list" where
  "told proto i segs = (if proto = ProtocolResponses then responses_substance i segs else substance i segs)"


section \<open>A witness\<close>

definition sample_request :: client_request where
  "sample_request = \<lparr>cr_Method = ''POST'', cr_Path = ''/v1/chat/completions'', cr_RawQuery = [],
     cr_Header = [(''Accept-Encoding'', [''gzip''])], cr_Body = ''{\"model\":\"gpt\",\"stream\":true}'', cr_readErr = None\<rparr>"

definition streaming_env :: env where
  "streaming_env = (sample_env ''text/event-stream'' sample_upstream)\<lparr>env_start := 3000000000\<rparr>"

definition sample_session :: stream_session where
  "sample_session =
     \<lparr>st_pipeline = session_pipeline streaming_env ProtocolChatCompletions ''gpt'' sample_server,
      st_body = sample_upstream, st_end = EOF, st_id = session_id 0 1, st_model = ''gpt'',
      st_request = cr_Body sample_request, st_status = 200\<rparr>"

definition sample_ops :: "response_op list" where
  "sample_ops = [OpHeader (stream_headers [(''Content-Type'', [''text/event-stream''])]), OpWriteHeader 200, OpFlush]"

lemma sample_request_forwarded:
  "isl (forward_request streaming_env sample_request sample_target (cr_Body sample_request)) = False"
  "Contains (header_get [(''Content-Type'', [''text/event-stream''])] ''Content-Type'') ''text/event-stream''"
  "stored_check (cr_Body sample_request) = \<lparr>sk_Stream = True, sk_Model = ''gpt''\<rparr>"
  "TrimSuffix (cr_Path sample_request) ''/'' = ''/v1/chat/completions''"
  "header_get (copyHeaders [(''Content-Type'', [''text/event-stream''])] []) ''Content-Encoding'' = []"
  by code_simp+

lemma sample_response:
  "env_do streaming_env q = Inr \<lparr>rs_StatusCode = 200, rs_Header = [(''Content-Type'', [''text/event-stream''])],
      rs_Body = sample_upstream, rs_readErr = None\<rparr>"
  by (simp add: streaming_env_def sample_env_def)

lemma sample_streams:
  "\<exists>s. route streaming_env sample_request sample_server = Some (Streams sample_ops sample_session, s)"
proof -
  obtain req where req: "forward_request streaming_env sample_request sample_target (cr_Body sample_request) = Inr req"
    using sample_request_forwarded(1) by (cases "forward_request streaming_env sample_request sample_target (cr_Body sample_request)") auto
  have watched: "broadcast_watched ev (sample_server\<lparr>sv_sessionSeq := 1\<rparr>) = Some (sample_server\<lparr>sv_sessionSeq := 1\<rparr>)" for ev
    by (simp add: broadcast_watched_def HasSubscribers_def sample_server NewMonitorHub_def)
  have pipe: "session_pipeline env proto m (s\<lparr>sv_sessionSeq := n\<rparr>) = session_pipeline env proto m s" for env proto m s n
    by (simp add: session_pipeline_def)
  have resolved: "resolveUpstream ip (sample_server\<lparr>sv_sessionSeq := n\<rparr>) ''gpt'' = Inr (sample_target, ''gpt'')" for ip n
    by (simp add: resolveUpstream_def sample_server Cut_absent)
  have "env_clock streaming_env 0 = 0"
    by (simp add: streaming_env_def sample_env_def)
  moreover have "cr_readErr sample_request = None" "cr_Method sample_request = ''POST''"
    by (simp_all add: sample_request_def)
  ultimately show ?thesis
    using sample_request_forwarded(2-) req watched resolved pipe
    by (simp add: route_def Let_def handleChatCompletions_def handleStreamingEndpoint_def forward_stream_def
        sample_ops_def sample_session_def sample_server sample_response)
qed

definition session_start :: stream_run where
  "session_start = start_stream (st_pipeline sample_session) [] [sample_chunk] EOF True 2"

definition session_finished :: stream_run where
  "session_finished = the (run_actions sample_actions session_start)"

lemma session_runs:
  "case run_actions sample_actions session_start of
     Some r \<Rightarrow> ex_ctx (rn_ex r) = None \<and> ex_writer (rn_ex r) = WriterDone [] None
   | None \<Rightarrow> False"
  by code_simp

lemma session_finished: "run_step\<^sup>*\<^sup>* session_start session_finished" "undisturbed_end session_finished"
  using session_runs run_actions_reach [of sample_actions session_start]
  by (auto simp: session_finished_def undisturbed_end_def split: option.splits)

lemma session_facts:
  "st_end sample_session = EOF" "st_body sample_session = sample_upstream"
  "modelOverride (sp_serializer (st_pipeline sample_session)) = ''gpt''"
  "list_all int64_range (tally (sp_metrics (st_pipeline sample_session)))"
  "sp_parser (st_pipeline sample_session) = sp_parser sample_pipeline"
  "sp_protocol (st_pipeline sample_session) = ProtocolChatCompletions"
proof -
  show "list_all int64_range (tally (sp_metrics (st_pipeline sample_session)))"
    "modelOverride (sp_serializer (st_pipeline sample_session)) = ''gpt''"
    by (simp_all add: sample_session_def session_pipeline_def SetPacketCallback_def SetModelOverride_pipeline_def
        SetRequestInfo_def SetProtocol_pipeline_def NewStreamPipeline_def SetModelOverride_def zero_metrics_def tally_def
        sample_server)
  show "sp_parser (st_pipeline sample_session) = sp_parser sample_pipeline"
    by (simp add: sample_session_def session_parser streaming_env_def sample_env_def sample_pipeline_def
        SetProtocol_pipeline_def NewStreamPipeline_def)
qed (simp_all add: sample_session_def session_parser)

lemma session_carried: "stream_carried (st_pipeline sample_session) [sample_chunk]"
proof -
  have "heap_after (st_pipeline sample_session) h evs = heap_after sample_pipeline h evs"
    "parsed (st_pipeline sample_session) h evs = parsed sample_pipeline h evs" for h evs
    by (simp_all add: heap_after_def parsed_def session_facts)
  moreover have "valid_utf8 ''gpt''"
    by code_simp
  ultimately show ?thesis
    using sample_clean by (simp add: stream_carried_def stream_clean_def session_facts)
qed


end
