(* ===== verification/Command.thy ===== *)
theory Command
  imports Server_State
begin

text \<open>
  \<open>cmd/proxy/main.go\<close>: the process.  \<open>main\<close> parses the command line, starts a goroutine that listens and
  waits for a signal; then it shuts the server down.  \<open>log.Fatalf\<close> ends the process with status 1,
  returning from \<open>main\<close> with status 0.
\<close>

section \<open>State\<close>

text \<open>
  The goroutine of \<open>ListenAndServe\<close>: binding the address, accepting connections, or returned with
  \<open>ErrServerClosed\<close>.
\<close>

datatype listener = Binding | Accepting | ServerClosed

datatype main_pc = AwaitSignal | InShutdown

text \<open>\<open>pr_stopChan\<close>: whether the channel for signals, which has room for one, holds one.\<close>

record process =
  pr_server :: proxy_server
  pr_addr :: bytes
  pr_listener :: listener
  pr_main :: main_pc
  pr_stopChan :: bool

datatype main_state = Exited int | Runs process

definition main_start :: "bytes list \<Rightarrow> main_state" where
  "main_start args =
     (case ParseFlags args of
        Inl err \<Rightarrow> Exited (if err = HelpRequested then 0 else 1)
      | Inr c \<Rightarrow>
          Runs \<lparr>pr_server = NewProxyServer (server_config_of c), pr_addr = Address c, pr_listener = Binding,
                pr_main = AwaitSignal, pr_stopChan = False\<rparr>)"

section \<open>Steps\<close>

text \<open>
  An error of the listener ends the process unless it is \<open>ErrServerClosed\<close>, which is what accepting ends
  with once the shutdown has begun; binding may still fail then.  \<open>Shutdown\<close> returns when every
  connection is idle or when its ten seconds are over, and \<open>main\<close> returns after either.  Signals that
  come while the channel is full are dropped.
\<close>

inductive main_step :: "main_state \<Rightarrow> main_state \<Rightarrow> bool" where
  bound: "pr_listener p = Binding \<Longrightarrow> pr_main p = AwaitSignal \<Longrightarrow> main_step (Runs p) (Runs (p\<lparr>pr_listener := Accepting\<rparr>))"
| bind_fails: "pr_listener p = Binding \<Longrightarrow> main_step (Runs p) (Exited 1)"
| accept_fails: "pr_listener p = Accepting \<Longrightarrow> pr_main p = AwaitSignal \<Longrightarrow> main_step (Runs p) (Exited 1)"
| closed: "pr_listener p \<noteq> ServerClosed \<Longrightarrow> pr_main p = InShutdown \<Longrightarrow>
    main_step (Runs p) (Runs (p\<lparr>pr_listener := ServerClosed\<rparr>))"
| serves: "server_step (pr_server p) s \<Longrightarrow> main_step (Runs p) (Runs (p\<lparr>pr_server := s\<rparr>))"
| signal: "main_step (Runs p) (Runs (p\<lparr>pr_stopChan := True\<rparr>))"
| stop: "pr_main p = AwaitSignal \<Longrightarrow> pr_stopChan p \<Longrightarrow>
    main_step (Runs p) (Runs (p\<lparr>pr_main := InShutdown, pr_stopChan := False\<rparr>))"
| shut_down: "pr_main p = InShutdown \<Longrightarrow> main_step (Runs p) (Exited 0)"

inductive_cases main_stepE: "main_step (Runs p) q"
inductive_simps exited_step [simp]: "main_step (Exited n) q"

section \<open>What the process guarantees\<close>

definition main_ok :: "bytes list \<Rightarrow> main_state \<Rightarrow> bool" where
  "main_ok args q \<longleftrightarrow>
     (case q of
        Exited n \<Rightarrow> n = 0 \<or> n = 1
      | Runs p \<Rightarrow> (\<exists>c. ParseFlags args = Inr c \<and> config_ok c \<and> pr_addr p = Address c \<and>
          server_step\<^sup>*\<^sup>* (NewProxyServer (server_config_of c)) (pr_server p)) \<and>
          (pr_listener p = ServerClosed \<longrightarrow> pr_main p = InShutdown))"

lemma main_ok_reachable:
  assumes "main_step\<^sup>*\<^sup>* (main_start args) q"
  shows "main_ok args q"
  using assms
proof (induction rule: rtranclp_induct)
  case base
  then show ?case
    by (auto simp: main_ok_def main_start_def parsed_config_ok split: sum.split)
next
  case (step q r)
  from step(2) step(3) show ?case
    by (cases rule: main_step.cases) (auto simp: main_ok_def intro: rtranclp.rtrancl_into_rtrancl)
qed

text \<open>
  While the process runs, it runs an accepted configuration, its server is in a state in which no
  handler panics, and until the first signal has been taken it ends only with status 1, by an error of the
  listener.
\<close>

lemma process_serves:
  assumes "main_step\<^sup>*\<^sup>* (main_start args) (Runs p)"
  shows "hub_ok (pr_server p)"
    and "pr_main p = AwaitSignal \<Longrightarrow> main_step (Runs p) (Exited n) \<Longrightarrow> n = 1 \<and> pr_listener p \<noteq> ServerClosed"
proof -
  have ok: "main_ok args (Runs p)"
    by (rule main_ok_reachable [OF assms])
  then show "hub_ok (pr_server p)"
    using hub_ok_reachable [OF _ hub_ok_new] by (auto simp: main_ok_def)
  show "n = 1 \<and> pr_listener p \<noteq> ServerClosed" if "pr_main p = AwaitSignal" "main_step (Runs p) (Exited n)"
    using that(2, 1) by (cases rule: main_stepE) auto
qed

text \<open>After a signal the process can end, and every further one is dropped or ignored.\<close>

lemma signal_ends:
  assumes "pr_main p = AwaitSignal"
  shows "main_step\<^sup>*\<^sup>* (Runs p) (Exited 0)"
proof -
  let ?p = "p\<lparr>pr_stopChan := True\<rparr>"
  let ?q = "?p\<lparr>pr_main := InShutdown, pr_stopChan := False\<rparr>"
  have "main_step (Runs p) (Runs ?p)" "main_step (Runs ?p) (Runs ?q)" "main_step (Runs ?q) (Exited 0)"
    using signal stop [of ?p] shut_down [of ?q] assms by simp_all
  then show ?thesis
    by (meson converse_rtranclp_into_rtranclp rtranclp.rtrancl_refl)
qed

end
