(* ===== verification/Spec2Isabelle.thy ===== *)
theory Spec2Isabelle
  imports Parser_Types Body_Laws Server_Stream Command
begin

text \<open>
  A verification of the buffered LLM proxy, a Go program that sits between clients and OpenAI-compatible
  upstreams.  It reads an upstream's event stream as fast as it comes, merges adjacent fragments while the
  client is slow, and writes fewer, larger events; beside it there are model lists, metrics, a monitor
  and compression.

  \<^bold>\<open>Parts of the program and their theories.\<close>  Names of definitions are those of the code.

  \<^item> \<^bold>\<open>Go itself.\<close>  \<open>Prelude\<close> (int64 wrap-around, maps as association lists), \<open>Go_Utf8\<close>, \<open>Go_Bytes\<close>,
    \<open>Go_Float\<close> (float64 exactly, with rounding), \<open>Go_Value\<close> (\<open>interface{}\<close>), \<open>Go_Strconv\<close>, \<open>Go_Http\<close>
    (headers, the \<open>ResponseWriter\<close>), \<open>Go_Url\<close> (\<open>net/url\<close>), \<open>Bufio\<close> (the buffered reader with its buffer
    as a store, so slices of it alias), \<open>Json_Text\<close> and \<open>Json_Value\<close> (\<open>encoding/json\<close>).  Only what the
    program uses is there.  \<open>Json_Laws\<close> and \<open>Url_Laws\<close> show that reading undoes writing.
  \<^item> \<^bold>\<open>pkg/sse.\<close>  \<open>Sse\<close>: \<open>ReadEvent\<close> on the aliasing buffer, the encoders, and \<open>scan_event\<close>, the line-based
    specification that \<open>ReadEvent\<close> refines while lines fit the buffer of 64 KiB.
  \<^item> \<^bold>\<open>pkg/semantic.\<close>  \<open>Types\<close> (metadata; the map \<open>Extra\<close> that all segments of a parser share is an address
    into an explicit heap), \<open>Segments\<close> (one record per segment struct with \<open>Type\<close>, \<open>BytesLen\<close>, \<open>CanMerge\<close>,
    \<open>Merge\<close>), \<open>Semantic_Parser\<close>, \<open>Serializer\<close>.  \<open>Segment_Laws\<close> and \<open>Segment_View\<close> observe a segment as a
    sequence of atoms, one per byte of a channel and one per barrier, and show that merging
    concatenates observations.  \<open>Parser_Laws\<close> and \<open>Parser_Types\<close> hold of all runs of the parser;
    \<open>Round_Trip\<close>, \<open>Chat_Trip\<close>, \<open>Metadata_Trip\<close>, \<open>Responses_Trip\<close> read back what the serializer writes.
  \<^item> \<^bold>\<open>pkg/aggregator.\<close>  \<open>Buffer\<close> (\<open>PendingBuffer\<close>; a method is cut into the atomic sections between its
    waits), \<open>Exchange\<close> (the reader, writer, monitor and cancelling environment of \<open>ProcessStream\<close> as a step
    relation over the buffer), \<open>Schedule\<close> (the same, executable), \<open>Pipeline\<close> (the whole of \<open>ProcessStream\<close>:
    parsing, counting, serializing, writing, flushing, reporting).  The buffer's client states what it
    needs of the segments as the locale \<open>coalescing\<close> (theory \<open>Coalescing\<close>), which \<open>Segment_View\<close> interprets
    on the segments; \<open>Pipeline_Refinement\<close> interprets the locale \<open>simulation\<close>, so all that is proved of
    \<open>Exchange\<close> holds of \<open>Pipeline\<close>.  \<open>Pipeline_Accounts\<close> is the invariant of the counters,
    \<open>Pipeline_Laws\<close> holds the results, \<open>Pipeline_Transparency\<close> (with \<open>Transparency\<close>) and
    \<open>Responses_Transparency\<close> that the proxy is transparent for chat and for Responses streams.
  \<^item> \<^bold>\<open>pkg/metrics.\<close>  \<open>Metrics\<close>: counters, ratios, per-model accounts, and the compare-and-swap loop of
    \<open>SetPendingBytes\<close> under interference.  \<open>Metrics_Format\<close>: the texts made of them, \<open>Summary\<close> among them.
  \<^item> \<^bold>\<open>pkg/compress.\<close>  \<open>Compress\<close> (\<open>SelectEncoding\<close> and the compressing \<open>ResponseWriter\<close>), \<open>Compress_Laws\<close>.
  \<^item> \<^bold>\<open>pkg/config.\<close>  \<open>Config\<close> (the command line, with the \<open>flag\<close> package), \<open>Config_Laws\<close>.
  \<^item> \<^bold>\<open>pkg/proxy.\<close>  \<open>Monitor\<close> (the hub and its channels), \<open>Server_Base\<close>, \<open>Server_Models\<close> and \<open>Server\<close> (routing and
    every handler), \<open>Server_Laws\<close>, \<open>Body_Laws\<close> (exchanging the model in a body), \<open>Server_State\<close> (invariants of everything
    that can happen to a server),
    \<open>Server_Client\<close> (what the client has when \<open>ServeHTTP\<close> returns) and \<open>Server_Stream\<close> (from a streamed
    request to what the client parses).
  \<^item> \<^bold>\<open>cmd/proxy.\<close>  \<open>Command\<close>: the process from its command line to its exit status, as a step relation around
    the steps of the server.

  \<^bold>\<open>How the parts meet.\<close>  \<open>ServeHTTP\<close> routes a request to a handler; a handler is a function from the server's
  state to the new state and to the operations on its \<open>ResponseWriter\<close>.  A streamed request yields a
  \<open>stream_session\<close>, whose pipeline then runs as the step relation \<open>run_step\<close>; its packets go to the hub by
  \<open>stream_packet\<close>, its end to the last requests by \<open>end_stream\<close>.  What it has written are further operations
  on the same writer, which \<open>respond\<close> runs on the plain or on the compressing writer.

  \<^bold>\<open>What is shown.\<close>  The proxy is transparent: whatever the interleaving, a client that parses the output of
  an undisturbed stream obtains what the upstream sent, in both protocols and through the whole server; and
  a response that is not streamed arrives with its status, header and body.  This rests on the exchange (nothing is lost,
  duplicated or reordered; no deadlock; every run ends; the queue is bounded), on the laws of \<open>Merge\<close>,
  on the round trips of serializer and parser, and on the refinement of the exchange by the pipeline.
  The rest: reading of events, types of parsed data, accounting, negotiation and transparency of
  compression, configuration and routing, the hub as a set of independent inboxes, the model cache, and
  that no handler panics.  Theorems with hypotheses are applied at concrete inputs by their witnesses.
  Some theorems record what the code does against its intention: it loses events with lines over 64 KiB
  (\<open>Sse\<close>); a high watermark of 1 leads to a deadlock, and an upstream error with segments still queued is
  not reported (\<open>Schedule\<close>); a repeated tool-call index doubles arguments (\<open>Segment_Laws\<close>); an unknown
  delta is forwarded without its chunk (\<open>Parser_Laws\<close>); a key in the place of the user of a URL becomes its
  host (\<open>Config_Laws\<close>); and an informational status hides the final one (\<open>Compress_Laws\<close>).

  \<^bold>\<open>Errors, panics, loops.\<close>  An error is a value of an option or sum type; \<open>None\<close> of a whole operation is a
  panic where its text says so.  The JSON reader takes a fuel of twice the length of the text, which
  \<open>Json_Laws\<close> shows to be enough for every written value, and stops at the depth of 10000 that the
  library has; the shortest decimal of a float64 takes at most 800 digits of fuel, more than any
  float64 needs.  \<open>ReadEvent\<close> may wait for ever on a reader that delivers nothing, so its loop is a partial
  function; on any finite stream it returns.

  \<^bold>\<open>Parameters.\<close>  The two encoders (a codec; \<open>codec_ok\<close> is their documented contract), and in the record
  \<open>env\<close>: the HTTP client as a function from requests to responses or errors, the texts of errors made by
  the library, the clock, the table of printable runes, and the page of the dashboard.

  \<^bold>\<open>Not modelled.\<close>  The dashboard's page (\<open>dashboard.html\<close>, static); sockets and connections, of which
  \<open>Command\<close> keeps only when they fail; the log; the default transport of \<open>NewProxyServer\<close>; the pools of encoders, \<open>CloseNotify\<close> and \<open>Unwrap\<close> of the compressing writer, which only
  hand on; output that the zstd encoder would emit from a goroutine of its own; what \<open>net/http\<close> does
  beyond the first \<open>WriteHeader\<close> (HEAD requests, enforcement of \<open>Content-Length\<close>, statuses below 100).
\<close>

end
